(* ===== verification/Etos_Prelude.thy ===== *)
theory Etos_Prelude
  imports Main "HOL-Library.Char_ord"
begin

text \<open>
  Shared vocabulary of the development: Go's byte strings and the few functions of
  \<open>strings\<close> and \<open>strconv\<close> that the sources call, Go error values with
  \<open>errors.Is\<close> and \<open>errors.Join\<close>, outcomes of a call that may panic, and the
  named collections of facts that the component theories fill.
\<close>

named_theorems go_defs \<open>unfolding equations of the small handler and helper definitions\<close>
named_theorems etos_inv \<open>preservation facts of the component invariants\<close>

subsection \<open>Byte strings\<close>

type_synonym bytes = "char list"

text \<open>\<open>strings.Split(s, c)\<close> for a one-byte separator, the only kind the sources use.\<close>

fun split_on :: "char \<Rightarrow> string \<Rightarrow> string list" where
  "split_on c [] = [[]]"
| "split_on c (x # xs) =
     (if x = c then [] # split_on c xs
      else (case split_on c xs of [] \<Rightarrow> [[x]] | y # ys \<Rightarrow> (x # y) # ys))"

text \<open>\<open>strings.Join(xs, sep)\<close>.\<close>

fun join_with :: "string \<Rightarrow> string list \<Rightarrow> string" where
  "join_with sep [] = []"
| "join_with sep [x] = x"
| "join_with sep (x # y # ys) = x @ sep @ join_with sep (y # ys)"

lemma split_on_not_Nil [simp]: "split_on c s \<noteq> []"
  by (induction s) (auto split: list.splits)

lemma length_split_on: "length (split_on c s) = Suc (count_list s c)"
  by (induction s) (auto split: list.splits)

lemma split_on_free: "x \<in> set (split_on c s) \<Longrightarrow> c \<notin> set x"
  by (induction s arbitrary: x) (auto split: list.splits if_splits)

lemma split_on_no_sep: "c \<notin> set s \<Longrightarrow> split_on c s = [s]"
  by (induction s) auto

lemma join_with_Cons: "xs \<noteq> [] \<Longrightarrow> join_with sep (x # xs) = x @ sep @ join_with sep xs"
  by (cases xs) auto

lemma join_split_on [simp]: "join_with [c] (split_on c s) = s"
proof (induction s)
  case (Cons x xs)
  obtain y ys where s: "split_on c xs = y # ys"
    by (cases "split_on c xs") auto
  with Cons show ?case
    by (cases ys) auto
qed simp

lemma split_on_append_sep: "c \<notin> set x \<Longrightarrow> split_on c (x @ c # s) = x # split_on c s"
  by (induction x) auto

lemma split_join_with:
  assumes "xs \<noteq> []" and "\<And>x. x \<in> set xs \<Longrightarrow> c \<notin> set x"
  shows "split_on c (join_with [c] xs) = xs"
  using assms
proof (induction xs rule: list_nonempty_induct)
  case (single x)
  then show ?case by (simp add: split_on_no_sep)
next
  case (cons x xs)
  then show ?case by (simp add: join_with_Cons split_on_append_sep)
qed

lemma count_list_append_eq [simp]: "count_list (xs @ ys) c = count_list xs c + count_list ys c"
  by (induction xs) auto

lemma length_split_on_append_sep:
  "length (split_on c (x @ c # s)) = length (split_on c x) + length (split_on c s)"
  by (simp add: length_split_on)

text \<open>
  \<open>strings.HasPrefix\<close>, and \<open>s[n:]\<close>, whose bound Go checks: slicing past the end panics.
\<close>

definition has_prefix :: "string \<Rightarrow> string \<Rightarrow> bool" where
  "has_prefix p s = (take (length p) s = p)"

subsection \<open>Decimal integers\<close>

text \<open>
  \<open>fmt.Sprintf("%d", n)\<close> and \<open>strconv.ParseInt(s, 10, 64)\<close> (on a 64-bit target also
  \<open>strconv.Atoi\<close>).  The parser returns the value together with the error, as Go does: zero
  for a syntax error and the nearest 64-bit bound for a range error.
\<close>

definition digit_char :: "nat \<Rightarrow> char" where
  "digit_char d = char_of (48 + d)"

definition char_digit :: "char \<Rightarrow> nat option" where
  "char_digit c =
     (let n = of_char c in if 48 \<le> n \<and> n \<le> (57::nat) then Some (n - 48) else None)"

fun nat_dec :: "nat \<Rightarrow> string" where
  "nat_dec n = (if n < 10 then [digit_char n] else nat_dec (n div 10) @ [digit_char (n mod 10)])"

declare nat_dec.simps [simp del]

definition itoa :: "int \<Rightarrow> string" where
  "itoa n = (if n < 0 then CHR ''-'' # nat_dec (nat (- n)) else nat_dec (nat n))"

fun dec_acc :: "nat \<Rightarrow> string \<Rightarrow> nat option" where
  "dec_acc acc [] = Some acc"
| "dec_acc acc (c # cs) =
     (case char_digit c of None \<Rightarrow> None | Some d \<Rightarrow> dec_acc (10 * acc + d) cs)"

definition dec_nat :: "string \<Rightarrow> nat option" where
  "dec_nat s = (if s = [] then None else dec_acc 0 s)"

datatype num_error = ErrSyntax | ErrRange

definition int64_max :: int where "int64_max = 2 ^ 63 - 1"
definition int64_min :: int where "int64_min = - (2 ^ 63)"

definition clamp_int64 :: "int \<Rightarrow> int \<times> num_error option" where
  "clamp_int64 v =
     (if v > int64_max then (int64_max, Some ErrRange)
      else if v < int64_min then (int64_min, Some ErrRange)
      else (v, None))"

definition parse_int64 :: "string \<Rightarrow> int \<times> num_error option" where
  "parse_int64 s =
     (case s of
        [] \<Rightarrow> (0, Some ErrSyntax)
      | c # cs \<Rightarrow>
          let digits = (if c = CHR ''-'' \<or> c = CHR ''+'' then cs else s)
          in case dec_nat digits of
               None \<Rightarrow> (0, Some ErrSyntax)
             | Some n \<Rightarrow> clamp_int64 (if c = CHR ''-'' then - int n else int n))"

lemma char_digit_digit_char [simp]: "d < 10 \<Longrightarrow> char_digit (digit_char d) = Some d"
  by (simp add: char_digit_def digit_char_def Let_def)

lemma digit_char_not_sign: "d < 10 \<Longrightarrow> digit_char d \<noteq> CHR ''-'' \<and> digit_char d \<noteq> CHR ''+''"
proof -
  assume d: "d < 10"
  have "of_char (digit_char d) = (48 + d :: nat)"
    using d by (simp add: digit_char_def)
  then show ?thesis by auto
qed

lemma dec_acc_append:
  "dec_acc acc (xs @ ys) = (case dec_acc acc xs of None \<Rightarrow> None | Some a \<Rightarrow> dec_acc a ys)"
  by (induction acc xs rule: dec_acc.induct) (auto split: option.splits)

lemma nat_dec_not_Nil [simp]: "nat_dec n \<noteq> []"
  by (subst nat_dec.simps) simp

lemma dec_acc_nat_dec: "dec_acc 0 (nat_dec n) = Some n"
proof (induction n rule: nat_dec.induct)
  case (1 n)
  then show ?case
    by (cases "n < 10") (auto simp: nat_dec.simps [of n] dec_acc_append)
qed

lemma nat_dec_digits: "c \<in> set (nat_dec n) \<Longrightarrow> \<exists>d < 10. c = digit_char d"
proof (induction n rule: nat_dec.induct)
  case (1 n)
  then show ?case
    by (cases "n < 10") (auto simp: nat_dec.simps [of n] intro: exI [of _ "n mod 10"])
qed

lemma nat_dec_head: "nat_dec n = c # cs \<Longrightarrow> c \<noteq> CHR ''-'' \<and> c \<noteq> CHR ''+''"
  using nat_dec_digits [of c n] digit_char_not_sign by auto

text \<open>What the server prints as an event ID is what it reads back from \<open>Last-Event-ID\<close>.\<close>

lemma parse_int64_itoa:
  assumes "int64_min \<le> n" "n \<le> int64_max"
  shows "parse_int64 (itoa n) = (n, None)"
proof (cases "n < 0")
  case True
  with assms show ?thesis
    by (simp add: parse_int64_def itoa_def dec_nat_def dec_acc_nat_dec clamp_int64_def)
next
  case False
  obtain c cs where e: "nat_dec (nat n) = c # cs"
    by (cases "nat_dec (nat n)") auto
  from dec_acc_nat_dec [of "nat n"] have v: "dec_acc 0 (c # cs) = Some (nat n)"
    by (simp only: e)
  from nat_dec_head [OF e] v False assms show ?thesis
    by (simp add: parse_int64_def itoa_def dec_nat_def e clamp_int64_def del: dec_acc.simps)
qed

lemma parse_int64_bounds: "int64_min \<le> fst (parse_int64 s) \<and> fst (parse_int64 s) \<le> int64_max"
  by (auto simp: parse_int64_def clamp_int64_def int64_min_def int64_max_def Let_def
      split: list.splits option.splits)

subsection \<open>Error values\<close>

text \<open>
  A Go \<open>error\<close>: a sentinel compared by identity (\<open>io.EOF\<close>, \<open>stream.ErrEmptyStream\<close>,
  \<open>context.DeadlineExceeded\<close>), a text, an error wrapped with \<open>%w\<close> under a prefix, or
  the result of \<open>errors.Join\<close>.
\<close>

datatype gerror =
    Sentinel string
  | Text string
  | Wrapped string gerror
  | Joined "gerror list"

abbreviation io_EOF :: gerror where "io_EOF \<equiv> Sentinel ''EOF''"

fun err_string :: "gerror \<Rightarrow> string" where
  "err_string (Sentinel s) = s"
| "err_string (Text s) = s"
| "err_string (Wrapped p e) = p @ err_string e"
| "err_string (Joined es) = join_with [CHR 0x0A] (map err_string es)"

fun errors_is :: "gerror \<Rightarrow> gerror \<Rightarrow> bool" where
  "errors_is (Wrapped p e) t = (Wrapped p e = t \<or> errors_is e t)"
| "errors_is (Joined es) t = (Joined es = t \<or> (\<exists>e \<in> set es. errors_is e t))"
| "errors_is e t = (e = t)"

text \<open>\<open>errors.Join(err, e)\<close> with a possibly nil accumulator and a non-nil \<open>e\<close>.\<close>

definition errors_join :: "gerror option \<Rightarrow> gerror \<Rightarrow> gerror" where
  "errors_join acc e = Joined ((case acc of None \<Rightarrow> [] | Some a \<Rightarrow> [a]) @ [e])"

lemma errors_is_join:
  "t = Sentinel s \<Longrightarrow>
   errors_is (errors_join acc e) t =
     ((case acc of None \<Rightarrow> False | Some a \<Rightarrow> errors_is a t) \<or> errors_is e t)"
  by (cases acc) (auto simp: errors_join_def)

subsection \<open>Calls that may panic\<close>

datatype 'a outcome = Returned 'a | Panicked string

text \<open>Interpreting a pair of results: the sum's left side is the error of a Go call.\<close>

definition is_ok :: "'e + 'a \<Rightarrow> bool" where
  "is_ok r = (case r of Inl _ \<Rightarrow> False | Inr _ \<Rightarrow> True)"

lemma is_ok_simps [simp]: "\<not> is_ok (Inl e)" "is_ok (Inr a)"
  by (simp_all add: is_ok_def)

end
