(* ===== verification/Json_Codec.thy ===== *)
theory Json_Codec
  imports Etos_Prelude
begin

text \<open>
  What the sources use of Go's \<open>encoding/json\<close>: document trees, the compact encoder of
  \<open>json.Marshal\<close> (HTML escaping included), a decoder for the whole JSON grammar, and the
  member lookup by which \<open>Unmarshal\<close> fills struct fields.  Byte strings are taken to be
  valid UTF-8; a number keeps its literal.  The decoder works with fuel
  \<open>2 * length s + 2\<close>, shown to be enough, and inverts the encoder.
\<close>

datatype json =
    JNull
  | JBool bool
  | JNum string
  | JStr string
  | JArr "json list"
  | JObj "(string \<times> json) list"

subsection \<open>Characters\<close>

abbreviation "quote_c \<equiv> CHR 0x22"
abbreviation "bslash_c \<equiv> CHR 0x5C"

definition hex_char :: "nat \<Rightarrow> char" where
  "hex_char n = (if n < 10 then char_of (48 + n) else char_of (87 + n))"

definition hex_val :: "char \<Rightarrow> nat option" where
  "hex_val c =
     (let n = of_char c :: nat
      in if 48 \<le> n \<and> n \<le> 57 then Some (n - 48)
         else if 97 \<le> n \<and> n \<le> 102 then Some (n - 87)
         else if 65 \<le> n \<and> n \<le> 70 then Some (n - 55)
         else None)"

definition is_ws :: "char \<Rightarrow> bool" where
  "is_ws c = (c = CHR '' '' \<or> c = CHR 0x09 \<or> c = CHR 0x0A \<or> c = CHR 0x0D)"

definition ws :: "string \<Rightarrow> string" where
  "ws = dropWhile is_ws"

definition is_num_char :: "char \<Rightarrow> bool" where
  "is_num_char c = (char_digit c \<noteq> None \<or> c \<in> set ''+-.eE'')"

subsection \<open>Encoding\<close>

definition esc_char :: "char \<Rightarrow> string" where
  "esc_char c =
     (let n = of_char c :: nat
      in if c = quote_c then [bslash_c, quote_c]
         else if c = bslash_c then [bslash_c, bslash_c]
         else if n = 8 then [bslash_c, CHR ''b'']
         else if n = 12 then [bslash_c, CHR ''f'']
         else if n = 10 then [bslash_c, CHR ''n'']
         else if n = 13 then [bslash_c, CHR ''r'']
         else if n = 9 then [bslash_c, CHR ''t'']
         else if n < 32 \<or> c = CHR ''<'' \<or> c = CHR ''>'' \<or> c = CHR 0x26
           then [bslash_c, CHR ''u'', CHR ''0'', CHR ''0'', hex_char (n div 16), hex_char (n mod 16)]
         else [c])"

text \<open>U+2028 and U+2029 (bytes E2 80 A8 and E2 80 A9) are escaped as well.\<close>

fun json_esc :: "string \<Rightarrow> string" where
  "json_esc [] = []"
| "json_esc (c # cs) =
     (if c = CHR 0xE2 \<and> (take 2 cs = [CHR 0x80, CHR 0xA8] \<or> take 2 cs = [CHR 0x80, CHR 0xA9])
      then bslash_c # ''u202'' @ (if take 2 cs = [CHR 0x80, CHR 0xA8] then ''8'' else ''9'')
             @ json_esc (drop 2 cs)
      else esc_char c @ json_esc cs)"

definition json_string :: "string \<Rightarrow> string" where
  "json_string s = quote_c # json_esc s @ [quote_c]"

fun json_enc :: "json \<Rightarrow> string"
  and json_enc_elems :: "json list \<Rightarrow> string"
  and json_enc_members :: "(string \<times> json) list \<Rightarrow> string" where
  "json_enc JNull = ''null''"
| "json_enc (JBool b) = (if b then ''true'' else ''false'')"
| "json_enc (JNum l) = l"
| "json_enc (JStr s) = json_string s"
| "json_enc (JArr xs) = ''['' @ json_enc_elems xs @ '']''"
| "json_enc (JObj ms) = ''{'' @ json_enc_members ms @ ''}''"
| "json_enc_elems [] = []"
| "json_enc_elems [x] = json_enc x"
| "json_enc_elems (x # y # ys) = json_enc x @ '','' @ json_enc_elems (y # ys)"
| "json_enc_members [] = []"
| "json_enc_members [(k, v)] = json_string k @ '':'' @ json_enc v"
| "json_enc_members ((k, v) # y # ys) =
     json_string k @ '':'' @ json_enc v @ '','' @ json_enc_members (y # ys)"

subsection \<open>Decoding\<close>

definition utf8 :: "nat \<Rightarrow> string" where
  "utf8 u =
     (if u < 0x80 then [char_of u]
      else if u < 0x800 then [char_of (0xC0 + u div 64), char_of (0x80 + u mod 64)]
      else if u < 0x10000
        then [char_of (0xE0 + u div 4096), char_of (0x80 + u div 64 mod 64), char_of (0x80 + u mod 64)]
      else [char_of (0xF0 + u div 262144), char_of (0x80 + u div 4096 mod 64),
            char_of (0x80 + u div 64 mod 64), char_of (0x80 + u mod 64)])"

fun hex4 :: "string \<Rightarrow> (nat \<times> string) option" where
  "hex4 (a # b # c # d # r) =
     (case (hex_val a, hex_val b, hex_val c, hex_val d) of
        (Some w, Some x, Some y, Some z) \<Rightarrow> Some (4096 * w + 256 * x + 16 * y + z, r)
      | _ \<Rightarrow> None)"
| "hex4 _ = None"

text \<open>
  One escape sequence after its backslash: the decoded bytes and the rest.  A surrogate pair is
  one code point, a lone surrogate is U+FFFD.
\<close>

definition unesc_u :: "nat \<Rightarrow> string \<Rightarrow> string \<times> string" where
  "unesc_u u r =
     (if 0xD800 \<le> u \<and> u < 0xDC00 then
        (case r of
           b # e # r' \<Rightarrow>
             (if b = bslash_c \<and> e = CHR ''u'' then
                (case hex4 r' of
                   Some (v, r'') \<Rightarrow>
                     (if 0xDC00 \<le> v \<and> v < 0xE000
                      then (utf8 (0x10000 + (u - 0xD800) * 1024 + (v - 0xDC00)), r'')
                      else (utf8 0xFFFD, r))
                 | None \<Rightarrow> (utf8 0xFFFD, r))
              else (utf8 0xFFFD, r))
         | _ \<Rightarrow> (utf8 0xFFFD, r))
      else if 0xDC00 \<le> u \<and> u < 0xE000 then (utf8 0xFFFD, r)
      else (utf8 u, r))"

definition simple_esc :: "char \<Rightarrow> char option" where
  "simple_esc e =
     (if e = quote_c \<or> e = bslash_c \<or> e = CHR ''/'' then Some e
      else if e = CHR ''b'' then Some (CHR 0x08)
      else if e = CHR ''f'' then Some (CHR 0x0C)
      else if e = CHR ''n'' then Some (CHR 0x0A)
      else if e = CHR ''r'' then Some (CHR 0x0D)
      else if e = CHR ''t'' then Some (CHR 0x09)
      else None)"

definition unesc :: "string \<Rightarrow> (string \<times> string) option" where
  "unesc s =
     (case s of
        [] \<Rightarrow> None
      | e # r \<Rightarrow>
          if e = CHR ''u''
          then (case hex4 r of None \<Rightarrow> None | Some (u, r') \<Rightarrow> Some (unesc_u u r'))
          else (case simple_esc e of None \<Rightarrow> None | Some c \<Rightarrow> Some ([c], r)))"

lemma hex4_length: "hex4 s = Some (u, r) \<Longrightarrow> length r < length s"
  by (induction s rule: hex4.induct) (auto split: option.splits)

lemma unesc_length: "unesc s = Some (x, r) \<Longrightarrow> length r < length s"
  by (auto simp: unesc_def unesc_u_def split: list.splits if_splits option.splits
      dest!: hex4_length)

function json_pstr :: "string \<Rightarrow> (string \<times> string) option" where
  "json_pstr s =
     (case s of
        [] \<Rightarrow> None
      | c # cs \<Rightarrow>
          if c = quote_c then Some ([], cs)
          else if c = bslash_c then
            (case unesc cs of
               None \<Rightarrow> None
             | Some (x, r) \<Rightarrow>
                 (case json_pstr r of None \<Rightarrow> None | Some (y, r') \<Rightarrow> Some (x @ y, r')))
          else if (of_char c :: nat) < 32 then None
          else (case json_pstr cs of None \<Rightarrow> None | Some (y, r') \<Rightarrow> Some (c # y, r')))"
  by pat_completeness auto
termination
  by (relation "measure length") (auto dest: unesc_length)

declare json_pstr.simps [simp del]

text \<open>The number grammar: sign, integer part without leading zeros, fraction, exponent.\<close>

definition all_digits :: "string \<Rightarrow> bool" where
  "all_digits s = (s \<noteq> [] \<and> (\<forall>c \<in> set s. char_digit c \<noteq> None))"

definition valid_exp :: "string \<Rightarrow> bool" where
  "valid_exp s =
     (case s of [] \<Rightarrow> True
      | e # r \<Rightarrow> (e = CHR ''e'' \<or> e = CHR ''E'') \<and>
          (case r of c # r' \<Rightarrow> if c = CHR ''+'' \<or> c = CHR ''-'' then all_digits r' else all_digits r
           | [] \<Rightarrow> False))"

definition not_exp :: "char \<Rightarrow> bool" where "not_exp c = (c \<noteq> CHR ''e'' \<and> c \<noteq> CHR ''E'')"

definition valid_num :: "string \<Rightarrow> bool" where
  "valid_num l =
     (let s = (case l of c # r \<Rightarrow> if c = CHR ''-'' then r else l | [] \<Rightarrow> []);
          mant = takeWhile not_exp s;
          ip = takeWhile (\<lambda>c. c \<noteq> CHR ''.'') mant;
          frac = dropWhile (\<lambda>c. c \<noteq> CHR ''.'') mant
      in all_digits ip \<and> (ip = ''0'' \<or> hd ip \<noteq> CHR ''0'')
         \<and> (frac = [] \<or> all_digits (tl frac)) \<and> valid_exp (dropWhile not_exp s))"

definition json_pnum :: "string \<Rightarrow> (json \<times> string) option" where
  "json_pnum s =
     (let l = takeWhile is_num_char s
      in if valid_num l then Some (JNum l, dropWhile is_num_char s) else None)"

definition json_pword :: "string \<Rightarrow> (json \<times> string) option" where
  "json_pword s =
     (if take 4 s = ''null'' then Some (JNull, drop 4 s)
      else if take 4 s = ''true'' then Some (JBool True, drop 4 s)
      else if take 5 s = ''false'' then Some (JBool False, drop 5 s)
      else None)"

fun json_pval :: "nat \<Rightarrow> string \<Rightarrow> (json \<times> string) option"
  and json_parr :: "nat \<Rightarrow> string \<Rightarrow> (json list \<times> string) option"
  and json_pobj :: "nat \<Rightarrow> string \<Rightarrow> ((string \<times> json) list \<times> string) option" where
  "json_pval 0 s = None"
| "json_pval (Suc n) s =
     (case ws s of
        [] \<Rightarrow> None
      | c # r \<Rightarrow>
          if c = quote_c then map_option (\<lambda>(x, r'). (JStr x, r')) (json_pstr r)
          else if c = CHR ''['' then
            (case ws r of
               [] \<Rightarrow> None
             | d # r' \<Rightarrow>
                 if d = CHR '']'' then Some (JArr [], r')
                 else map_option (\<lambda>(xs, r'). (JArr xs, r')) (json_parr n r))
          else if c = CHR ''{'' then
            (case ws r of
               [] \<Rightarrow> None
             | d # r' \<Rightarrow>
                 if d = CHR ''}'' then Some (JObj [], r')
                 else map_option (\<lambda>(ms, r'). (JObj ms, r')) (json_pobj n r))
          else if is_num_char c then json_pnum (c # r)
          else json_pword (c # r))"
| "json_parr 0 s = None"
| "json_parr (Suc n) s =
     (case json_pval n s of
        None \<Rightarrow> None
      | Some (v, r) \<Rightarrow>
          (case ws r of
             [] \<Rightarrow> None
           | d # r' \<Rightarrow>
               if d = CHR '','' then
                 (case json_parr n r' of None \<Rightarrow> None | Some (vs, r'') \<Rightarrow> Some (v # vs, r''))
               else if d = CHR '']'' then Some ([v], r')
               else None))"
| "json_pobj 0 s = None"
| "json_pobj (Suc n) s =
     (case ws s of
        [] \<Rightarrow> None
      | q # r \<Rightarrow>
          if q \<noteq> quote_c then None
          else (case json_pstr r of
             None \<Rightarrow> None
           | Some (k, r1) \<Rightarrow>
               (case ws r1 of
                  [] \<Rightarrow> None
                | d # r2 \<Rightarrow>
                    if d \<noteq> CHR '':'' then None
                    else (case json_pval n r2 of
                       None \<Rightarrow> None
                     | Some (v, r3) \<Rightarrow>
                         (case ws r3 of
                            [] \<Rightarrow> None
                          | e # r4 \<Rightarrow>
                              if e = CHR '','' then
                                (case json_pobj n r4 of
                                   None \<Rightarrow> None
                                 | Some (ms, r5) \<Rightarrow> Some ((k, v) # ms, r5))
                              else if e = CHR ''}'' then Some ([(k, v)], r4)
                              else None)))))"

text \<open>
  \<open>json.Unmarshal\<close> wants exactly one value; \<open>Decoder.Decode\<close> reads the first value of a
  stream and reports \<open>io.EOF\<close> where there is none.
\<close>

definition json_fuel :: "string \<Rightarrow> nat" where
  "json_fuel s = 2 * length s + 2"

definition json_unmarshal :: "string \<Rightarrow> gerror + json" where
  "json_unmarshal s =
     (case json_pval (json_fuel s) s of
        None \<Rightarrow> Inl (Text ''invalid JSON'')
      | Some (j, r) \<Rightarrow> if ws r = [] then Inr j else Inl (Text ''invalid JSON''))"

definition json_decode :: "string \<Rightarrow> gerror + json" where
  "json_decode s =
     (if ws s = [] then Inl io_EOF
      else (case json_pval (json_fuel s) s of
        None \<Rightarrow> Inl (Text ''invalid JSON'')
      | Some (j, _) \<Rightarrow> Inr j))"


subsection \<open>Strings and numbers decode to what was encoded\<close>

lemma hex_val_hex_char [simp]: "n < 16 \<Longrightarrow> hex_val (hex_char n) = Some n"
  by (auto simp: hex_val_def hex_char_def Let_def)

lemma of_char_eqD: "(of_char c :: nat) = n \<Longrightarrow> c = char_of n"
  by auto

lemma esc_char_cases:
  obtains (simple) e where "esc_char c = [bslash_c, e]" "simple_esc e = Some c" "e \<noteq> CHR ''u''"
  | (hex) n where "esc_char c = [bslash_c, CHR ''u'', CHR ''0'', CHR ''0'', hex_char (n div 16), hex_char (n mod 16)]"
      "n = of_char c" "n < (128::nat)"
  | (plain) "esc_char c = [c]" "c \<noteq> quote_c" "c \<noteq> bslash_c" "32 \<le> (of_char c :: nat)"
proof -
  let ?n = "of_char c :: nat"
  have ctl: "?n = 8 \<Longrightarrow> c = CHR 0x08" "?n = 12 \<Longrightarrow> c = CHR 0x0C" "?n = 10 \<Longrightarrow> c = CHR 0x0A"
    "?n = 13 \<Longrightarrow> c = CHR 0x0D" "?n = 9 \<Longrightarrow> c = CHR 0x09"
    by (drule of_char_eqD, simp add: char_of_def bit_iff_odd)+
  consider "c = quote_c \<or> c = bslash_c \<or> ?n \<in> {8, 12, 10, 13, 9}"
    | "c \<noteq> quote_c" "c \<noteq> bslash_c" "?n \<notin> {8, 12, 10, 13, 9}"
      "?n < 32 \<or> c = CHR ''<'' \<or> c = CHR ''>'' \<or> c = CHR 0x26"
    | "c \<noteq> quote_c" "c \<noteq> bslash_c" "?n \<notin> {8, 12, 10, 13, 9}"
      "\<not> (?n < 32 \<or> c = CHR ''<'' \<or> c = CHR ''>'' \<or> c = CHR 0x26)"
    by blast
  then show thesis
  proof cases
    case 1
    then show thesis
      by (intro simple [of "last (esc_char c)"]) (auto simp: esc_char_def simple_esc_def dest: ctl)
  next
    case 2
    then have "esc_char c = [bslash_c, CHR ''u'', CHR ''0'', CHR ''0'', hex_char (?n div 16), hex_char (?n mod 16)]"
      by (simp add: esc_char_def Let_def)
    moreover have "?n < 128" using 2 by auto
    ultimately show thesis by (intro hex) auto
  next
    case 3
    then show thesis by (intro plain) (auto simp: esc_char_def Let_def)
  qed
qed

lemma json_pstr_simps [simp]:
  "json_pstr (quote_c # r) = Some ([], r)"
  "json_pstr (bslash_c # r) =
     (case unesc r of None \<Rightarrow> None
      | Some (x, r') \<Rightarrow> (case json_pstr r' of None \<Rightarrow> None | Some (y, r'') \<Rightarrow> Some (x @ y, r'')))"
  by (simp_all add: json_pstr.simps split: option.splits)

lemma json_pstr_plain:
  "c \<noteq> quote_c \<Longrightarrow> c \<noteq> bslash_c \<Longrightarrow> 32 \<le> (of_char c :: nat) \<Longrightarrow>
   json_pstr (c # r) = map_option (\<lambda>(y, r'). (c # y, r')) (json_pstr r)"
  by (simp add: json_pstr.simps [of "c # r"] split: option.splits)

lemma unesc_simple:
  "simple_esc e = Some c \<Longrightarrow> e \<noteq> CHR ''u'' \<Longrightarrow> unesc (e # r) = Some ([c], r)"
  by (simp add: unesc_def)

lemma unesc_hex:
  assumes "n < 128"
  shows "unesc (CHR ''u'' # CHR ''0'' # CHR ''0'' # hex_char (n div 16) # hex_char (n mod 16) # r)
       = Some ([char_of n], r)"
proof -
  have "n div 16 < 16" using assms by auto
  then show ?thesis using assms
    by (simp add: unesc_def unesc_u_def utf8_def hex_val_def [of "CHR ''0''"])
qed

lemma json_pstr_esc_char:
  "json_pstr (esc_char c @ r) = map_option (\<lambda>(y, r'). (c # y, r')) (json_pstr r)"
  by (cases c rule: esc_char_cases)
     (auto simp: unesc_simple unesc_hex json_pstr_plain split: option.splits)

lemma unesc_line_sep:
  "unesc (CHR ''u'' # CHR ''2'' # CHR ''0'' # CHR ''2'' # CHR ''8'' # r) = Some ([CHR 0xE2, CHR 0x80, CHR 0xA8], r)"
  "unesc (CHR ''u'' # CHR ''2'' # CHR ''0'' # CHR ''2'' # CHR ''9'' # r) = Some ([CHR 0xE2, CHR 0x80, CHR 0xA9], r)"
  by (simp_all add: unesc_def unesc_u_def utf8_def hex_val_def char_of_def bit_iff_odd)

lemma take2_drop2: "take 2 cs = [a, b] \<Longrightarrow> cs = a # b # drop 2 cs"
  by (cases cs; cases "tl cs") auto

lemma json_pstr_esc: "json_pstr (json_esc s @ quote_c # rest) = Some (s, rest)"
proof (induction s rule: json_esc.induct)
  case (2 c cs)
  show ?case
  proof (cases "c = CHR 0xE2 \<and> (take 2 cs = [CHR 0x80, CHR 0xA8] \<or> take 2 cs = [CHR 0x80, CHR 0xA9])")
    case True
    then have "json_pstr (json_esc (drop 2 cs) @ quote_c # rest) = Some (drop 2 cs, rest)"
      using "2.IH" by blast
    with True show ?thesis
      by (elim conjE disjE) (simp_all add: unesc_line_sep take2_drop2 [symmetric])
  next
    case False
    then have "json_pstr (json_esc cs @ quote_c # rest) = Some (cs, rest)"
      using "2.IH" by blast
    with False show ?thesis
      by (auto simp: json_pstr_esc_char)
  qed
qed simp


subsection \<open>The decoder inverts the encoder\<close>

fun json_wf :: "json \<Rightarrow> bool" where
  "json_wf (JNum l) = valid_num l"
| "json_wf (JArr xs) = (\<forall>x \<in> set xs. json_wf x)"
| "json_wf (JObj ms) = (\<forall>m \<in> set ms. json_wf (snd m))"
| "json_wf _ = True"

definition num_stop :: "string \<Rightarrow> bool" where
  "num_stop r = (case r of [] \<Rightarrow> True | c # _ \<Rightarrow> \<not> is_num_char c)"

lemma num_stop_simps [simp]: "num_stop []" "num_stop (c # r) = (\<not> is_num_char c)"
  by (simp_all add: num_stop_def)

lemma all_digits_num_char: "all_digits s \<Longrightarrow> c \<in> set s \<Longrightarrow> is_num_char c"
  by (auto simp: all_digits_def is_num_char_def)

lemma valid_exp_num_char: "valid_exp s \<Longrightarrow> c \<in> set s \<Longrightarrow> is_num_char c"
  by (auto simp: valid_exp_def is_num_char_def all_digits_def split: list.splits if_splits)

lemma valid_num_num_char:
  assumes v: "valid_num l" and c: "c \<in> set l"
  shows "is_num_char c"
proof -
  define s where "s = (case l of c # r \<Rightarrow> if c = CHR ''-'' then r else l | [] \<Rightarrow> [])"
  define mant where "mant = takeWhile not_exp s"
  define frac where "frac = dropWhile (\<lambda>c. c \<noteq> CHR ''.'') mant"
  have all: "all_digits (takeWhile (\<lambda>c. c \<noteq> CHR ''.'') mant) \<and>
      (takeWhile (\<lambda>c. c \<noteq> CHR ''.'') mant = ''0'' \<or> hd (takeWhile (\<lambda>c. c \<noteq> CHR ''.'') mant) \<noteq> CHR ''0'')
      \<and> (frac = [] \<or> all_digits (tl frac)) \<and> valid_exp (dropWhile not_exp s)"
    using v unfolding valid_num_def Let_def s_def mant_def frac_def .
  note parts = all [THEN conjunct1] all [THEN conjunct2, THEN conjunct2, THEN conjunct1]
    all [THEN conjunct2, THEN conjunct2, THEN conjunct2]
  have "c = CHR ''-'' \<or> c \<in> set s"
    using c by (cases l) (simp_all add: s_def, blast)
  moreover have "set s = set mant \<union> set (dropWhile not_exp s)"
    unfolding mant_def by (metis set_append takeWhile_dropWhile_id)
  moreover have "set mant = set (takeWhile (\<lambda>c. c \<noteq> CHR ''.'') mant) \<union> set frac"
    unfolding frac_def by (metis set_append takeWhile_dropWhile_id)
  moreover have "d \<in> set frac \<Longrightarrow> d = CHR ''.'' \<or> d \<in> set (tl frac)" for d
    using hd_dropWhile [of "\<lambda>c. c \<noteq> CHR ''.''" mant] unfolding frac_def [symmetric]
    by (cases frac) auto
  moreover have "is_num_char (CHR ''-'')" "is_num_char (CHR ''.'')"
    by (simp_all add: is_num_char_def)
  moreover have "frac = [] \<Longrightarrow> c \<notin> set frac" by simp
  ultimately show ?thesis
    using parts all_digits_num_char valid_exp_num_char by blast
qed

lemma valid_num_not_Nil: "valid_num l \<Longrightarrow> l \<noteq> []"
  by (auto simp: valid_num_def all_digits_def)

lemma json_pnum_app:
  assumes "valid_num l" "num_stop r"
  shows "json_pnum (l @ r) = Some (JNum l, r)"
proof -
  have "takeWhile is_num_char (l @ r) = l"
    using assms valid_num_num_char [OF assms(1)]
    by (cases r) (auto simp: takeWhile_append2)
  moreover have "dropWhile is_num_char (l @ r) = r"
    using assms valid_num_num_char [OF assms(1)]
    by (cases r) (auto simp: dropWhile_append2)
  ultimately show ?thesis using assms by (simp add: json_pnum_def)
qed

lemma num_char_facts:
  "is_num_char c \<Longrightarrow> \<not> is_ws c \<and> c \<noteq> quote_c \<and> c \<notin> set ''[]{},:''"
  by (auto simp: is_num_char_def is_ws_def char_digit_def Let_def split: if_splits)

lemma word_not_num [simp]:
  "\<not> is_num_char (CHR ''n'')" "\<not> is_num_char (CHR ''t'')" "\<not> is_num_char (CHR ''f'')"
  "\<not> is_num_char quote_c" "\<not> is_num_char (CHR ''['')" "\<not> is_num_char (CHR ''{'')"
  "\<not> is_num_char (CHR '','')" "\<not> is_num_char (CHR '']'')" "\<not> is_num_char (CHR ''}'')"
  by (simp_all add: is_num_char_def char_digit_def)

lemma ws_nonws [simp]: "\<not> is_ws c \<Longrightarrow> ws (c # r) = c # r"
  by (simp add: ws_def)

lemma not_ws [simp]:
  "\<not> is_ws quote_c" "\<not> is_ws (CHR ''['')" "\<not> is_ws (CHR ''{'')" "\<not> is_ws (CHR '','')"
  "\<not> is_ws (CHR '']'')" "\<not> is_ws (CHR ''}'')" "\<not> is_ws (CHR '':'')"
  "\<not> is_ws (CHR ''n'')" "\<not> is_ws (CHR ''t'')" "\<not> is_ws (CHR ''f'')"
  by (simp_all add: is_ws_def)

lemma json_enc_head:
  assumes "json_wf j"
  obtains c r where "json_enc j = c # r" "\<not> is_ws c" "c \<noteq> CHR '']''" "c \<noteq> CHR ''}''"
proof (cases j)
  case (JNum l)
  with assms obtain c r where "l = c # r" "is_num_char c"
    using valid_num_not_Nil valid_num_num_char by (cases l) auto
  with JNum that num_char_facts show ?thesis by auto
next
  case (JBool b)
  with that show ?thesis by (cases b) auto
qed (use that in \<open>auto simp: json_string_def split: if_splits\<close>)

fun json_cost :: "json \<Rightarrow> nat"
  and elems_cost :: "json list \<Rightarrow> nat"
  and members_cost :: "(string \<times> json) list \<Rightarrow> nat" where
  "json_cost (JArr xs) = Suc (elems_cost xs)"
| "json_cost (JObj ms) = Suc (members_cost ms)"
| "json_cost _ = 1"
| "elems_cost [] = 0"
| "elems_cost (x # xs) = Suc (json_cost x + elems_cost xs)"
| "members_cost [] = 0"
| "members_cost ((k, v) # ms) = Suc (json_cost v + members_cost ms)"

lemma json_pval_enc:
  "json_wf j \<Longrightarrow> json_cost j \<le> n \<Longrightarrow> num_stop r \<Longrightarrow> json_pval n (json_enc j @ r) = Some (j, r)"
  and "\<forall>x \<in> set xs. json_wf x \<Longrightarrow> xs \<noteq> [] \<Longrightarrow> elems_cost xs \<le> n \<Longrightarrow>
       json_parr n (json_enc_elems xs @ CHR '']'' # r) = Some (xs, r)"
  and "\<forall>m \<in> set ms. json_wf (snd m) \<Longrightarrow> ms \<noteq> [] \<Longrightarrow> members_cost ms \<le> n \<Longrightarrow>
       json_pobj n (json_enc_members ms @ CHR ''}'' # r) = Some (ms, r)"
proof (induction j and xs and ms arbitrary: n r and n r and n r
    rule: json_enc_json_enc_elems_json_enc_members.induct)
  case 1
  then show ?case by (cases n) (auto simp: json_pword_def)
next
  case (2 b)
  then show ?case by (cases n) (auto simp: json_pword_def)
next
  case (3 l)
  then obtain c l' m where l: "l = c # l'" "is_num_char c" "n = Suc m"
    using valid_num_not_Nil valid_num_num_char by (cases l; cases n) auto
  with 3 json_pnum_app [of l r] num_char_facts [of c] show ?case by auto
next
  case (4 s)
  then show ?case by (cases n) (auto simp: json_string_def json_pstr_esc)
next
  case (5 xs)
  then obtain m where n: "n = Suc m" by (cases n) auto
  show ?case
  proof (cases xs)
    case Nil
    then show ?thesis by (simp add: n)
  next
    case (Cons x ys)
    have "json_wf x" using 5 Cons by simp
    then obtain c t where h: "json_enc x = c # t" "\<not> is_ws c" "c \<noteq> CHR '']''"
      by (rule json_enc_head)
    then have "\<exists>t'. json_enc_elems xs = c # t'"
      by (cases ys) (auto simp: Cons)
    with h 5 n Cons show ?thesis by auto
  qed
next
  case (6 ms)
  then obtain m where n: "n = Suc m" by (cases n) auto
  show ?case
  proof (cases ms)
    case Nil
    then show ?thesis by (simp add: n)
  next
    case (Cons x ys)
    have "\<exists>t'. json_enc_members ms = quote_c # t'"
      by (cases x; cases ys) (auto simp: Cons json_string_def)
    with 6 n Cons show ?thesis by auto
  qed
next
  case 7
  then show ?case by simp
next
  case (8 x)
  then show ?case by (cases n) auto
next
  case (9 x y ys)
  then show ?case by (cases n) auto
next
  case 10
  then show ?case by simp
next
  case (11 k v)
  then show ?case by (cases n) (auto simp: json_string_def json_pstr_esc)
next
  case (12 k v y ys)
  then show ?case by (cases n) (auto simp: json_string_def json_pstr_esc)
qed

lemma json_cost_le:
  "json_wf j \<Longrightarrow> json_cost j \<le> 2 * length (json_enc j)"
  and "\<forall>x \<in> set xs. json_wf x \<Longrightarrow> elems_cost xs \<le> 2 * length (json_enc_elems xs) + 1"
  and "\<forall>m \<in> set ms. json_wf (snd m) \<Longrightarrow> members_cost ms \<le> 2 * length (json_enc_members ms) + 1"
proof (induction j and xs and ms rule: json_enc_json_enc_elems_json_enc_members.induct)
  case (3 l)
  then show ?case using valid_num_not_Nil [of l] by (cases l) auto
qed (auto simp: json_string_def)

lemma json_unmarshal_enc: "json_wf j \<Longrightarrow> json_unmarshal (json_enc j) = Inr j"
proof -
  assume j: "json_wf j"
  have "json_pval (json_fuel (json_enc j)) (json_enc j @ []) = Some (j, [])"
    using j json_cost_le(1) [OF j] by (intro json_pval_enc(1)) (auto simp: json_fuel_def)
  then show ?thesis by (simp add: json_unmarshal_def ws_def)
qed

lemma json_decode_enc:
  assumes "json_wf j" "num_stop r"
  shows "json_decode (json_enc j @ r) = Inr j"
proof -
  have "json_pval (json_fuel (json_enc j @ r)) (json_enc j @ r) = Some (j, r)"
    using assms json_cost_le(1) [OF assms(1)] by (intro json_pval_enc(1)) (auto simp: json_fuel_def)
  moreover have "ws (json_enc j @ r) \<noteq> []"
    using assms(1) by (auto elim!: json_enc_head)
  ultimately show ?thesis by (simp add: json_decode_def)
qed


subsection \<open>The fuel is enough\<close>

text \<open>A value read consumes input, and fuel beyond the bound changes nothing.\<close>

lemma ws_length: "length (ws s) \<le> length s"
  by (simp add: ws_def length_dropWhile_le)

lemma ws_Cons_length: "ws s = c # r \<Longrightarrow> length r < length s"
  using ws_length [of s] by simp

lemma json_pstr_length: "json_pstr s = Some (x, r) \<Longrightarrow> length r < length s"
proof (induction s arbitrary: x r rule: json_pstr.induct)
  case (1 s)
  show ?case
  proof (cases s)
    case (Cons c cs)
    have esc: "length r < length cs"
      if "c \<noteq> quote_c" "c = bslash_c" "unesc cs = Some (x', t)" "json_pstr t = Some (y, r)" for x' t y
      using "1.IH"(1) [OF Cons that(1-3) refl that(4)] unesc_length [OF that(3)] by simp
    have plain: "length r < length cs"
      if "c \<noteq> quote_c" "c \<noteq> bslash_c" "\<not> (of_char c :: nat) < 32" "json_pstr cs = Some (y, r)" for y
      using "1.IH"(2) [OF Cons that(1-3) that(4)] .
    consider "c = quote_c" | "c \<noteq> quote_c" "c = bslash_c" | "c \<noteq> quote_c" "c \<noteq> bslash_c"
      by blast
    then show ?thesis
    proof cases
      case 2
      with "1.prems" obtain x' t y where "unesc cs = Some (x', t)" "json_pstr t = Some (y, r)"
        by (auto simp: Cons split: option.splits)
      with 2 esc show ?thesis by (simp add: Cons less_SucI)
    next
      case 3
      with "1.prems" plain show ?thesis
        by (auto simp: Cons json_pstr.simps [of "c # cs"] split: if_splits option.splits)
    qed (use "1.prems" in \<open>auto simp: Cons\<close>)
  qed (use "1.prems" in \<open>simp add: json_pstr.simps\<close>)
qed

lemma json_pnum_length: "json_pnum s = Some (v, r) \<Longrightarrow> length r < length s"
proof -
  assume a: "json_pnum s = Some (v, r)"
  then have "takeWhile is_num_char s \<noteq> []" "r = dropWhile is_num_char s"
    using valid_num_not_Nil by (auto simp: json_pnum_def Let_def split: if_splits)
  then show ?thesis
    by (metis append_Nil length_append length_greater_0_conv less_add_same_cancel2
        takeWhile_dropWhile_id)
qed

lemma json_pword_length: "json_pword s = Some (v, r) \<Longrightarrow> length r < length s"
  by (cases s) (auto simp: json_pword_def split: if_splits)

lemmas json_length_dests = ws_Cons_length json_pstr_length json_pnum_length json_pword_length

lemma json_consumes:
  "(json_pval n s = Some (v, r) \<longrightarrow> length r < length s)
   \<and> (json_parr n s = Some (vs, r) \<longrightarrow> length r < length s)
   \<and> (json_pobj n s = Some (ms, r) \<longrightarrow> length r < length s)"
proof (induction n arbitrary: s v vs ms r)
  case (Suc n)
  have v: "json_pval n s = Some (v, r) \<Longrightarrow> length r < length s"
    and a: "json_parr n s = Some (vs, r) \<Longrightarrow> length r < length s"
    and m: "json_pobj n s = Some (ms, r) \<Longrightarrow> length r < length s" for s v vs ms r
    using Suc.IH by blast+
  have "length r < length s" if "json_pval (Suc n) s = Some (v, r)"
    using that
    by (auto split: list.splits if_splits dest!: json_length_dests a m)
  moreover have "length r < length s" if "json_parr (Suc n) s = Some (vs, r)"
    using that
    by (auto split: option.splits list.splits if_splits dest!: ws_Cons_length v a)
  moreover have "length r < length s" if "json_pobj (Suc n) s = Some (ms, r)"
    using that
    by (auto split: option.splits list.splits if_splits dest!: ws_Cons_length json_pstr_length v m)
  ultimately show ?case by blast
qed simp

lemma json_fuel_step:
  "(2 * length s + 2 \<le> n \<longrightarrow> json_pval (Suc n) s = json_pval n s)
   \<and> (2 * length s + 3 \<le> n \<longrightarrow> json_parr (Suc n) s = json_parr n s)
   \<and> (2 * length s + 3 \<le> n \<longrightarrow> json_pobj (Suc n) s = json_pobj n s)"
proof (induction n arbitrary: s)
  case (Suc n)
  have v: "2 * length t + 2 \<le> n \<Longrightarrow> json_pval (Suc n) t = json_pval n t"
    and a: "2 * length t + 3 \<le> n \<Longrightarrow> json_parr (Suc n) t = json_parr n t"
    and m: "2 * length t + 3 \<le> n \<Longrightarrow> json_pobj (Suc n) t = json_pobj n t" for t
    using Suc.IH by blast+
  have "json_pval (Suc (Suc n)) s = json_pval (Suc n) s" if "2 * length s + 2 \<le> Suc n"
  proof (cases "ws s")
    case (Cons c r)
    with that ws_Cons_length [OF Cons] a [of r] m [of r] show ?thesis
      by (cases "ws r") (simp_all add: json_pval.simps(2) [of "Suc n"] json_pval.simps(2) [of n] del: json_pval.simps)
  qed simp
  moreover have "json_parr (Suc (Suc n)) s = json_parr (Suc n) s" if "2 * length s + 3 \<le> Suc n"
  proof (cases "json_pval n s")
    case None
    with that v [of s] show ?thesis by simp
  next
    case (Some p)
    obtain x r where p: "p = (x, r)" by force
    with Some have r: "length r < length s" using json_consumes by blast
    have "json_parr (Suc n) t = json_parr n t" if "ws r = c # t" for c t
      using a [of t] ws_Cons_length [OF that] r \<open>2 * length s + 3 \<le> Suc n\<close> by simp
    with that v [of s] Some p show ?thesis
      by (auto split: list.splits simp del: json_pval.simps json_parr.simps
          simp add: json_parr.simps(2) [of "Suc n"] json_parr.simps(2) [of n])
  qed
  moreover have "json_pobj (Suc (Suc n)) s = json_pobj (Suc n) s" if b: "2 * length s + 3 \<le> Suc n"
  proof -
    have "json_pval (Suc n) r2 = json_pval n r2"
      if "ws s = q # r" "json_pstr r = Some (k, r1)" "ws r1 = d # r2" for q r k r1 d r2
      using v [of r2] b ws_Cons_length [OF that(1)]
        json_pstr_length [OF that(2)] ws_Cons_length [OF that(3)] by simp
    moreover have "json_pobj (Suc n) r4 = json_pobj n r4"
      if "ws s = q # r" "json_pstr r = Some (k, r1)" "ws r1 = d # r2"
        "json_pval n r2 = Some (x, r3)" "ws r3 = e # r4" for q r k r1 d r2 x r3 e r4
    proof -
      have "length r3 < length r2" using that(4) json_consumes by blast
      then show ?thesis
        using m [of r4] b ws_Cons_length [OF that(1)] json_pstr_length [OF that(2)]
          ws_Cons_length [OF that(3)] ws_Cons_length [OF that(5)] by simp
    qed
    ultimately show ?thesis
      by (auto split: list.splits option.splits simp del: json_pval.simps json_pobj.simps
          simp add: json_pobj.simps(2) [of "Suc n"] json_pobj.simps(2) [of n])
  qed
  ultimately show ?case by blast
qed simp

lemma json_fuel_enough: "json_fuel s \<le> n \<Longrightarrow> json_pval n s = json_pval (json_fuel s) s"
proof (induction n)
  case (Suc n)
  then show ?case
    using json_fuel_step [of s n] by (cases "json_fuel s = Suc n") (auto simp: json_fuel_def)
qed (simp add: json_fuel_def)

end
