(* ===== verification/Go_Map.thy ===== *)
theory Go_Map
  imports Etos_Prelude Json_Codec "HOL-Library.List_Lexorder"
begin

text \<open>
  Go's \<open>map[string]T\<close> as its canonical association list, sorted by key: the order in
  which \<open>encoding/json\<close> writes it.  A nil map is \<open>None\<close>; writing to it panics, reading it
  finds nothing.  The theory also holds the member-by-member filling of a struct by
  \<open>json.Unmarshal\<close>, which follows the document's order and matches keys up to case.
\<close>

subsection \<open>Sorted association lists\<close>

type_synonym 'v gmap = "(string \<times> 'v) list"

fun gm_put :: "string \<Rightarrow> 'v \<Rightarrow> 'v gmap \<Rightarrow> 'v gmap" where
  "gm_put k v [] = [(k, v)]"
| "gm_put k v ((k', v') # m) =
     (if k < k' then (k, v) # (k', v') # m
      else if k = k' then (k, v) # m
      else (k', v') # gm_put k v m)"

definition gm_get :: "'v gmap \<Rightarrow> string \<Rightarrow> 'v option" where
  "gm_get m k = map_of m k"

definition gm_ok :: "'v gmap \<Rightarrow> bool" where
  "gm_ok m = sorted_wrt (<) (map fst m)"

lemma gm_put_keys: "fst ` set (gm_put k v m) = insert k (fst ` set m)"
  by (induction k v m rule: gm_put.induct) (simp_all add: insert_commute)

lemma gm_ok_Nil [simp]: "gm_ok []"
  by (simp add: gm_ok_def)

lemma gm_ok_Cons: "gm_ok ((k, v) # m) = ((\<forall>x \<in> fst ` set m. k < x) \<and> gm_ok m)"
  by (auto simp: gm_ok_def)

lemma gm_ok_put [intro, etos_inv]: "gm_ok m \<Longrightarrow> gm_ok (gm_put k v m)"
proof (induction k v m rule: gm_put.induct)
  case (2 k v k' v' m)
  then show ?case
    by (simp add: gm_ok_Cons gm_put_keys) (metis less_trans not_less_iff_gr_or_eq)
qed (simp add: gm_ok_Cons)

lemma gm_get_put: "gm_ok m \<Longrightarrow> gm_get (gm_put k v m) k' = (if k' = k then Some v else gm_get m k')"
proof (induction m)
  case (Cons p m)
  then show ?case
    by (cases p) (auto simp: gm_get_def gm_ok_def)
qed (auto simp: gm_get_def)

subsection \<open>Possibly nil maps\<close>

definition map_set :: "'v gmap option \<Rightarrow> string \<Rightarrow> 'v \<Rightarrow> 'v gmap option outcome" where
  "map_set m k v =
     (case m of
        None \<Rightarrow> Panicked ''assignment to entry in nil map''
      | Some g \<Rightarrow> Returned (Some (gm_put k v g)))"

definition map_get :: "string gmap option \<Rightarrow> string \<Rightarrow> string" where
  "map_get m k = (case m of None \<Rightarrow> [] | Some g \<Rightarrow> (case gm_get g k of None \<Rightarrow> [] | Some v \<Rightarrow> v))"

subsection \<open>Filling a struct from a document\<close>

definition ascii_lower :: "char \<Rightarrow> char" where
  "ascii_lower c =
     (let n = of_char c :: nat in if 65 \<le> n \<and> n \<le> 90 then char_of (n + 32) else c)"

definition fold_name :: "string \<Rightarrow> string" where
  "fold_name s = map ascii_lower s"

fun fill_members :: "(string \<Rightarrow> json \<Rightarrow> 's \<Rightarrow> gerror + 's) \<Rightarrow> (string \<times> json) list \<Rightarrow> 's \<Rightarrow> gerror + 's" where
  "fill_members assign [] s = Inr s"
| "fill_members assign ((k, v) # ms) s =
     (case assign k v s of Inl e \<Rightarrow> Inl e | Inr s' \<Rightarrow> fill_members assign ms s')"

text \<open>A struct target: an object fills it, \<open>null\<close> leaves it as it is, the rest is a type error.\<close>

definition fill_struct :: "(string \<Rightarrow> json \<Rightarrow> 's \<Rightarrow> gerror + 's) \<Rightarrow> json \<Rightarrow> 's \<Rightarrow> gerror + 's" where
  "fill_struct assign j s =
     (case j of
        JObj ms \<Rightarrow> fill_members assign ms s
      | JNull \<Rightarrow> Inr s
      | _ \<Rightarrow> Inl (Text ''json: cannot unmarshal into Go struct''))"

text \<open>What every member keeps, a struct that is filled from members has.\<close>

lemma fill_members_inv:
  assumes "\<And>k v s s'. assign k v s = Inr s' \<Longrightarrow> P s \<Longrightarrow> P s'"
  shows "fill_members assign ms s = Inr s' \<Longrightarrow> P s \<Longrightarrow> P s'"
proof (induction ms arbitrary: s)
  case (Cons m ms)
  obtain k v s1 where m: "m = (k, v)" "assign k v s = Inr s1" "fill_members assign ms s1 = Inr s'"
    using Cons.prems(1) by (cases m) (auto split: sum.splits)
  show ?case using Cons.IH [OF m(3) assms [OF m(2) Cons.prems(2)]] .
qed simp

definition dec_string :: "json \<Rightarrow> string \<Rightarrow> gerror + string" where
  "dec_string j old =
     (case j of JStr s \<Rightarrow> Inr s | JNull \<Rightarrow> Inr old
      | _ \<Rightarrow> Inl (Text ''json: cannot unmarshal into Go value of type string''))"

definition dec_bool :: "json \<Rightarrow> bool \<Rightarrow> gerror + bool" where
  "dec_bool j old =
     (case j of JBool b \<Rightarrow> Inr b | JNull \<Rightarrow> Inr old
      | _ \<Rightarrow> Inl (Text ''json: cannot unmarshal into Go value of type bool''))"

definition dec_int :: "json \<Rightarrow> int \<Rightarrow> gerror + int" where
  "dec_int j old =
     (case j of
        JNum l \<Rightarrow>
          (case parse_int64 l of
             (n, None) \<Rightarrow> Inr n
           | (_, Some _) \<Rightarrow> Inl (Text ''json: cannot unmarshal number into Go value of type int''))
      | JNull \<Rightarrow> Inr old
      | _ \<Rightarrow> Inl (Text ''json: cannot unmarshal into Go value of type int''))"

text \<open>
  A \<open>map[string]string\<close> target keeps the entries it has and stores the document's;
  \<open>null\<close> makes it nil.  An element that is \<open>null\<close> is stored as the empty string.
\<close>

fun fill_string_map :: "(string \<times> json) list \<Rightarrow> string gmap \<Rightarrow> gerror + string gmap" where
  "fill_string_map [] m = Inr m"
| "fill_string_map ((k, v) # ms) m =
     (case dec_string v [] of Inl e \<Rightarrow> Inl e | Inr s \<Rightarrow> fill_string_map ms (gm_put k s m))"

definition dec_string_map :: "json \<Rightarrow> string gmap option \<Rightarrow> gerror + string gmap option" where
  "dec_string_map j old =
     (case j of
        JNull \<Rightarrow> Inr None
      | JObj ms \<Rightarrow>
          (case fill_string_map ms (case old of None \<Rightarrow> [] | Some m \<Rightarrow> m) of
             Inl e \<Rightarrow> Inl e
           | Inr m \<Rightarrow> Inr (Some m))
      | _ \<Rightarrow> Inl (Text ''json: cannot unmarshal into Go value of type map[string]string''))"

definition enc_string_map :: "string gmap option \<Rightarrow> json" where
  "enc_string_map m =
     (case m of None \<Rightarrow> JNull | Some g \<Rightarrow> JObj (map (\<lambda>(k, v). (k, JStr v)) g))"

lemma gm_put_last:
  "\<forall>x \<in> fst ` set m. x < k \<Longrightarrow> gm_put k v m = m @ [(k, v)]"
  by (induction m) auto

lemma fill_string_map_enc:
  "gm_ok (acc @ g) \<Longrightarrow> fill_string_map (map (\<lambda>(k, v). (k, JStr v)) g) acc = Inr (acc @ g)"
proof (induction g arbitrary: acc)
  case (Cons p g)
  obtain k v where p: "p = (k, v)" by force
  from Cons.prems have "\<forall>x \<in> fst ` set acc. x < k"
    by (auto simp: p gm_ok_def sorted_wrt_append)
  then have "gm_put k v acc = acc @ [(k, v)]" by (rule gm_put_last)
  with Cons.prems Cons.IH [of "acc @ [(k, v)]"] show ?case
    by (simp add: p dec_string_def)
qed simp

lemma dec_enc_string_map:
  "(case m of None \<Rightarrow> True | Some g \<Rightarrow> gm_ok g) \<Longrightarrow> dec_string_map (enc_string_map m) None = Inr m"
  using fill_string_map_enc [of "[]"]
  by (auto simp: dec_string_map_def enc_string_map_def split: option.splits)

end
