(* ===== verification/Sse_Events.thy ===== *)
theory Sse_Events
  imports Go_Map
begin

text \<open>
  \<open>pkg/events/events.go\<close>: the event type, its construction from a JSON document and its
  rendering on the wire, against an abstract decoder that follows the event-stream format a
  client implements.  JSON numbers inside \<open>data\<close> pass through a Go \<open>float64\<close>; its
  parsing and shortest formatting are the parameter \<open>flt\<close>, which returns \<open>None\<close> out
  of range.
\<close>

subsection \<open>The event and its two operations\<close>

record event =
  ev_id :: int
  ev_event :: string
  ev_data :: string
  ev_json :: json

definition empty_event :: event where
  "empty_event = \<lparr>ev_id = 0, ev_event = [], ev_data = [], ev_json = JNull\<rparr>"

text \<open>An \<open>interface{}\<close> target: objects become maps, so keys are sorted and the last one wins.\<close>

fun dec_any :: "(string \<Rightarrow> string option) \<Rightarrow> json \<Rightarrow> gerror + json"
  and dec_any_elems :: "(string \<Rightarrow> string option) \<Rightarrow> json list \<Rightarrow> gerror + json list"
  and dec_any_members ::
    "(string \<Rightarrow> string option) \<Rightarrow> (string \<times> json) list \<Rightarrow> json gmap \<Rightarrow> gerror + json gmap" where
  "dec_any flt (JNum l) =
     (case flt l of None \<Rightarrow> Inl (Text ''json: cannot unmarshal number into Go value of type float64'')
      | Some l' \<Rightarrow> Inr (JNum l'))"
| "dec_any flt (JArr xs) =
     (case dec_any_elems flt xs of Inl e \<Rightarrow> Inl e | Inr ys \<Rightarrow> Inr (JArr ys))"
| "dec_any flt (JObj ms) =
     (case dec_any_members flt ms [] of Inl e \<Rightarrow> Inl e | Inr g \<Rightarrow> Inr (JObj g))"
| "dec_any flt JNull = Inr JNull"
| "dec_any flt (JBool b) = Inr (JBool b)"
| "dec_any flt (JStr s) = Inr (JStr s)"
| "dec_any_elems flt [] = Inr []"
| "dec_any_elems flt (x # xs) =
     (case dec_any flt x of Inl e \<Rightarrow> Inl e
      | Inr y \<Rightarrow> (case dec_any_elems flt xs of Inl e \<Rightarrow> Inl e | Inr ys \<Rightarrow> Inr (y # ys)))"
| "dec_any_members flt [] g = Inr g"
| "dec_any_members flt ((k, v) # ms) g =
     (case dec_any flt v of Inl e \<Rightarrow> Inl e | Inr v' \<Rightarrow> dec_any_members flt ms (gm_put k v' g))"

text \<open>
  The struct's JSON names are \<open>id\<close>, \<open>event\<close>, \<open>Data\<close> (the untagged field) and
  \<open>data\<close>.  An exact name wins; otherwise keys match up to case, and the field \<open>Data\<close>,
  declared first, takes the other spellings of \<open>data\<close>.
\<close>

definition assign_event :: "(string \<Rightarrow> string option) \<Rightarrow> string \<Rightarrow> json \<Rightarrow> event \<Rightarrow> gerror + event" where
  "assign_event flt k v e =
     (if k = ''data'' then
        (case dec_any flt v of Inl err \<Rightarrow> Inl err | Inr j \<Rightarrow> Inr (e\<lparr>ev_json := j\<rparr>))
      else if fold_name k = ''data'' then
        (case dec_string v (ev_data e) of Inl err \<Rightarrow> Inl err | Inr s \<Rightarrow> Inr (e\<lparr>ev_data := s\<rparr>))
      else if fold_name k = ''id'' then
        (case dec_int v (ev_id e) of Inl err \<Rightarrow> Inl err | Inr n \<Rightarrow> Inr (e\<lparr>ev_id := n\<rparr>))
      else if fold_name k = ''event'' then
        (case dec_string v (ev_event e) of Inl err \<Rightarrow> Inl err | Inr s \<Rightarrow> Inr (e\<lparr>ev_event := s\<rparr>))
      else Inr e)"

definition events_New :: "(string \<Rightarrow> string option) \<Rightarrow> bytes \<Rightarrow> gerror + event" where
  "events_New flt data =
     (case json_unmarshal data of
        Inl err \<Rightarrow> Inl err
      | Inr doc \<Rightarrow>
          (case fill_struct (assign_event flt) doc empty_event of
             Inl err \<Rightarrow> Inl err
           | Inr e \<Rightarrow> Inr (e\<lparr>ev_data := json_enc (ev_json e)\<rparr>)))"

definition nl :: char where "nl = CHR 0x0A"

definition event_Write :: "event \<Rightarrow> string" where
  "event_Write e =
     (if ev_id e \<noteq> 0 then ''id: '' @ itoa (ev_id e) @ [nl] else [])
     @ (if length (ev_event e) > 0 then ''event: '' @ ev_event e @ [nl] else [])
     @ ''data: '' @ ev_data e @ [nl, nl]"

subsection \<open>What a client makes of the wire\<close>

text \<open>
  The event-stream format: lines end in a line feed; a blank line dispatches the event gathered
  so far unless it has no data; \<open>id\<close> sets the ID buffer, which the next dispatch makes the
  last event ID and which later events inherit.  A line without its line feed has not arrived yet.
\<close>

record sse_client =
  cl_last :: string
  cl_buf :: string
  cl_type :: string
  cl_data :: "string list"
  cl_out :: "(string \<times> string \<times> string) list"

definition client_init :: "string \<Rightarrow> sse_client" where
  "client_init l = \<lparr>cl_last = l, cl_buf = l, cl_type = [], cl_data = [], cl_out = []\<rparr>"

definition client_dispatch :: "sse_client \<Rightarrow> sse_client" where
  "client_dispatch c =
     (if cl_data c = [] then c\<lparr>cl_last := cl_buf c, cl_type := []\<rparr>
      else c\<lparr>cl_last := cl_buf c, cl_type := [], cl_data := [],
        cl_out := cl_out c @
          [(cl_buf c, if cl_type c = [] then ''message'' else cl_type c, join_with [nl] (cl_data c))]\<rparr>)"

definition sse_field :: "string \<Rightarrow> string \<times> string" where
  "sse_field line =
     (let name = takeWhile (\<lambda>c. c \<noteq> CHR '':'') line;
          rest = drop (Suc (length name)) line
      in (name, case rest of [] \<Rightarrow> [] | c # r \<Rightarrow> if c = CHR '' '' then r else rest))"

definition client_line :: "sse_client \<Rightarrow> string \<Rightarrow> sse_client" where
  "client_line c line =
     (if line = [] then client_dispatch c
      else (let (f, v) = sse_field line
            in if f = ''event'' then c\<lparr>cl_type := v\<rparr>
               else if f = ''data'' then c\<lparr>cl_data := cl_data c @ [v]\<rparr>
               else if f = ''id'' then c\<lparr>cl_buf := v\<rparr>
               else c))"

definition client_feed :: "sse_client \<Rightarrow> string \<Rightarrow> sse_client" where
  "client_feed c text = foldl client_line c (butlast (split_on nl text))"

text \<open>What the events are meant to be on the other side.\<close>

definition event_view :: "string \<Rightarrow> event \<Rightarrow> string \<times> string \<times> string" where
  "event_view lid e =
     (if ev_id e \<noteq> 0 then itoa (ev_id e) else lid,
      if ev_event e = [] then ''message'' else ev_event e,
      ev_data e)"

fun events_view :: "string \<Rightarrow> event list \<Rightarrow> (string \<times> string \<times> string) list" where
  "events_view lid [] = []"
| "events_view lid (e # es) = event_view lid e # events_view (fst (event_view lid e)) es"

definition one_line :: "string \<Rightarrow> bool" where
  "one_line s = (nl \<notin> set s)"

definition event_ok :: "event \<Rightarrow> bool" where
  "event_ok e = (one_line (ev_event e) \<and> one_line (ev_data e))"


subsection \<open>The wire carries the events\<close>

lemma itoa_one_line: "nl \<notin> set (itoa n)"
proof -
  have "digit_char d \<noteq> nl" if "d < 10" for d
  proof -
    have "of_char (digit_char d) = (48 + d :: nat)"
      using that by (simp add: digit_char_def)
    then show ?thesis by (auto simp: nl_def)
  qed
  then show ?thesis
    by (auto simp: itoa_def nl_def [symmetric] dest!: nat_dec_digits) (auto simp: nl_def)
qed

lemma foldl_lines_append:
  assumes "x \<noteq> []" "last x = nl"
  shows "client_feed c (x @ y) = client_feed (client_feed c x) y"
proof -
  obtain z where x: "x = z @ [nl]"
    using assms by (metis append_butlast_last_id)
  have "split_on nl (z @ nl # y) = split_on nl z @ split_on nl y" for y
  proof (induction z)
    case (Cons a z)
    then show ?case
      by (cases "split_on nl z") auto
  qed simp
  then show ?thesis
    by (simp add: client_feed_def x butlast_append)
qed

lemma client_feed_line:
  "one_line l \<Longrightarrow> client_feed c (l @ [nl]) = client_line c l"
  by (simp add: client_feed_def one_line_def split_on_append_sep)

lemma client_feed_blank: "client_feed c [nl] = client_dispatch c"
  using client_feed_line [of "[]"] by (simp add: one_line_def client_line_def)

lemma client_line_fields:
  "client_line c (''id: '' @ v) = c\<lparr>cl_buf := v\<rparr>"
  "client_line c (''event: '' @ v) = c\<lparr>cl_type := v\<rparr>"
  "client_line c (''data: '' @ v) = c\<lparr>cl_data := cl_data c @ [v]\<rparr>"
  by (simp_all add: client_line_def sse_field_def Let_def)

lemma one_line_fields:
  "one_line v \<Longrightarrow> one_line (''id: '' @ v)"
  "one_line v \<Longrightarrow> one_line (''event: '' @ v)"
  "one_line v \<Longrightarrow> one_line (''data: '' @ v)"
  by (auto simp: one_line_def nl_def)

lemma client_feed_field:
  "one_line v \<Longrightarrow> client_feed c (''id: '' @ v @ nl # r) = client_feed (c\<lparr>cl_buf := v\<rparr>) r"
  "one_line v \<Longrightarrow> client_feed c (''event: '' @ v @ nl # r) = client_feed (c\<lparr>cl_type := v\<rparr>) r"
  "one_line v \<Longrightarrow> client_feed c (''data: '' @ v @ nl # r) = client_feed (c\<lparr>cl_data := cl_data c @ [v]\<rparr>) r"
  using foldl_lines_append [of "''id: '' @ v @ [nl]" c r] foldl_lines_append [of "''event: '' @ v @ [nl]" c r]
    foldl_lines_append [of "''data: '' @ v @ [nl]" c r]
    client_feed_line [of "''id: '' @ v" c] client_feed_line [of "''event: '' @ v" c]
    client_feed_line [of "''data: '' @ v" c] one_line_fields [of v] client_line_fields
  by simp_all

text \<open>A client between two events, and what receiving one event makes of it.\<close>

definition client_ready :: "sse_client \<Rightarrow> bool" where
  "client_ready c = (cl_type c = [] \<and> cl_data c = [] \<and> cl_buf c = cl_last c)"

definition client_push :: "sse_client \<Rightarrow> event \<Rightarrow> sse_client" where
  "client_push c e =
     c\<lparr>cl_last := fst (event_view (cl_last c) e), cl_buf := fst (event_view (cl_last c) e),
       cl_out := cl_out c @ [event_view (cl_last c) e]\<rparr>"

definition last_id_after :: "string \<Rightarrow> event list \<Rightarrow> string" where
  "last_id_after l es = foldl (\<lambda>l e. fst (event_view l e)) l es"

lemma client_push_ready: "client_ready c \<Longrightarrow> client_ready (client_push c e)"
  by (simp add: client_ready_def client_push_def)

lemma client_ready_init [simp]: "client_ready (client_init l)"
  by (simp add: client_ready_def client_init_def)

lemma client_feed_event:
  assumes "event_ok e" "client_ready c"
  shows "client_feed c (event_Write e @ r) = client_feed (client_push c e) r"
proof -
  have "client_feed c' (nl # r) = client_feed (client_dispatch c') r" for c'
    using foldl_lines_append [of "[nl]" c' r] by (simp add: client_feed_blank)
  moreover have "one_line (itoa (ev_id e))" "one_line (ev_event e)" "one_line (ev_data e)"
    using assms(1) itoa_one_line by (auto simp: event_ok_def one_line_def)
  ultimately show ?thesis using assms(2)
    by (cases c) (simp add: event_Write_def event_view_def client_feed_field [simplified]
      client_dispatch_def client_push_def client_ready_def)
qed

lemma client_feed_events:
  assumes "\<forall>e \<in> set es. event_ok e" "client_ready c"
  shows "client_feed c (concat (map event_Write es) @ r) = client_feed (foldl client_push c es) r"
  using assms
  by (induction es arbitrary: c) (simp_all add: client_feed_event client_push_ready)

lemma foldl_client_push:
  "cl_out (foldl client_push c es) = cl_out c @ events_view (cl_last c) es
   \<and> cl_last (foldl client_push c es) = last_id_after (cl_last c) es"
  by (induction es arbitrary: c) (simp_all add: client_push_def last_id_after_def)

text \<open>Until its blank line has arrived, an event has no effect that the client can see.\<close>

lemma client_line_silent:
  "l \<noteq> [] \<Longrightarrow> cl_out (client_line c l) = cl_out c \<and> cl_last (client_line c l) = cl_last c"
  by (simp add: client_line_def Let_def split: prod.split)

lemma client_lines_silent:
  "[] \<notin> set ls \<Longrightarrow>
   cl_out (foldl client_line c ls) = cl_out c \<and> cl_last (foldl client_line c ls) = cl_last c"
proof (induction ls arbitrary: c)
  case (Cons l ls)
  then have "l \<noteq> []" by auto
  with Cons client_line_silent [of l c] show ?case by simp
qed simp

lemma split_on_append:
  "split_on c (q @ r) =
     butlast (split_on c q) @ (last (split_on c q) @ hd (split_on c r)) # tl (split_on c r)"
proof (induction q)
  case (Cons x q)
  obtain y ys where s: "split_on c q = y # ys" by (cases "split_on c q") auto
  with Cons show ?case by (cases ys) auto
qed simp

lemma split_on_prefix_lines:
  "set (butlast (split_on c q)) \<subseteq> set (butlast (split_on c (q @ r)))"
  by (cases "tl (split_on c r)") (auto simp: split_on_append butlast_append)

definition event_lines :: "event \<Rightarrow> string list" where
  "event_lines e =
     (if ev_id e \<noteq> 0 then [''id: '' @ itoa (ev_id e)] else [])
     @ (if length (ev_event e) > 0 then [''event: '' @ ev_event e] else [])
     @ [''data: '' @ ev_data e]"

lemma event_Write_lines:
  "event_Write e = concat (map (\<lambda>l. l @ [nl]) (event_lines e)) @ [nl]"
  by (simp add: event_Write_def event_lines_def)

lemma split_lines:
  "\<forall>l \<in> set ls. one_line l \<Longrightarrow> butlast (split_on nl (concat (map (\<lambda>l. l @ [nl]) ls))) = ls"
  by (induction ls) (simp_all add: split_on_append_sep one_line_def)

lemma client_feed_partial:
  assumes "event_ok e" "n < length (event_Write e)"
  shows "cl_out (client_feed c (take n (event_Write e))) = cl_out c
    \<and> cl_last (client_feed c (take n (event_Write e))) = cl_last c"
proof -
  let ?body = "concat (map (\<lambda>l. l @ [nl]) (event_lines e))"
  have "take n (event_Write e) @ drop n ?body = ?body"
    using assms(2) by (simp add: event_Write_lines)
  then have "set (butlast (split_on nl (take n (event_Write e)))) \<subseteq> set (butlast (split_on nl ?body))"
    using split_on_prefix_lines [of nl "take n (event_Write e)" "drop n ?body"] by simp
  moreover have "one_line (itoa (ev_id e))" "one_line (ev_event e)" "one_line (ev_data e)"
    using assms(1) itoa_one_line by (auto simp: event_ok_def one_line_def)
  then have "butlast (split_on nl ?body) = event_lines e"
    by (intro split_lines) (auto simp add: event_lines_def one_line_fields [simplified])
  moreover have "[] \<notin> set (event_lines e)" by (simp add: event_lines_def)
  ultimately have "[] \<notin> set (butlast (split_on nl (take n (event_Write e))))" by auto
  then show ?thesis unfolding client_feed_def by (rule client_lines_silent)
qed

text \<open>Wherever the connection breaks, the client has whole events, and their last ID.\<close>

lemma client_feed_cut:
  assumes "\<forall>e \<in> set es. event_ok e" "client_ready c"
    and "concat (map event_Write es) = p @ q"
  shows "\<exists>k \<le> length es. cl_out (client_feed c p) = cl_out c @ events_view (cl_last c) (take k es)
    \<and> cl_last (client_feed c p) = last_id_after (cl_last c) (take k es)"
  using assms
proof (induction es arbitrary: c p)
  case Nil
  then show ?case by (simp add: client_feed_def last_id_after_def)
next
  case (Cons e es)
  show ?case
  proof (cases "length p < length (event_Write e)")
    case True
    have "p = take (length p) (event_Write e @ concat (map event_Write es))"
      using Cons.prems(3) by simp
    then have "p = take (length p) (event_Write e)" using True by simp
    with client_feed_partial [OF _ True, of c] Cons.prems(1)
    have "cl_out (client_feed c p) = cl_out c \<and> cl_last (client_feed c p) = cl_last c" by simp
    then show ?thesis by (intro exI [of _ 0]) (simp add: last_id_after_def)
  next
    case False
    define p' where "p' = drop (length (event_Write e)) p"
    have p: "p = event_Write e @ p'"
      using Cons.prems(3) False append_eq_append_conv_if [of "event_Write e" "concat (map event_Write es)" p q]
      by (simp add: p'_def)
    then have "concat (map event_Write es) = p' @ q" using Cons.prems(3) by simp
    from Cons.IH [OF _ client_push_ready [OF Cons.prems(2), of e] this] Cons.prems(1)
    obtain k where k: "k \<le> length es"
      "cl_out (client_feed (client_push c e) p') = cl_out (client_push c e) @ events_view (cl_last (client_push c e)) (take k es)"
      "cl_last (client_feed (client_push c e) p') = last_id_after (cl_last (client_push c e)) (take k es)"
      by auto
    have "client_feed c p = client_feed (client_push c e) p'"
      using Cons.prems(1,2) by (simp add: p client_feed_event)
    with k show ?thesis
      by (intro exI [of _ "Suc k"]) (simp add: client_push_def last_id_after_def)
  qed
qed

text \<open>The JSON encoder never emits a control character, so \<open>New\<close> keeps data on one line.\<close>

definition printable :: "string \<Rightarrow> bool" where
  "printable s = (\<forall>c \<in> set s. 32 \<le> (of_char c :: nat))"

lemma printable_append [simp]: "printable (a @ b) = (printable a \<and> printable b)"
  by (auto simp: printable_def)

lemma printable_consts [simp]:
  "printable ''null''" "printable ''true''" "printable ''false''" "printable []"
  "printable (c # s) = (32 \<le> (of_char c :: nat) \<and> printable s)"
  by (auto simp: printable_def)

lemma printable_one_line: "printable s \<Longrightarrow> one_line s"
  by (auto simp: printable_def one_line_def nl_def)

lemma hex_char_printable: "n < 16 \<Longrightarrow> 32 \<le> (of_char (hex_char n) :: nat)"
  by (auto simp: hex_char_def)

lemma esc_char_printable: "printable (esc_char c)"
proof (cases c rule: esc_char_cases)
  case (simple e)
  then have "32 \<le> (of_char e :: nat)"
    by (auto simp: simple_esc_def split: if_splits)
  with simple show ?thesis by (simp add: printable_def)
next
  case (hex n)
  then have "n div 16 < 16" by auto
  with hex show ?thesis by (simp add: printable_def hex_char_printable)
qed (simp add: printable_def)

lemma json_esc_printable: "printable (json_esc s)"
  by (induction s rule: json_esc.induct) (auto simp: esc_char_printable)

lemma json_string_printable: "printable (json_string s)"
  using json_esc_printable [of s] by (simp add: json_string_def printable_def)

lemma valid_num_printable: "valid_num l \<Longrightarrow> printable l"
proof -
  assume "valid_num l"
  then have "is_num_char c" if "c \<in> set l" for c
    using valid_num_num_char that by blast
  moreover have "is_num_char c \<Longrightarrow> 32 \<le> (of_char c :: nat)" for c
    by (auto simp: is_num_char_def char_digit_def Let_def split: if_splits)
  ultimately show ?thesis by (auto simp: printable_def)
qed

lemma json_enc_printable:
  "json_wf j \<Longrightarrow> printable (json_enc j)"
  and "\<forall>x \<in> set xs. json_wf x \<Longrightarrow> printable (json_enc_elems xs)"
  and "\<forall>m \<in> set ms. json_wf (snd m) \<Longrightarrow> printable (json_enc_members ms)"
  by (induction j and xs and ms rule: json_enc_json_enc_elems_json_enc_members.induct)
     (auto simp: json_string_printable valid_num_printable)

lemma gm_put_wf:
  "json_wf v \<Longrightarrow> \<forall>m \<in> set g. json_wf (snd m) \<Longrightarrow> m \<in> set (gm_put k v g) \<Longrightarrow> json_wf (snd m)"
  by (induction k v g rule: gm_put.induct) (auto split: if_splits)

definition flt_ok :: "(string \<Rightarrow> string option) \<Rightarrow> bool" where
  "flt_ok flt = (\<forall>l l'. flt l = Some l' \<longrightarrow> valid_num l')"

lemma dec_any_wf:
  "flt_ok flt \<Longrightarrow> dec_any flt j = Inr j' \<Longrightarrow> json_wf j'"
  "flt_ok flt \<Longrightarrow> dec_any_elems flt xs = Inr ys \<Longrightarrow> \<forall>y \<in> set ys. json_wf y"
  "flt_ok flt \<Longrightarrow> dec_any_members flt ms g = Inr g' \<Longrightarrow> \<forall>m \<in> set g. json_wf (snd m) \<Longrightarrow>
     \<forall>m \<in> set g'. json_wf (snd m)"
proof (induction flt j and flt xs and flt ms g arbitrary: j' and ys and g'
    rule: dec_any_dec_any_elems_dec_any_members.induct)
  case (10 flt k v ms g)
  from "10.prems" obtain v' where v: "dec_any flt v = Inr v'"
    "dec_any_members flt ms (gm_put k v' g) = Inr g'"
    by (auto split: sum.splits)
  have "json_wf v'" using "10.IH"(1) [OF "10.prems"(1) v(1)] .
  then have "\<forall>m \<in> set (gm_put k v' g). json_wf (snd m)"
    using "10.prems"(3) gm_put_wf by blast
  then show ?case using "10.IH"(2) [OF v(1) "10.prems"(1) v(2)] by blast
qed (auto simp: flt_ok_def split: option.splits sum.splits)

lemma assign_event_wf:
  "flt_ok flt \<Longrightarrow> assign_event flt k v e = Inr e' \<Longrightarrow> json_wf (ev_json e) \<Longrightarrow> json_wf (ev_json e')"
  by (auto simp: assign_event_def split: if_splits sum.splits dest: dec_any_wf(1))

lemma events_New_wf:
  assumes "flt_ok flt" "events_New flt d = Inr e"
  shows "json_wf (ev_json e) \<and> ev_data e = json_enc (ev_json e)"
proof -
  obtain doc e0 where e: "fill_struct (assign_event flt) doc empty_event = Inr e0"
    "e = e0\<lparr>ev_data := json_enc (ev_json e0)\<rparr>"
    using assms(2) by (auto simp: events_New_def split: sum.splits)
  have "json_wf (ev_json e0)"
    using e(1) fill_members_inv [of "assign_event flt" "\<lambda>e. json_wf (ev_json e)"] assign_event_wf [OF assms(1)]
    by (auto simp: fill_struct_def empty_event_def split: json.splits)
  with e(2) show ?thesis by simp
qed

lemma events_New_one_line:
  "flt_ok flt \<Longrightarrow> events_New flt d = Inr e \<Longrightarrow> one_line (ev_data e)"
  using events_New_wf json_enc_printable(1) printable_one_line by metis

end
