(* ===== verification/Stream_Iface.thy ===== *)
theory Stream_Iface
  imports Sse_Events
begin

text \<open>
  \<open>internal/stream/stream.go\<close>: messages, the special offset, and the \<open>Stream\<close>
  interface as the locale \<open>stream_source\<close>.  A started stream is a transition system: internal
  steps (the log grows, the consumer dispatches or skips a message) and hand-offs, the rendezvous
  on the unbuffered channel.  The locale's laws are the comments of the interface: offsets are
  strictly increasing, every message from the start offset on is handed over once and in order,
  and every message below the position has been received or filtered out.
\<close>

definition OffsetFirst :: int where "OffsetFirst = - 1"

definition ErrEmptyStream :: gerror where "ErrEmptyStream = Sentinel ''stream is empty''"

record message =
  m_offset :: int
  m_data :: bytes

definition from_offset :: "int \<Rightarrow> message list \<Rightarrow> message list" where
  "from_offset n ms = filter (\<lambda>m. n \<le> m_offset m) ms"

definition below_offset :: "int \<Rightarrow> message list \<Rightarrow> message list" where
  "below_offset n ms = filter (\<lambda>m. m_offset m < n) ms"

definition offsets_increase :: "message list \<Rightarrow> bool" where
  "offsets_increase ms = sorted_wrt (\<lambda>a b. m_offset a < m_offset b) ms"

lemma from_offset_append [simp]: "from_offset n (xs @ ys) = from_offset n xs @ from_offset n ys"
  by (simp add: from_offset_def)

lemma below_offset_append [simp]: "below_offset n (xs @ ys) = below_offset n xs @ below_offset n ys"
  by (simp add: below_offset_def)

lemma offsets_increase_append:
  "offsets_increase (xs @ ys) =
     (offsets_increase xs \<and> offsets_increase ys \<and> (\<forall>x \<in> set xs. \<forall>y \<in> set ys. m_offset x < m_offset y))"
  by (auto simp: offsets_increase_def sorted_wrt_append)

lemma offsets_increase_filter: "offsets_increase xs \<Longrightarrow> offsets_increase (filter P xs)"
  by (simp add: offsets_increase_def sorted_wrt_filter)

lemma below_offset_all: "\<forall>m \<in> set ms. m_offset m < n \<Longrightarrow> below_offset n ms = ms"
  by (simp add: below_offset_def)

lemma below_offset_none: "\<forall>m \<in> set ms. n \<le> m_offset m \<Longrightarrow> below_offset n ms = []"
  by (simp add: below_offset_def filter_empty_conv not_less)

lemma from_below_offset:
  "offsets_increase ms \<Longrightarrow> below_offset n ms @ from_offset n ms = ms"
proof (induction ms)
  case (Cons m ms)
  have inc: "\<forall>x \<in> set ms. m_offset m < m_offset x" "offsets_increase ms"
    using Cons.prems by (auto simp: offsets_increase_def)
  show ?case
  proof (cases "m_offset m < n")
    case True
    with Cons.IH [OF inc(2)] show ?thesis by (simp add: below_offset_def from_offset_def)
  next
    case False
    with inc(1) have ge: "\<forall>x \<in> set (m # ms). n \<le> m_offset x" by force
    then show ?thesis using below_offset_none [OF ge] by (simp add: from_offset_def)
  qed
qed (simp add: below_offset_def from_offset_def)

lemma from_offset_from: "a \<le> b \<Longrightarrow> from_offset b (from_offset a ms) = from_offset b ms"
  by (induction ms) (auto simp: from_offset_def)

lemma from_offset_split:
  "offsets_increase ms \<Longrightarrow> a \<le> b \<Longrightarrow>
   below_offset b (from_offset a ms) @ from_offset b ms = from_offset a ms"
  using from_below_offset [of "from_offset a ms" b] offsets_increase_filter [of ms]
  by (simp add: from_offset_from) (simp add: from_offset_def)

locale stream_source =
  fixes started :: "'s \<Rightarrow> bool"
    and internal :: "'s \<Rightarrow> 's \<Rightarrow> bool"
    and handoff :: "'s \<Rightarrow> message \<Rightarrow> 's \<Rightarrow> bool"
    and start :: "'s \<Rightarrow> int"
    and position :: "'s \<Rightarrow> int"
    and log_of :: "'s \<Rightarrow> message list"
    and pending :: "'s \<Rightarrow> message list"
    and ok :: "'s \<Rightarrow> bool"
  assumes ok_started: "started s \<Longrightarrow> ok s"
    and ok_internal: "ok s \<Longrightarrow> internal s s' \<Longrightarrow> ok s'"
    and ok_handoff: "ok s \<Longrightarrow> handoff s m s' \<Longrightarrow> ok s'"
    and started_pending: "started s \<Longrightarrow> pending s = from_offset (start s) (log_of s)"
    and internal_log: "ok s \<Longrightarrow> internal s s' \<Longrightarrow>
          \<exists>new. log_of s' = log_of s @ new \<and> pending s' = pending s @ from_offset (start s) new"
    and handoff_log: "ok s \<Longrightarrow> handoff s m s' \<Longrightarrow> log_of s' = log_of s"
    and handoff_pending: "ok s \<Longrightarrow> handoff s m s' \<Longrightarrow> pending s = m # pending s'"
    and start_internal: "internal s s' \<Longrightarrow> start s' = start s"
    and start_handoff: "handoff s m s' \<Longrightarrow> start s' = start s"
    and log_increases: "ok s \<Longrightarrow> offsets_increase (log_of s)"
    and log_nonneg: "ok s \<Longrightarrow> m \<in> set (log_of s) \<Longrightarrow> 0 \<le> m_offset m"
    and position_pending: "ok s \<Longrightarrow> m \<in> set (pending s) \<Longrightarrow> position s \<le> m_offset m"
    and position_internal: "ok s \<Longrightarrow> internal s s' \<Longrightarrow> position s \<le> position s'"
    and position_handoff: "ok s \<Longrightarrow> handoff s m s' \<Longrightarrow> position s \<le> position s'"

end
