(* ===== verification/Go_Http.thy ===== *)
theory Go_Http
  imports Go_Map
begin

text \<open>
  What the handlers use of \<open>net/http\<close>: a \<open>ResponseWriter\<close> with its live headers, the
  status and headers fixed by the first \<open>WriteHeader\<close>, and the body.  The locale
  \<open>response_writer\<close> is the interface's contract, on which \<open>RespondWithJSON\<close> rests: the
  first status wins and writing commits to one.
\<close>

type_synonym headers = "(string \<times> string) list"

definition hdr_set :: "string \<Rightarrow> string \<Rightarrow> headers \<Rightarrow> headers" where
  "hdr_set k v h = (k, v) # filter (\<lambda>p. fst p \<noteq> k) h"

definition hdr_del :: "string \<Rightarrow> headers \<Rightarrow> headers" where
  "hdr_del k h = filter (\<lambda>p. fst p \<noteq> k) h"

definition hdr_get :: "string \<Rightarrow> headers \<Rightarrow> string" where
  "hdr_get k h = (case map_of h k of None \<Rightarrow> [] | Some v \<Rightarrow> v)"

lemma hdr_get_set [simp]: "hdr_get k (hdr_set k' v h) = (if k = k' then v else hdr_get k h)"
proof -
  have "map_of (filter (\<lambda>p. fst p \<noteq> k') h) k = map_of h k" if "k \<noteq> k'"
    using that by (induction h) auto
  then show ?thesis by (simp add: hdr_get_def hdr_set_def)
qed

record http_writer =
  w_header :: headers
  w_status :: "int option"
  w_sent :: headers
  w_body :: string

definition new_writer :: http_writer where
  "new_writer = \<lparr>w_header = [], w_status = None, w_sent = [], w_body = []\<rparr>"

definition set_header :: "string \<Rightarrow> string \<Rightarrow> http_writer \<Rightarrow> http_writer" where
  "set_header k v w = w\<lparr>w_header := hdr_set k v (w_header w)\<rparr>"

definition write_header :: "int \<Rightarrow> http_writer \<Rightarrow> http_writer" where
  "write_header code w =
     (case w_status w of
        Some _ \<Rightarrow> w
      | None \<Rightarrow> w\<lparr>w_status := Some code, w_sent := w_header w\<rparr>)"

definition body_allowed :: "int \<Rightarrow> bool" where
  "body_allowed code = (\<not> (100 \<le> code \<and> code \<le> 199) \<and> code \<noteq> 204 \<and> code \<noteq> 304)"

definition write_body :: "string \<Rightarrow> http_writer \<Rightarrow> http_writer" where
  "write_body s w =
     (let w' = write_header 200 w
      in case w_status w' of
           Some code \<Rightarrow> if body_allowed code then w'\<lparr>w_body := w_body w' @ s\<rparr> else w'
         | None \<Rightarrow> w')"

text \<open>\<open>http.Error\<close> and \<open>http.NotFound\<close>.\<close>

definition http_Error :: "string \<Rightarrow> int \<Rightarrow> http_writer \<Rightarrow> http_writer" where
  "http_Error msg code w =
     write_body (msg @ [CHR 0x0A])
       (write_header code
         (set_header ''X-Content-Type-Options'' ''nosniff''
           (set_header ''Content-Type'' ''text/plain; charset=utf-8''
             (w\<lparr>w_header := hdr_del ''Content-Length'' (w_header w)\<rparr>))))"

definition http_NotFound :: "http_writer \<Rightarrow> http_writer" where
  "http_NotFound w = http_Error ''404 page not found'' 404 w"

lemma write_header_status [simp]:
  "w_status (write_header c w) = (case w_status w of None \<Rightarrow> Some c | Some s \<Rightarrow> Some s)"
  by (auto simp: write_header_def split: option.splits)

lemma write_body_status [simp]:
  "w_status (write_body s w) = (case w_status w of None \<Rightarrow> Some 200 | Some c \<Rightarrow> Some c)"
  by (auto simp: write_body_def Let_def write_header_def split: option.splits)

lemma set_header_status [simp]: "w_status (set_header k v w) = w_status w"
  by (simp add: set_header_def)

lemma write_header_body [simp]: "w_body (write_header c w) = w_body w"
  by (auto simp: write_header_def split: option.splits)

lemma set_header_body [simp]: "w_body (set_header k v w) = w_body w"
  by (simp add: set_header_def)

lemma write_body_body:
  "w_body (write_body s w) =
     (if (case w_status w of None \<Rightarrow> True | Some c \<Rightarrow> body_allowed c) then w_body w @ s else w_body w)"
  by (auto simp: write_body_def Let_def write_header_def body_allowed_def split: option.splits)

subsection \<open>The contract of a response writer\<close>

locale response_writer =
  fixes header_op :: "int \<Rightarrow> 'w \<Rightarrow> 'w"
    and write_op :: "string \<Rightarrow> 'w \<Rightarrow> 'w"
    and set_op :: "string \<Rightarrow> string \<Rightarrow> 'w \<Rightarrow> 'w"
    and status_of :: "'w \<Rightarrow> int option"
    and body_of :: "'w \<Rightarrow> string"
  assumes status_header: "status_of (header_op c w) = (case status_of w of None \<Rightarrow> Some c | Some s \<Rightarrow> Some s)"
    and status_write: "status_of (write_op s w) = (case status_of w of None \<Rightarrow> Some 200 | Some c \<Rightarrow> Some c)"
    and status_set: "status_of (set_op k v w) = status_of w"
    and body_header: "body_of (header_op c w) = body_of w"
    and body_set: "body_of (set_op k v w) = body_of w"
    and body_write: "body_of (write_op s w) =
          (if (case status_of w of None \<Rightarrow> True | Some c \<Rightarrow> body_allowed c) then body_of w @ s else body_of w)"
begin

lemma first_status_wins:
  "status_of w = Some c \<Longrightarrow>
   status_of (header_op c' w) = Some c \<and> status_of (write_op s w) = Some c \<and> status_of (set_op k v w) = Some c"
  by (simp add: status_header status_write status_set)

lemma respond:
  "status_of w = None \<Longrightarrow> body_allowed c \<Longrightarrow>
   status_of (write_op s (header_op c (set_op k v w))) = Some c
   \<and> body_of (write_op s (header_op c (set_op k v w))) = body_of w @ s"
  by (simp add: status_header status_write status_set body_header body_set body_write)

lemma respond_again:
  "status_of w = Some c \<Longrightarrow> body_allowed c \<Longrightarrow>
   status_of (write_op s (header_op c' (set_op k v w))) = Some c
   \<and> body_of (write_op s (header_op c' (set_op k v w))) = body_of w @ s"
  by (simp add: status_header status_write status_set body_header body_set body_write)

end

interpretation net_http: response_writer write_header write_body set_header w_status w_body
  by unfold_locales (simp_all add: write_body_body split: option.splits)

subsection \<open>JSON responses\<close>

text \<open>
  \<open>RespondWithJSON\<close> and \<open>RespondWithError\<close>, which the iut, logarea and execution space
  packages each define with the same body.  The payload is the document \<open>json.Marshal\<close> makes.
\<close>

definition RespondWithJSON :: "int \<Rightarrow> json \<Rightarrow> http_writer \<Rightarrow> http_writer" where
  "RespondWithJSON code payload w =
     write_body (json_enc payload)
       (write_header code (set_header ''Content-Type'' ''application/json'' w))"

definition RespondWithError :: "int \<Rightarrow> string \<Rightarrow> http_writer \<Rightarrow> http_writer" where
  "RespondWithError code message w = RespondWithJSON code (JObj [(''error'', JStr message)]) w"

lemma RespondWithJSON_status [simp]:
  "w_status (RespondWithJSON c j w) = (case w_status w of None \<Rightarrow> Some c | Some s \<Rightarrow> Some s)"
  by (simp add: RespondWithJSON_def split: option.splits)

lemma RespondWithError_status [simp]:
  "w_status (RespondWithError c m w) = (case w_status w of None \<Rightarrow> Some c | Some s \<Rightarrow> Some s)"
  by (simp add: RespondWithError_def)

lemma RespondWithJSON_fresh:
  "w_status w = None \<Longrightarrow> body_allowed c \<Longrightarrow>
   w_status (RespondWithJSON c j w) = Some c \<and> w_body (RespondWithJSON c j w) = w_body w @ json_enc j"
  unfolding RespondWithJSON_def by (rule net_http.respond)

lemma RespondWithJSON_again:
  "w_status w = Some c \<Longrightarrow> body_allowed c \<Longrightarrow>
   w_status (RespondWithJSON c' j w) = Some c \<and> w_body (RespondWithJSON c' j w) = w_body w @ json_enc j"
  unfolding RespondWithJSON_def by (rule net_http.respond_again)

text \<open>The selftest handler the services share: 204 with no body.\<close>

definition Selftest :: "http_writer \<Rightarrow> http_writer" where
  "Selftest w = RespondWithError 204 [] w"

lemma Selftest_no_content:
  "w_status w = None \<Longrightarrow> w_status (Selftest w) = Some 204 \<and> w_body (Selftest w) = w_body w"
  by (simp add: Selftest_def RespondWithError_def RespondWithJSON_def write_body_body body_allowed_def)

end
