(* ===== verification/Sse_Metrics.thy ===== *)
theory Sse_Metrics
  imports Go_Http
begin

text \<open>
  \<open>internal/metrics\<close>: the response recorder and request instrumentation of
  \<open>metrics.go\<close>, the connection, event, error and reconnect counters of \<open>sse.go\<close> and the
  cluster attribute of \<open>cluster.go\<close>.  Counters map the attribute they are labelled with to
  their value; the cluster attribute is the same on all of them.
\<close>

subsection \<open>The cluster attribute\<close>

definition is_space :: "char \<Rightarrow> bool" where
  "is_space c = (c \<in> {CHR 0x09, CHR 0x0A, CHR 0x0B, CHR 0x0C, CHR 0x0D, CHR '' ''})"

definition trim_space :: "string \<Rightarrow> string" where
  "trim_space s = rev (dropWhile is_space (rev (dropWhile is_space s)))"

definition clusterAttribute :: "(string \<Rightarrow> string) \<Rightarrow> string option \<Rightarrow> string" where
  "clusterAttribute getenv namespace_file =
     (let namespace = (case namespace_file of
            None \<Rightarrow> trim_space (getenv ''ETOS_NAMESPACE'')
          | Some v \<Rightarrow> trim_space v);
          cluster = trim_space (getenv ''ETOS_CLUSTER'')
      in if namespace \<noteq> [] \<and> cluster \<noteq> [] \<and> CHR ''/'' \<notin> set namespace \<and> CHR ''/'' \<notin> set cluster
         then namespace @ ''/'' @ cluster else ''unassigned'')"

lemma clusterAttribute_shape:
  "clusterAttribute env f = ''unassigned'' \<or>
   (\<exists>n c. clusterAttribute env f = n @ ''/'' @ c \<and> n \<noteq> [] \<and> c \<noteq> []
      \<and> split_on (CHR ''/'') (clusterAttribute env f) = [n, c])"
  by (auto simp: clusterAttribute_def Let_def split_on_append_sep split_on_no_sep)

subsection \<open>The counters\<close>

record sse_metrics =
  mt_active :: int
  mt_total :: nat
  mt_events :: "string \<Rightarrow> nat"
  mt_disconnects :: "string \<Rightarrow> nat"
  mt_errors :: "string \<Rightarrow> nat"
  mt_reconnects :: nat
  mt_requests :: "string \<times> string \<times> string \<times> string \<Rightarrow> nat"
  mt_durations :: "string \<times> string \<times> string \<Rightarrow> nat"

definition bump :: "'k \<Rightarrow> ('k \<Rightarrow> nat) \<Rightarrow> 'k \<Rightarrow> nat" where
  "bump k f = f(k := Suc (f k))"

definition NewSSEMetrics :: sse_metrics where
  "NewSSEMetrics = \<lparr>mt_active = 0, mt_total = 0, mt_events = (\<lambda>_. 0), mt_disconnects = (\<lambda>_. 0),
     mt_errors = (\<lambda>_. 0), mt_reconnects = 0, mt_requests = (\<lambda>_. 0), mt_durations = (\<lambda>_. 0)\<rparr>"

definition ConnectionOpened :: "sse_metrics \<Rightarrow> sse_metrics" where
  "ConnectionOpened m = m\<lparr>mt_active := mt_active m + 1, mt_total := Suc (mt_total m)\<rparr>"

definition close_reasons :: "string list" where
  "close_reasons = [''client_disconnect'', ''server_shutdown'', ''subscriber_shutdown'', ''stream_write_error'']"

definition ConnectionClosedWithReason :: "string \<Rightarrow> sse_metrics \<Rightarrow> sse_metrics" where
  "ConnectionClosedWithReason reason m =
     (let r = (if reason \<in> set close_reasons then reason else ''unknown'')
      in m\<lparr>mt_active := mt_active m - 1, mt_disconnects := bump r (mt_disconnects m)\<rparr>)"

definition ReconnectRequested :: "sse_metrics \<Rightarrow> sse_metrics" where
  "ReconnectRequested m = m\<lparr>mt_reconnects := Suc (mt_reconnects m)\<rparr>"

definition error_categories :: "string list" where
  "error_categories = [''backend_failure'', ''protocol_unsupported'', ''stream_write_error'']"

definition StreamError :: "string \<Rightarrow> sse_metrics \<Rightarrow> sse_metrics" where
  "StreamError category m =
     (let c = (if category \<in> set error_categories then category else ''unknown'')
      in m\<lparr>mt_errors := bump c (mt_errors m)\<rparr>)"

definition EventDelivered :: "string \<Rightarrow> sse_metrics \<Rightarrow> sse_metrics" where
  "EventDelivered event m =
     (let class = (if event \<in> set [''ping'', ''shutdown'', ''error''] then event else ''data'')
      in m\<lparr>mt_events := bump class (mt_events m)\<rparr>)"

definition recordRequest :: "string \<Rightarrow> string \<Rightarrow> string \<Rightarrow> string \<Rightarrow> sse_metrics \<Rightarrow> sse_metrics" where
  "recordRequest route method statusClass outcome m =
     m\<lparr>mt_requests := bump (method, route, statusClass, outcome) (mt_requests m),
       mt_durations := bump (method, route, outcome) (mt_durations m)\<rparr>"

subsection \<open>Invariants of the counters\<close>

text \<open>
  Labels stay bounded: only the listed values are ever counted.  The active gauge is the number
  of connections opened less the number closed, over all reasons.
\<close>

definition labels_bounded :: "sse_metrics \<Rightarrow> bool" where
  "labels_bounded m =
     ((\<forall>k. mt_events m k \<noteq> 0 \<longrightarrow> k \<in> {''ping'', ''shutdown'', ''error'', ''data''})
      \<and> (\<forall>k. mt_disconnects m k \<noteq> 0 \<longrightarrow> k \<in> insert ''unknown'' (set close_reasons))
      \<and> (\<forall>k. mt_errors m k \<noteq> 0 \<longrightarrow> k \<in> insert ''unknown'' (set error_categories)))"

definition disconnect_total :: "sse_metrics \<Rightarrow> nat" where
  "disconnect_total m = sum_list (map (mt_disconnects m) (''unknown'' # close_reasons))"

definition gauge_ok :: "sse_metrics \<Rightarrow> bool" where
  "gauge_ok m = (mt_active m = int (mt_total m) - int (disconnect_total m))"

lemma labels_bounded_init [etos_inv]: "labels_bounded NewSSEMetrics"
  by (simp add: labels_bounded_def NewSSEMetrics_def)

lemma labels_bounded_ops [etos_inv]:
  "labels_bounded m \<Longrightarrow> labels_bounded (ConnectionOpened m)"
  "labels_bounded m \<Longrightarrow> labels_bounded (ConnectionClosedWithReason r m)"
  "labels_bounded m \<Longrightarrow> labels_bounded (ReconnectRequested m)"
  "labels_bounded m \<Longrightarrow> labels_bounded (StreamError c m)"
  "labels_bounded m \<Longrightarrow> labels_bounded (EventDelivered e m)"
  "labels_bounded m \<Longrightarrow> labels_bounded (recordRequest rt me sc oc m)"
  by (auto simp: labels_bounded_def ConnectionOpened_def ConnectionClosedWithReason_def
      ReconnectRequested_def StreamError_def EventDelivered_def recordRequest_def bump_def Let_def)

lemma sum_list_bump:
  "distinct ks \<Longrightarrow> k \<in> set ks \<Longrightarrow> sum_list (map (bump k f) ks) = Suc (sum_list (map f ks))"
  by (induction ks) (auto simp: bump_def map_fun_upd)

lemma disconnect_total_closed: "disconnect_total (ConnectionClosedWithReason r m) = Suc (disconnect_total m)"
proof -
  let ?r = "if r \<in> set close_reasons then r else ''unknown''"
  have "distinct (''unknown'' # close_reasons)" by (simp add: close_reasons_def)
  moreover have "?r \<in> set (''unknown'' # close_reasons)" by simp
  moreover have "mt_disconnects (ConnectionClosedWithReason r m) = bump ?r (mt_disconnects m)"
    by (simp add: ConnectionClosedWithReason_def Let_def)
  ultimately show ?thesis
    unfolding disconnect_total_def by (simp only: sum_list_bump)
qed

lemma disconnect_total_other [simp]:
  "disconnect_total (ConnectionOpened m) = disconnect_total m"
  "disconnect_total (ReconnectRequested m) = disconnect_total m"
  "disconnect_total (StreamError c m) = disconnect_total m"
  "disconnect_total (EventDelivered e m) = disconnect_total m"
  "disconnect_total (recordRequest rt me sc oc m) = disconnect_total m"
  by (simp_all add: disconnect_total_def ConnectionOpened_def ReconnectRequested_def StreamError_def
      EventDelivered_def recordRequest_def Let_def)

lemma gauge_init [etos_inv]: "gauge_ok NewSSEMetrics"
  by (simp add: gauge_ok_def NewSSEMetrics_def disconnect_total_def close_reasons_def)

lemma gauge_ops [etos_inv]:
  "gauge_ok m \<Longrightarrow> gauge_ok (ConnectionOpened m)"
  "gauge_ok m \<Longrightarrow> gauge_ok (ConnectionClosedWithReason r m)"
  "gauge_ok m \<Longrightarrow> gauge_ok (ReconnectRequested m)"
  "gauge_ok m \<Longrightarrow> gauge_ok (StreamError c m)"
  "gauge_ok m \<Longrightarrow> gauge_ok (EventDelivered e m)"
  "gauge_ok m \<Longrightarrow> gauge_ok (recordRequest rt me sc oc m)"
  using disconnect_total_closed [of r m]
  by (simp_all add: gauge_ok_def) (simp_all add: ConnectionOpened_def ConnectionClosedWithReason_def
      ReconnectRequested_def StreamError_def EventDelivered_def recordRequest_def Let_def)

subsection \<open>The response recorder\<close>

record recorder =
  rec_writer :: http_writer
  rec_status :: int
  rec_wrote :: bool

definition new_recorder :: "http_writer \<Rightarrow> recorder" where
  "new_recorder w = \<lparr>rec_writer = w, rec_status = 200, rec_wrote = False\<rparr>"

definition rec_WriteHeader :: "int \<Rightarrow> recorder \<Rightarrow> recorder" where
  "rec_WriteHeader status r =
     (if rec_wrote r then r
      else r\<lparr>rec_status := status, rec_wrote := True, rec_writer := write_header status (rec_writer r)\<rparr>)"

definition rec_Write :: "string \<Rightarrow> recorder \<Rightarrow> recorder" where
  "rec_Write p r =
     (let r' = (if rec_wrote r then r else rec_WriteHeader 200 r)
      in r'\<lparr>rec_writer := write_body p (rec_writer r')\<rparr>)"

definition rec_Flush :: "recorder \<Rightarrow> recorder" where
  "rec_Flush r = (if rec_wrote r then r else rec_WriteHeader 200 r)"

definition rec_Header_Set :: "string \<Rightarrow> string \<Rightarrow> recorder \<Rightarrow> recorder" where
  "rec_Header_Set k v r = r\<lparr>rec_writer := set_header k v (rec_writer r)\<rparr>"

text \<open>What the recorder says and what went to the client agree.\<close>

definition rec_ok :: "recorder \<Rightarrow> bool" where
  "rec_ok r =
     (case w_status (rec_writer r) of
        None \<Rightarrow> \<not> rec_wrote r \<and> rec_status r = 200
      | Some c \<Rightarrow> rec_wrote r \<and> rec_status r = c)"

lemma rec_ok_new [etos_inv]: "w_status w = None \<Longrightarrow> rec_ok (new_recorder w)"
  by (simp add: rec_ok_def new_recorder_def)

lemma rec_ok_ops [etos_inv]:
  "rec_ok r \<Longrightarrow> rec_ok (rec_WriteHeader c r)"
  "rec_ok r \<Longrightarrow> rec_ok (rec_Write p r)"
  "rec_ok r \<Longrightarrow> rec_ok (rec_Flush r)"
  "rec_ok r \<Longrightarrow> rec_ok (rec_Header_Set k v r)"
  by (auto simp: rec_ok_def rec_WriteHeader_def rec_Write_def rec_Flush_def rec_Header_Set_def Let_def
      split: option.splits)

text \<open>The recorder is transparent: underneath, each operation is the plain writer's own.\<close>

lemma rec_transparent:
  "rec_ok r \<Longrightarrow> rec_writer (rec_WriteHeader c r) = write_header c (rec_writer r)"
  "rec_ok r \<Longrightarrow> rec_writer (rec_Write p r) = write_body p (rec_writer r)"
  "rec_writer (rec_Header_Set k v r) = set_header k v (rec_writer r)"
  by (auto simp: rec_ok_def rec_WriteHeader_def rec_Write_def rec_Header_Set_def Let_def
      write_header_def write_body_def split: option.splits)

text \<open>On consistent recorders the recorder is a response writer in its own right.\<close>

definition rec_status_of :: "recorder \<Rightarrow> int option" where
  "rec_status_of r = (if rec_wrote r then Some (rec_status r) else None)"

lemma rec_status_of_eq: "rec_ok r \<Longrightarrow> rec_status_of r = w_status (rec_writer r)"
  by (auto simp: rec_ok_def rec_status_of_def split: option.splits)

typedef good_recorder = "{r. rec_ok r}"
  by (rule exI [of _ "new_recorder new_writer"]) (simp add: rec_ok_new new_writer_def)

setup_lifting type_definition_good_recorder

lift_definition g_header :: "int \<Rightarrow> good_recorder \<Rightarrow> good_recorder" is rec_WriteHeader
  by (rule rec_ok_ops)

lift_definition g_write :: "string \<Rightarrow> good_recorder \<Rightarrow> good_recorder" is rec_Write
  by (rule rec_ok_ops)

lift_definition g_set :: "string \<Rightarrow> string \<Rightarrow> good_recorder \<Rightarrow> good_recorder" is rec_Header_Set
  by (rule rec_ok_ops)

lift_definition g_status :: "good_recorder \<Rightarrow> int option" is rec_status_of .

lift_definition g_body :: "good_recorder \<Rightarrow> string" is "\<lambda>r. w_body (rec_writer r)" .

interpretation recorder_writer: response_writer g_header g_write g_set g_status g_body
  by unfold_locales
     (transfer; simp add: rec_status_of_eq rec_ok_ops rec_transparent write_body_body split: option.splits)+

subsection \<open>Instrumented handlers\<close>

definition status_outcome :: "int \<Rightarrow> string" where
  "status_outcome s =
     (if s \<ge> 500 then ''server_error'' else if s \<ge> 400 then ''client_error'' else ''success'')"

definition status_class :: "int \<Rightarrow> string" where
  "status_class s = itoa (s div 100) @ ''xx''"

text \<open>
  \<open>Wrap\<close>: the handler runs on a recorder; the request is recorded when it returns.  A panic
  passes through unrecorded, since nothing is deferred.
\<close>

definition Wrap ::
  "string \<Rightarrow> string \<Rightarrow> (recorder \<times> sse_metrics \<Rightarrow> unit outcome \<times> recorder \<times> sse_metrics)
   \<Rightarrow> http_writer \<times> sse_metrics \<Rightarrow> unit outcome \<times> http_writer \<times> sse_metrics" where
  "Wrap route method handler wm =
     (case handler (new_recorder (fst wm), snd wm) of
        (Panicked p, r, m) \<Rightarrow> (Panicked p, rec_writer r, m)
      | (Returned _, r, m) \<Rightarrow>
          (Returned (), rec_writer r,
           recordRequest route method (status_class (rec_status r)) (status_outcome (rec_status r)) m))"

end
