(* ===== verification/Stream_Rabbit.thy ===== *)
theory Stream_Rabbit
  imports Stream_Iface
begin

text \<open>
  \<open>internal/stream/rabbitmq.go\<close>: the stream over a RabbitMQ consumer.  The client library is
  present as the steps it is documented to take: it sets its current offset before it runs the
  handler for a message, dispatches one message at a time, and, where a consumer filter is set,
  runs the handler only for messages the post-filter accepts.  The broker's log only grows.
\<close>

subsection \<open>Messages and filtering\<close>

text \<open>
  A value of \<open>ApplicationProperties\<close>: a string, or a value of another type with its
  \<open>%v\<close> rendering, which \<open>%s\<close> reports as \<open>%!s(type=value)\<close>.
\<close>

datatype prop_value = PStr string | POther string string

record broker_msg =
  b_offset :: int
  b_props :: "(string \<times> prop_value) list"
  b_data :: "bytes list"

definition fmt_s :: "prop_value option \<Rightarrow> string" where
  "fmt_s p =
     (case p of
        None \<Rightarrow> ''%!s(<nil>)''
      | Some (PStr s) \<Rightarrow> s
      | Some (POther t v) \<Rightarrow> ''%!s('' @ t @ ''='' @ v @ '')'')"

definition postFilter :: "string \<Rightarrow> string list \<Rightarrow> broker_msg \<Rightarrow> bool" where
  "postFilter ident flt b =
     (case map_of (b_props b) ''identifier'' of
        Some (PStr identifier) \<Rightarrow>
          if identifier \<noteq> ident then False
          else if length flt = 0 then True
          else (let eventType = map_of (b_props b) ''type'';
                    eventMeta = map_of (b_props b) ''meta'';
                    name = identifier @ ''.'' @ fmt_s eventType @ ''.'' @ fmt_s eventMeta
                in name \<in> set flt)
      | _ \<Rightarrow> False)"

text \<open>The message that \<open>handleMessage\<close> offers on the channel, if any.\<close>

definition handleMessage :: "string \<Rightarrow> string list \<Rightarrow> int \<Rightarrow> broker_msg \<Rightarrow> message option" where
  "handleMessage ident flt offset b =
     (if length flt = 0 \<and> \<not> postFilter ident flt b then None
      else if length (b_data b) = 0 then None
      else Some \<lparr>m_offset = offset, m_data = concat (b_data b)\<rparr>)"

text \<open>The library's dispatch: the post-filter guards the handler when \<open>WithFilter\<close> set one.\<close>

definition dispatch :: "string \<Rightarrow> string list \<Rightarrow> broker_msg \<Rightarrow> message option" where
  "dispatch ident flt b =
     (if length flt > 0 \<and> \<not> postFilter ident flt b then None
      else handleMessage ident flt (b_offset b) b)"

definition relevant :: "string \<Rightarrow> string list \<Rightarrow> broker_msg \<Rightarrow> bool" where
  "relevant ident flt b = (postFilter ident flt b \<and> b_data b \<noteq> [])"

definition to_message :: "broker_msg \<Rightarrow> message" where
  "to_message b = \<lparr>m_offset = b_offset b, m_data = concat (b_data b)\<rparr>"

lemma to_message_offset [simp]: "m_offset (to_message b) = b_offset b"
  by (simp add: to_message_def)

lemma dispatch_eq: "dispatch ident flt b = (if relevant ident flt b then Some (to_message b) else None)"
  by (auto simp: dispatch_def handleMessage_def relevant_def to_message_def)

subsection \<open>The stream\<close>

text \<open>
  \<open>rs_consumer\<close> is the library consumer's current offset, \<open>None\<close> before \<open>Consume\<close>;
  \<open>rs_next\<close> is the index in the log of the message it dispatches next and \<open>rs_offer\<close> the
  message its handler is blocked on.  \<open>rs_first\<close> records the offset specification.
\<close>

record rabbit_stream =
  rs_identifier :: string
  rs_filter :: "string list"
  rs_start :: int
  rs_first :: bool
  rs_consumer :: "int option"
  rs_log :: "broker_msg list"
  rs_next :: nat
  rs_offer :: "message option"

definition NewStream_rabbit :: "(gerror + bool) \<Rightarrow> string \<Rightarrow> broker_msg list \<Rightarrow> gerror + rabbit_stream" where
  "NewStream_rabbit exists name log =
     (case exists of
        Inl err \<Rightarrow> Inl err
      | Inr ex \<Rightarrow>
          if \<not> ex then Inl (Text ''no stream exists, cannot stream events'')
          else Inr \<lparr>rs_identifier = name, rs_filter = [], rs_start = 0, rs_first = True,
            rs_consumer = None, rs_log = log, rs_next = 0, rs_offer = None\<rparr>)"

definition WithOffset_rabbit :: "int \<Rightarrow> rabbit_stream \<Rightarrow> rabbit_stream" where
  "WithOffset_rabbit offset s =
     (if offset < 0 then s\<lparr>rs_start := 0, rs_first := True\<rparr>
      else s\<lparr>rs_start := offset, rs_first := False\<rparr>)"

definition WithFilter_rabbit :: "string list \<Rightarrow> rabbit_stream \<Rightarrow> rabbit_stream" where
  "WithFilter_rabbit flt s = s\<lparr>rs_filter := flt\<rparr>"

text \<open>
  \<open>Consume\<close>: the library creates a consumer at the offset specification, or fails.  Its
  initial offset \<open>c\<close> is whatever the library reports before the first message.
\<close>

definition Consume_rabbit :: "(gerror + int) \<Rightarrow> rabbit_stream \<Rightarrow> gerror + rabbit_stream" where
  "Consume_rabbit newConsumer s =
     (case newConsumer of
        Inl err \<Rightarrow> Inl err
      | Inr c \<Rightarrow> Inr (s\<lparr>rs_consumer := Some c,
          rs_next := (if rs_first s then 0
            else length (takeWhile (\<lambda>b. b_offset b < rs_start s) (rs_log s)))\<rparr>))"

definition FirstOffset_rabbit :: "(gerror + (gerror + int)) \<Rightarrow> gerror + int" where
  "FirstOffset_rabbit stats =
     (case stats of
        Inl err \<Rightarrow> Inl err
      | Inr (Inl err) \<Rightarrow> Inl (errors_join (Some err) ErrEmptyStream)
      | Inr (Inr first) \<Rightarrow> Inr first)"

definition Position_rabbit :: "rabbit_stream \<Rightarrow> int" where
  "Position_rabbit s =
     (case rs_consumer s of None \<Rightarrow> rs_start s | Some c \<Rightarrow> max (rs_start s) c)"

definition log_end :: "broker_msg list \<Rightarrow> int" where
  "log_end log = (if log = [] then 0 else b_offset (last log) + 1)"

inductive rabbit_internal :: "rabbit_stream \<Rightarrow> rabbit_stream \<Rightarrow> bool" where
  rabbit_publish:
    "log_end (rs_log s) \<le> b_offset b \<Longrightarrow>
     rabbit_internal s (s\<lparr>rs_log := rs_log s @ [b]\<rparr>)"
| rabbit_dispatch:
    "rs_consumer s = Some c \<Longrightarrow> rs_offer s = None \<Longrightarrow> rs_next s < length (rs_log s) \<Longrightarrow>
     b = rs_log s ! rs_next s \<Longrightarrow>
     rabbit_internal s (s\<lparr>rs_consumer := Some (b_offset b), rs_next := Suc (rs_next s),
       rs_offer := dispatch (rs_identifier s) (rs_filter s) b\<rparr>)"

inductive rabbit_handoff :: "rabbit_stream \<Rightarrow> message \<Rightarrow> rabbit_stream \<Rightarrow> bool" where
  rabbit_handoff: "rs_offer s = Some m \<Longrightarrow> rabbit_handoff s m (s\<lparr>rs_offer := None\<rparr>)"


inductive_simps rabbit_handoff_iff: "rabbit_handoff s m s'"
inductive_cases rabbit_internalE: "rabbit_internal s s'"

lemma rabbit_internal_cases:
  assumes "rabbit_internal s s'"
  obtains (publish) b where "log_end (rs_log s) \<le> b_offset b" "s' = s\<lparr>rs_log := rs_log s @ [b]\<rparr>"
  | (dispatch) c b where "rs_consumer s = Some c" "rs_offer s = None" "rs_next s < length (rs_log s)"
      "b = rs_log s ! rs_next s"
      "s' = s\<lparr>rs_consumer := Some (b_offset b), rs_next := Suc (rs_next s),
         rs_offer := dispatch (rs_identifier s) (rs_filter s) b\<rparr>"
  using assms by (elim rabbit_internalE) blast+

subsection \<open>RabbitMQStream is a stream source\<close>

definition rabbit_relevant :: "rabbit_stream \<Rightarrow> broker_msg list \<Rightarrow> message list" where
  "rabbit_relevant s bs = map to_message (filter (relevant (rs_identifier s) (rs_filter s)) bs)"

definition rabbit_log :: "rabbit_stream \<Rightarrow> message list" where
  "rabbit_log s = rabbit_relevant s (rs_log s)"

definition rabbit_pending :: "rabbit_stream \<Rightarrow> message list" where
  "rabbit_pending s =
     (case rs_offer s of None \<Rightarrow> [] | Some m \<Rightarrow> [m]) @ rabbit_relevant s (drop (rs_next s) (rs_log s))"

definition broker_log_ok :: "broker_msg list \<Rightarrow> bool" where
  "broker_log_ok log =
     (sorted_wrt (\<lambda>a b. b_offset a < b_offset b) log \<and> (\<forall>b \<in> set log. 0 \<le> b_offset b))"

definition rabbit_started :: "rabbit_stream \<Rightarrow> bool" where
  "rabbit_started s =
     (broker_log_ok (rs_log s) \<and> rs_offer s = None
      \<and> (\<exists>c. rs_consumer s = Some c \<and> c \<le> rs_start s)
      \<and> rs_start s \<le> log_end (rs_log s)
      \<and> rs_next s = length (takeWhile (\<lambda>b. b_offset b < rs_start s) (rs_log s)))"

definition rabbit_ok :: "rabbit_stream \<Rightarrow> bool" where
  "rabbit_ok s =
     (broker_log_ok (rs_log s) \<and> rs_start s \<le> log_end (rs_log s)
      \<and> rs_next s \<le> length (rs_log s)
      \<and> (\<exists>c. rs_consumer s = Some c \<and> c \<le> log_end (rs_log s)
          \<and> (\<forall>b \<in> set (drop (rs_next s) (rs_log s)). rs_start s \<le> b_offset b \<and> c \<le> b_offset b)
          \<and> (\<forall>m. rs_offer s = Some m \<longrightarrow> m_offset m = c \<and> rs_start s \<le> c)))"

lemma broker_log_snoc:
  "broker_log_ok log \<Longrightarrow> log_end log \<le> b_offset b \<Longrightarrow> broker_log_ok (log @ [b])"
proof (cases log rule: rev_cases)
  case (snoc ys y)
  moreover assume "broker_log_ok log" "log_end log \<le> b_offset b"
  ultimately show ?thesis
    by (fastforce simp: broker_log_ok_def log_end_def sorted_wrt_append)
qed (auto simp: broker_log_ok_def log_end_def)

lemma broker_log_end: "broker_log_ok log \<Longrightarrow> b \<in> set log \<Longrightarrow> b_offset b < log_end log"
  by (cases log rule: rev_cases) (auto simp: broker_log_ok_def log_end_def sorted_wrt_append)

lemma broker_log_end_nonneg: "broker_log_ok log \<Longrightarrow> 0 \<le> log_end log"
  by (cases log rule: rev_cases) (auto simp: broker_log_ok_def log_end_def)

lemma rabbit_started_next:
  assumes "broker_log_ok log"
  shows "drop (length (takeWhile (\<lambda>b. b_offset b < n) log)) log = filter (\<lambda>b. n \<le> b_offset b) log"
  using assms
proof (induction log)
  case (Cons b log)
  have log: "broker_log_ok log" "\<forall>x \<in> set log. b_offset b < b_offset x"
    using Cons.prems by (auto simp: broker_log_ok_def)
  show ?case
  proof (cases "b_offset b < n")
    case True
    with Cons.IH [OF log(1)] show ?thesis by simp
  next
    case False
    then have "\<forall>x \<in> set (b # log). n \<le> b_offset x" using log(2) by force
    then have "filter (\<lambda>b. n \<le> b_offset b) (b # log) = b # log" by (intro filter_True) blast
    with False show ?thesis by simp
  qed
qed simp

lemma rabbit_relevant_append [simp]:
  "rabbit_relevant s (a @ b) = rabbit_relevant s a @ rabbit_relevant s b"
  by (simp add: rabbit_relevant_def)

lemma rabbit_relevant_offsets:
  "m \<in> set (rabbit_relevant s bs) \<Longrightarrow> \<exists>b \<in> set bs. m_offset m = b_offset b"
  by (auto simp: rabbit_relevant_def)

lemma rabbit_log_increases: "broker_log_ok bs \<Longrightarrow> offsets_increase (rabbit_relevant s bs)"
  by (auto simp: offsets_increase_def rabbit_relevant_def sorted_wrt_map broker_log_ok_def
      intro: sorted_wrt_filter)

lemma from_offset_relevant:
  "from_offset n (rabbit_relevant s bs) = rabbit_relevant s (filter (\<lambda>b. n \<le> b_offset b) bs)"
  by (induction bs) (auto simp: from_offset_def rabbit_relevant_def)

lemma rabbit_started_ok: "rabbit_started s \<Longrightarrow> rabbit_ok s"
proof -
  assume s: "rabbit_started s"
  then have "drop (rs_next s) (rs_log s) = filter (\<lambda>b. rs_start s \<le> b_offset b) (rs_log s)"
    using rabbit_started_next by (simp add: rabbit_started_def)
  then show ?thesis using s
    by (auto simp: rabbit_started_def rabbit_ok_def length_takeWhile_le)
qed

lemma rabbit_internal_ok:
  assumes ok: "rabbit_ok s" and step: "rabbit_internal s s'"
  shows "rabbit_ok s'"
  using step
proof (cases rule: rabbit_internal_cases)
  case (publish b)
  from ok have "broker_log_ok (rs_log s @ [b])"
    by (intro broker_log_snoc) (auto simp: rabbit_ok_def publish)
  with ok publish show ?thesis by (fastforce simp: rabbit_ok_def log_end_def split: if_splits)
next
  case (dispatch c b)
  let ?n = "rs_next s"
  from dispatch have d: "drop ?n (rs_log s) = b # drop (Suc ?n) (rs_log s)"
    using Cons_nth_drop_Suc [of ?n "rs_log s"] by simp
  have "b \<in> set (rs_log s)" using dispatch by simp
  then have "b_offset b \<le> log_end (rs_log s)"
    using ok broker_log_end by (fastforce simp: rabbit_ok_def)
  moreover have "\<forall>x \<in> set (drop (Suc ?n) (rs_log s)). b_offset b \<le> b_offset x"
  proof -
    have "sorted_wrt (\<lambda>a b. b_offset a < b_offset b) (drop ?n (rs_log s))"
      using ok by (simp add: rabbit_ok_def broker_log_ok_def sorted_wrt_drop)
    then show ?thesis by (auto simp: d)
  qed
  moreover have "m_offset m = b_offset b"
    if "dispatch (rs_identifier s) (rs_filter s) b = Some m" for m
    using that by (auto simp: dispatch_eq split: if_splits)
  ultimately show ?thesis using ok dispatch d by (auto simp: rabbit_ok_def)
qed

lemma rabbit_internal_log:
  assumes ok: "rabbit_ok s" and step: "rabbit_internal s s'"
  shows "\<exists>new. rabbit_log s' = rabbit_log s @ new
    \<and> rabbit_pending s' = rabbit_pending s @ from_offset (rs_start s) new"
  using step
proof (cases rule: rabbit_internal_cases)
  case (publish b)
  let ?new = "rabbit_relevant s [b]"
  have "rs_start s \<le> b_offset b" using ok publish by (auto simp: rabbit_ok_def)
  then have "from_offset (rs_start s) ?new = ?new"
    by (auto simp: from_offset_relevant)
  moreover have "rs_next s \<le> length (rs_log s)" using ok by (simp add: rabbit_ok_def)
  ultimately show ?thesis
    by (intro exI [of _ ?new])
       (simp add: publish rabbit_log_def rabbit_pending_def rabbit_relevant_def)
next
  case (dispatch c b)
  from dispatch have "drop (rs_next s) (rs_log s) = b # drop (Suc (rs_next s)) (rs_log s)"
    using Cons_nth_drop_Suc [of "rs_next s" "rs_log s"] by simp
  with dispatch show ?thesis
    by (intro exI [of _ "[]"])
       (auto simp: rabbit_log_def rabbit_pending_def rabbit_relevant_def dispatch_eq from_offset_def)
qed

lemma rabbit_position_pending:
  assumes "rabbit_ok s" "m \<in> set (rabbit_pending s)"
  shows "Position_rabbit s \<le> m_offset m"
  using assms
  by (cases "rs_offer s")
     (auto simp: rabbit_ok_def rabbit_pending_def Position_rabbit_def dest!: rabbit_relevant_offsets)

lemma rabbit_position_internal:
  assumes "rabbit_ok s" "rabbit_internal s s'"
  shows "Position_rabbit s \<le> Position_rabbit s'"
  using assms(2)
proof (cases rule: rabbit_internal_cases)
  case (dispatch c b)
  then have "b \<in> set (drop (rs_next s) (rs_log s))"
    using Cons_nth_drop_Suc [of "rs_next s" "rs_log s", symmetric] by simp
  with assms(1) dispatch show ?thesis by (auto simp: rabbit_ok_def Position_rabbit_def)
qed (simp add: Position_rabbit_def split: option.splits)

interpretation rabbit: stream_source rabbit_started rabbit_internal rabbit_handoff rs_start
  Position_rabbit rabbit_log rabbit_pending rabbit_ok
proof (unfold_locales, goal_cases)
  case (1 s) then show ?case by (rule rabbit_started_ok)
next
  case (2 s s') then show ?case by (rule rabbit_internal_ok)
next
  case (3 s m s') then show ?case by (auto simp: rabbit_handoff_iff rabbit_ok_def)
next
  case (4 s)
  then show ?case
    by (simp add: rabbit_started_def rabbit_pending_def rabbit_log_def rabbit_started_next from_offset_relevant)
next
  case (5 s s') then show ?case by (rule rabbit_internal_log)
next
  case (6 s m s') then show ?case by (auto simp: rabbit_handoff_iff rabbit_log_def rabbit_relevant_def)
next
  case (7 s m s') then show ?case by (auto simp: rabbit_handoff_iff rabbit_pending_def rabbit_relevant_def)
next
  case (8 s s') then show ?case by (auto elim: rabbit_internal_cases)
next
  case (9 s m s') then show ?case by (auto simp: rabbit_handoff_iff)
next
  case (10 s) then show ?case by (simp add: rabbit_ok_def rabbit_log_def rabbit_log_increases)
next
  case (11 s m)
  then show ?case by (auto simp: rabbit_ok_def rabbit_log_def broker_log_ok_def dest!: rabbit_relevant_offsets)
next
  case (12 s m) then show ?case by (rule rabbit_position_pending)
next
  case (13 s s') then show ?case by (rule rabbit_position_internal)
next
  case (14 s m s') then show ?case by (auto simp: rabbit_handoff_iff Position_rabbit_def split: option.splits)
qed


text \<open>The operations that \<open>subscribe\<close> chains produce a started stream.\<close>

lemma Consume_rabbit_started:
  assumes "NewStream_rabbit (Inr True) ident log = Inr s0"
    and "Consume_rabbit (Inr c) (WithFilter_rabbit flt (WithOffset_rabbit offset s0)) = Inr s"
    and "broker_log_ok log" "offset \<le> log_end log" "c \<le> max 0 offset"
  shows "rabbit_started s \<and> rs_start s = max 0 offset \<and> rs_log s = log
    \<and> rs_filter s = flt \<and> rs_identifier s = ident"
proof -
  have "takeWhile (\<lambda>b. b_offset b < 0) log = []"
    using assms(3) by (cases log) (auto simp: broker_log_ok_def)
  with assms broker_log_end_nonneg [of log] show ?thesis
    by (auto simp: NewStream_rabbit_def Consume_rabbit_def WithFilter_rabbit_def WithOffset_rabbit_def
        rabbit_started_def split: if_splits)
qed

end
