(* ===== verification/Stream_File.thy ===== *)
theory Stream_File
  imports Stream_Iface
begin

text \<open>
  \<open>internal/stream/file.go\<close>: the stream over the lines of a file.  The offset of a message is
  its line number.  A file system is a finite map from names to the lines written so far;
  \<open>ReadLine\<close> returns one line at a tick, or end of file, which the consumer ignores.
\<close>

type_synonym file_system = "(string \<times> bytes list) list"

text \<open>
  \<open>fs_reads\<close> counts the lines read (the local \<open>offset\<close>), \<open>fs_offer\<close> is the message
  the goroutine is blocked on and \<open>fs_store\<close> the position it stores next.
\<close>

record file_stream =
  fs_name :: string
  fs_start :: int
  fs_position :: int
  fs_channel :: bool
  fs_lines :: "bytes list"
  fs_reads :: nat
  fs_offer :: "message option"
  fs_store :: "int option"
  fs_logged :: "bytes list"

definition CreateStream_file :: "string \<Rightarrow> file_system \<Rightarrow> file_system" where
  "CreateStream_file name fsys = (name, []) # filter (\<lambda>f. fst f \<noteq> name) fsys"

definition NewStream_file :: "string \<Rightarrow> file_system \<Rightarrow> gerror + file_stream" where
  "NewStream_file name fsys =
     (case map_of fsys name of
        None \<Rightarrow> Inl (Text (''open '' @ name @ '': no such file or directory''))
      | Some ls \<Rightarrow> Inr \<lparr>fs_name = name, fs_start = 0, fs_position = 0, fs_channel = False,
          fs_lines = ls, fs_reads = 0, fs_offer = None, fs_store = None, fs_logged = []\<rparr>)"

definition WithChannel_file :: "file_stream \<Rightarrow> file_stream" where
  "WithChannel_file s = s\<lparr>fs_channel := True\<rparr>"

definition WithOffset_file :: "int \<Rightarrow> file_stream \<Rightarrow> file_stream" where
  "WithOffset_file offset s = s\<lparr>fs_start := max offset 0, fs_position := max offset 0\<rparr>"

definition WithFilter_file :: "string list \<Rightarrow> file_stream \<Rightarrow> file_stream" where
  "WithFilter_file flt s = s"

definition FirstOffset_file :: "string \<Rightarrow> file_system \<Rightarrow> gerror + int" where
  "FirstOffset_file name fsys =
     (case map_of fsys name of
        None \<Rightarrow> Inl (Text (''stat '' @ name @ '': no such file or directory''))
      | Some ls \<Rightarrow> if ls = [] then Inl ErrEmptyStream else Inr 0)"

definition Position_file :: "file_stream \<Rightarrow> int" where
  "Position_file s = fs_position s"

text \<open>
  One pass of the consumer's loop after a tick: end of file, a line below the start offset, a
  line offered on the channel, or (without a channel) a line logged.
\<close>

definition tick_file :: "file_stream \<Rightarrow> file_stream" where
  "tick_file s =
     (if length (fs_lines s) \<le> fs_reads s then s
      else (let event = fs_lines s ! fs_reads s;
                offset = int (fs_reads s) + 1;
                s' = s\<lparr>fs_reads := Suc (fs_reads s)\<rparr>
            in if offset - 1 < fs_start s then s'
               else if fs_channel s then s'\<lparr>fs_offer := Some \<lparr>m_offset = offset - 1, m_data = event\<rparr>\<rparr>
               else s'\<lparr>fs_logged := fs_logged s @ [event], fs_position := offset\<rparr>))"

inductive file_internal :: "file_stream \<Rightarrow> file_stream \<Rightarrow> bool" where
  file_append: "file_internal s (s\<lparr>fs_lines := fs_lines s @ [l]\<rparr>)"
| file_tick: "fs_offer s = None \<Longrightarrow> fs_store s = None \<Longrightarrow> file_internal s (tick_file s)"
| file_store: "fs_store s = Some p \<Longrightarrow> file_internal s (s\<lparr>fs_position := p, fs_store := None\<rparr>)"

inductive file_handoff :: "file_stream \<Rightarrow> message \<Rightarrow> file_stream \<Rightarrow> bool" where
  file_handoff:
    "fs_offer s = Some m \<Longrightarrow>
     file_handoff s m (s\<lparr>fs_offer := None, fs_store := Some (m_offset m + 1)\<rparr>)"

inductive_simps file_handoff_iff: "file_handoff s m s'"
inductive_cases file_internalE: "file_internal s s'"

subsection \<open>FileStream is a stream source\<close>

definition line_messages :: "nat \<Rightarrow> bytes list \<Rightarrow> message list" where
  "line_messages k ls = map (\<lambda>(i, l). \<lparr>m_offset = int i, m_data = l\<rparr>) (enumerate k ls)"

definition file_log :: "file_stream \<Rightarrow> message list" where
  "file_log s = line_messages 0 (fs_lines s)"

definition file_pending :: "file_stream \<Rightarrow> message list" where
  "file_pending s =
     (case fs_offer s of None \<Rightarrow> [] | Some m \<Rightarrow> [m])
     @ from_offset (fs_start s) (line_messages (fs_reads s) (drop (fs_reads s) (fs_lines s)))"

definition file_started :: "file_stream \<Rightarrow> bool" where
  "file_started s =
     (fs_channel s \<and> fs_reads s = 0 \<and> fs_offer s = None \<and> fs_store s = None
      \<and> 0 \<le> fs_start s \<and> fs_position s = fs_start s)"

definition file_ok :: "file_stream \<Rightarrow> bool" where
  "file_ok s =
     (fs_channel s \<and> fs_reads s \<le> length (fs_lines s) \<and> 0 \<le> fs_start s
      \<and> (fs_position s \<le> fs_start s \<or> fs_position s \<le> int (fs_reads s))
      \<and> (\<forall>m. fs_offer s = Some m \<longrightarrow>
            m_offset m + 1 = int (fs_reads s) \<and> fs_start s \<le> m_offset m
            \<and> fs_position s \<le> m_offset m \<and> fs_store s = None)
      \<and> (\<forall>p. fs_store s = Some p \<longrightarrow> p = int (fs_reads s) \<and> fs_position s \<le> p))"


lemma line_messages_simps [simp]:
  "line_messages k [] = []"
  "line_messages k (l # ls) = \<lparr>m_offset = int k, m_data = l\<rparr> # line_messages (Suc k) ls"
  by (simp_all add: line_messages_def)

lemma line_messages_append [simp]:
  "line_messages k (xs @ ys) = line_messages k xs @ line_messages (k + length xs) ys"
  by (induction xs arbitrary: k) auto

lemma line_messages_offset: "m \<in> set (line_messages k ls) \<Longrightarrow> int k \<le> m_offset m"
  by (induction ls arbitrary: k) fastforce+

lemma line_messages_increase: "offsets_increase (line_messages k ls)"
proof (induction ls arbitrary: k)
  case (Cons l ls)
  then show ?case
    using line_messages_offset [of _ "Suc k" ls] by (force simp: offsets_increase_def)
qed (simp add: offsets_increase_def)

lemma tick_file_next:
  "fs_reads s < length (fs_lines s) \<Longrightarrow>
   drop (fs_reads s) (fs_lines s) = fs_lines s ! fs_reads s # drop (Suc (fs_reads s)) (fs_lines s)"
  by (simp add: Cons_nth_drop_Suc)

lemma file_internal_cases:
  assumes "file_internal s s'"
  obtains (append) l where "s' = s\<lparr>fs_lines := fs_lines s @ [l]\<rparr>"
  | (tick) "fs_offer s = None" "fs_store s = None" "s' = tick_file s"
  | (store) p where "fs_store s = Some p" "s' = s\<lparr>fs_position := p, fs_store := None\<rparr>"
  using assms by (elim file_internalE) blast+

lemma file_started_ok: "file_started s \<Longrightarrow> file_ok s"
  by (simp add: file_started_def file_ok_def)

lemma file_internal_ok: "file_ok s \<Longrightarrow> file_internal s s' \<Longrightarrow> file_ok s'"
  by (erule file_internal_cases) (auto simp: file_ok_def tick_file_def Let_def)

lemma file_handoff_ok: "file_ok s \<Longrightarrow> file_handoff s m s' \<Longrightarrow> file_ok s'"
  by (auto simp: file_handoff_iff file_ok_def)

lemma file_internal_log:
  assumes "file_ok s" "file_internal s s'"
  shows "\<exists>new. file_log s' = file_log s @ new
    \<and> file_pending s' = file_pending s @ from_offset (fs_start s) new"
  using assms(2)
proof (cases rule: file_internal_cases)
  case (append l)
  then show ?thesis using assms(1)
    by (intro exI [of _ "line_messages (length (fs_lines s)) [l]"])
       (simp add: file_log_def file_pending_def file_ok_def)
next
  case tick
  then show ?thesis using assms(1)
    by (intro exI [of _ "[]"])
       (auto simp: file_log_def file_pending_def file_ok_def tick_file_def Let_def tick_file_next
         from_offset_def split: option.splits)
next
  case (store p)
  then show ?thesis
    by (intro exI [of _ "[]"]) (simp add: file_log_def file_pending_def from_offset_def)
qed

lemma file_position_pending:
  assumes "file_ok s" "m \<in> set (file_pending s)"
  shows "Position_file s \<le> m_offset m"
  using assms
  by (cases "fs_offer s")
     (force simp: file_ok_def file_pending_def Position_file_def from_offset_def
       dest!: line_messages_offset)+

lemma file_position_internal: "file_ok s \<Longrightarrow> file_internal s s' \<Longrightarrow> Position_file s \<le> Position_file s'"
  by (erule file_internal_cases) (auto simp: file_ok_def Position_file_def tick_file_def Let_def)

interpretation file_stream: stream_source file_started file_internal file_handoff fs_start
  Position_file file_log file_pending file_ok
proof (unfold_locales, goal_cases)
  case (1 s) then show ?case by (rule file_started_ok)
next
  case (2 s s') then show ?case by (rule file_internal_ok)
next
  case (3 s m s') then show ?case by (rule file_handoff_ok)
next
  case (4 s) then show ?case by (simp add: file_started_def file_pending_def file_log_def)
next
  case (5 s s') then show ?case by (rule file_internal_log)
next
  case (6 s m s') then show ?case by (auto simp: file_handoff_iff file_log_def)
next
  case (7 s m s') then show ?case by (auto simp: file_handoff_iff file_pending_def)
next
  case (8 s s') then show ?case by (erule_tac file_internal_cases) (auto simp: tick_file_def Let_def)
next
  case (9 s m s') then show ?case by (auto simp: file_handoff_iff)
next
  case (10 s) then show ?case by (simp add: file_log_def line_messages_increase)
next
  case (11 s m) then show ?case using line_messages_offset [of m 0] by (simp add: file_log_def)
next
  case (12 s m) then show ?case by (rule file_position_pending)
next
  case (13 s s') then show ?case by (rule file_position_internal)
next
  case (14 s m s') then show ?case by (auto simp: file_handoff_iff Position_file_def)
qed

text \<open>The operations that \<open>subscribe\<close> chains produce a started stream.\<close>

lemma Consume_file_started:
  assumes "NewStream_file name fsys = Inr s0"
  shows "file_started (WithFilter_file flt (WithOffset_file offset (WithChannel_file s0)))"
  using assms
  by (auto simp: NewStream_file_def WithFilter_file_def WithOffset_file_def WithChannel_file_def
      file_started_def split: option.splits)

end
