(* ===== verification/Sse_Delivery.thy ===== *)
theory Sse_Delivery
  imports Sse_V2alpha Stream_Rabbit Stream_File
begin

text \<open>
  What one connection of \<open>pkg/sse/v2alpha/sse.go\<close> delivers, and what a client that reconnects
  with its \<open>Last-Event-ID\<close> has received in total.  The invariant is proved step by step on the
  subscriber, carried along a run for any \<open>stream_source\<close>, and then read off for the two
  streams of \<open>internal/stream\<close>.
\<close>


lemma delivered_simps [simp]:
  "delivered [] = []"
  "delivered (xs @ ys) = delivered xs @ delivered ys"
  "delivered ((e, None) # xs) = delivered xs"
  "delivered ((e, Some m) # xs) = m # delivered xs"
  by (simp_all add: delivered_def)

lemma ids_simps [simp]:
  "ids [] = []"
  "ids (xs @ ys) = ids xs @ ids ys"
  "ids (x # xs) = (if ev_id (fst x) \<noteq> 0 then ev_id (fst x) # ids xs else ids xs)"
  by (simp_all add: ids_def)

subsection \<open>The invariant of a connection\<close>

text \<open>
  \<open>d\<close> are the messages handed over so far, \<open>pend\<close> those still to come.  A checkpoint is
  an event with an ID: everything acceptable below that ID, and nothing else, was sent up to it.
\<close>

definition checkpoints :: "(message \<Rightarrow> bool) \<Rightarrow> message list \<Rightarrow> (event \<times> message option) list \<Rightarrow> bool" where
  "checkpoints acc ms out =
     (\<forall>pre x post. out = pre @ x # post \<longrightarrow> ev_id (fst x) \<noteq> 0 \<longrightarrow>
        delivered (pre @ [x]) = filter acc (below_offset (ev_id (fst x)) ms))"

definition conn_inv ::
  "(message \<Rightarrow> bool) \<Rightarrow> int \<Rightarrow> int \<Rightarrow> int \<Rightarrow> message list \<Rightarrow> message list \<Rightarrow> message list \<Rightarrow> subscriber \<Rightarrow> bool" where
  "conn_inv acc l0 st pos ms d pend b =
     (ms = d @ pend \<and> offsets_increase ms
      \<and> (\<forall>m \<in> set ms. 0 \<le> m_offset m \<and> st \<le> m_offset m)
      \<and> (\<forall>m \<in> set pend. pos \<le> m_offset m)
      \<and> 0 \<le> l0 \<and> l0 \<le> st
      \<and> checkpoints acc ms (sub_out b)
      \<and> (\<forall>x \<in> set (sub_out b). snd x \<noteq> None \<longrightarrow> ev_id (fst x) \<noteq> 0)
      \<and> (\<forall>i \<in> set (ids (sub_out b)). i \<le> pos \<or> (\<exists>m \<in> set d. i = m_offset m + 1))
      \<and> sorted_wrt (<) (l0 # ids (sub_out b))
      \<and> prefix (delivered (sub_out b)) (filter acc d)
      \<and> (\<not> sub_done b \<longrightarrow>
           delivered (sub_out b) = filter acc d
           \<and> (\<forall>m \<in> set d. acc m \<longrightarrow> m_offset m < sub_lastID b)
           \<and> (\<forall>i \<in> set (l0 # ids (sub_out b)). i \<le> sub_lastID b)
           \<and> (sub_lastID b \<le> st \<or> sub_lastID b \<le> pos \<or> (\<exists>m \<in> set d. sub_lastID b = m_offset m + 1))))"

lemma checkpoints_snoc:
  "checkpoints acc ms (out @ [x]) =
     (checkpoints acc ms out \<and>
      (ev_id (fst x) \<noteq> 0 \<longrightarrow> delivered (out @ [x]) = filter acc (below_offset (ev_id (fst x)) ms)))"
proof
  assume all: "checkpoints acc ms (out @ [x])"
  have "checkpoints acc ms out"
    unfolding checkpoints_def
  proof (intro allI impI)
    fix pre y post assume "out = pre @ y # post" "ev_id (fst y) \<noteq> 0"
    then have "out @ [x] = pre @ y # (post @ [x])" "ev_id (fst y) \<noteq> 0" by simp_all
    then show "delivered (pre @ [y]) = filter acc (below_offset (ev_id (fst y)) ms)"
      using all unfolding checkpoints_def by blast
  qed
  moreover have "ev_id (fst x) \<noteq> 0 \<longrightarrow> delivered (out @ [x]) = filter acc (below_offset (ev_id (fst x)) ms)"
    using all unfolding checkpoints_def by blast
  ultimately show "checkpoints acc ms out \<and>
      (ev_id (fst x) \<noteq> 0 \<longrightarrow> delivered (out @ [x]) = filter acc (below_offset (ev_id (fst x)) ms))" ..
next
  assume a: "checkpoints acc ms out \<and>
      (ev_id (fst x) \<noteq> 0 \<longrightarrow> delivered (out @ [x]) = filter acc (below_offset (ev_id (fst x)) ms))"
  show "checkpoints acc ms (out @ [x])"
    unfolding checkpoints_def
  proof (intro allI impI)
    fix pre y post assume o: "out @ [x] = pre @ y # post" "ev_id (fst y) \<noteq> 0"
    show "delivered (pre @ [y]) = filter acc (below_offset (ev_id (fst y)) ms)"
    proof (cases post rule: rev_cases)
      case Nil
      with o a show ?thesis by simp
    next
      case (snoc post' z)
      with o have "out = pre @ y # post'" by simp
      with a o(2) show ?thesis unfolding checkpoints_def by blast
    qed
  qed
qed

lemma checkpoints_grow:
  assumes "checkpoints acc ms out" "\<And>i m. i \<in> set (ids out) \<Longrightarrow> m \<in> set new \<Longrightarrow> i \<le> m_offset m"
  shows "checkpoints acc (ms @ new) out"
  unfolding checkpoints_def
proof (intro allI impI)
  fix pre x post
  assume o: "out = pre @ x # post" "ev_id (fst x) \<noteq> 0"
  then have "ev_id (fst x) \<in> set (ids out)" by simp
  then have "below_offset (ev_id (fst x)) new = []"
    using assms(2) by (intro below_offset_none) blast
  moreover have "delivered (pre @ [x]) = filter acc (below_offset (ev_id (fst x)) ms)"
    using assms(1) o unfolding checkpoints_def by blast
  ultimately show "delivered (pre @ [x]) = filter acc (below_offset (ev_id (fst x)) (ms @ new))"
    by simp
qed

lemma conn_inv_bounds:
  assumes "conn_inv acc l0 st pos ms d pend b" "m \<in> set pend"
  shows "\<forall>i \<in> set (ids (sub_out b)). i \<le> m_offset m"
    and "\<not> sub_done b \<Longrightarrow> sub_lastID b \<le> m_offset m"
proof -
  have "\<forall>x \<in> set d. m_offset x < m_offset m" "pos \<le> m_offset m" "st \<le> m_offset m"
    using assms by (auto simp: conn_inv_def offsets_increase_append)
  then show "\<forall>i \<in> set (ids (sub_out b)). i \<le> m_offset m"
    and "\<not> sub_done b \<Longrightarrow> sub_lastID b \<le> m_offset m"
    using assms(1) by (force simp: conn_inv_def)+
qed

lemma offsets_increase_Cons:
  "offsets_increase (m # ms) = ((\<forall>x \<in> set ms. m_offset m < m_offset x) \<and> offsets_increase ms)"
  by (simp add: offsets_increase_def)

text \<open>The stream moving on.\<close>

lemma conn_inv_source:
  assumes inv: "conn_inv acc l0 st pos ms d pend b"
    and "pos \<le> pos'" "offsets_increase (ms @ new)"
    and "\<forall>m \<in> set (ms @ new). 0 \<le> m_offset m \<and> st \<le> m_offset m"
    and "\<forall>m \<in> set (pend @ new). pos' \<le> m_offset m"
  shows "conn_inv acc l0 st pos' (ms @ new) d (pend @ new) b"
proof -
  have "i \<le> m_offset m" if "i \<in> set (ids (sub_out b))" "m \<in> set new" for i m
  proof -
    have "m_offset x < m_offset m" if "x \<in> set d" for x
      using assms(3) inv that \<open>m \<in> set new\<close> by (auto simp: conn_inv_def offsets_increase_append)
    moreover have "pos \<le> m_offset m" using assms(2,5) that by force
    ultimately show ?thesis using inv that by (force simp: conn_inv_def)
  qed
  moreover have "checkpoints acc ms (sub_out b)" using inv unfolding conn_inv_def by blast
  ultimately have "checkpoints acc (ms @ new) (sub_out b)" by (intro checkpoints_grow)
  with assms show ?thesis by (fastforce simp: conn_inv_def)
qed

lemma conn_inv_done:
  "conn_inv acc l0 st pos ms d pend b \<Longrightarrow> conn_inv acc l0 st pos ms d pend (b\<lparr>sub_done := True\<rparr>)"
  by (clarsimp simp: conn_inv_def)

lemma conn_inv_silent:
  "conn_inv acc l0 st pos ms d pend b \<Longrightarrow> ev_id e = 0 \<Longrightarrow>
   conn_inv acc l0 st pos ms d pend (b\<lparr>sub_out := sub_out b @ [(e, None)]\<rparr>)"
  by (clarsimp simp: conn_inv_def checkpoints_snoc)

lemma conn_inv_ping:
  assumes inv: "conn_inv acc l0 st pos ms d pend b" and live: "\<not> sub_done b"
    and pos: "sub_lastID b < pos" and e: "ev_id e = pos"
  shows "conn_inv acc l0 st pos ms d pend (b\<lparr>sub_lastID := pos, sub_out := sub_out b @ [(e, None)]\<rparr>)"
proof -
  have "below_offset pos pend = []"
    using inv by (intro below_offset_none) (auto simp: conn_inv_def)
  moreover have "filter acc (below_offset pos d) = filter acc d"
  proof -
    have "\<forall>m \<in> set d. acc m \<longrightarrow> m_offset m < pos"
      using inv live pos by (force simp: conn_inv_def)
    then show ?thesis by (induction d) (auto simp: below_offset_def)
  qed
  ultimately have "checkpoints acc ms (sub_out b @ [(e, None)])"
    using inv live e by (auto simp: conn_inv_def checkpoints_snoc)
  with inv live pos e show ?thesis
    by (force simp: conn_inv_def sorted_wrt_append)
qed

lemma conn_inv_drop:
  assumes "conn_inv acc l0 st pos ms d (m # pend) b" "\<not> acc m" "pos \<le> pos'" "\<forall>x \<in> set pend. pos' \<le> m_offset x"
  shows "conn_inv acc l0 st pos' ms (d @ [m]) pend b"
  using assms by (fastforce simp: conn_inv_def)

lemma conn_inv_unsent:
  assumes "conn_inv acc l0 st pos ms d (m # pend) b" "pos \<le> pos'" "\<forall>x \<in> set pend. pos' \<le> m_offset x"
  shows "conn_inv acc l0 st pos' ms (d @ [m]) pend (b\<lparr>sub_done := True\<rparr>)"
  using assms by (fastforce simp: conn_inv_def)

lemma conn_inv_send:
  assumes inv: "conn_inv acc l0 st pos ms d (m # pend) b" and live: "\<not> sub_done b" and acc: "acc m"
    and pos: "pos \<le> pos'" "\<forall>x \<in> set pend. pos' \<le> m_offset x" and e: "ev_id e = m_offset m + 1"
  shows "conn_inv acc l0 st pos' ms (d @ [m]) pend
    (b\<lparr>sub_out := sub_out b @ [(e, Some m)], sub_lastID := m_offset m + 1\<rparr>)"
proof -
  have ord: "\<forall>x \<in> set d. m_offset x < m_offset m" "\<forall>x \<in> set pend. m_offset m < m_offset x"
    using inv by (auto simp: conn_inv_def offsets_increase_append offsets_increase_Cons)
  have last: "sub_lastID b \<le> m_offset m" "\<forall>i \<in> set (ids (sub_out b)). i \<le> m_offset m"
    using conn_inv_bounds [OF inv, of m] live by auto
  have m0: "0 \<le> m_offset m" using inv by (auto simp: conn_inv_def)
  have "below_offset (m_offset m + 1) ms = d @ [m]"
  proof -
    have "below_offset (m_offset m + 1) (d @ [m]) = d @ [m]"
      using ord by (intro below_offset_all) force
    moreover have "below_offset (m_offset m + 1) pend = []"
      using ord by (intro below_offset_none) force
    moreover have "ms = (d @ [m]) @ pend" using inv by (simp add: conn_inv_def)
    ultimately show ?thesis by (simp only: below_offset_append) simp
  qed
  then have "checkpoints acc ms (sub_out b @ [(e, Some m)])"
    using inv live acc e by (auto simp: conn_inv_def checkpoints_snoc)
  moreover have "sorted_wrt (<) (l0 # ids (sub_out b @ [(e, Some m)]))"
    using inv last e m0 by (auto simp: conn_inv_def sorted_wrt_append intro!: le_imp_less_Suc)
  ultimately show ?thesis
    using inv live acc pos ord last e m0 by (force simp: conn_inv_def)
qed

text \<open>One step of the subscriber on each input.\<close>

lemma conn_inv_tick:
  assumes inv: "conn_inv acc l0 st pos ms d pend b" and live: "\<not> sub_done b"
  shows "conn_inv acc l0 st pos ms d pend (sub_step parse validate (PingTick pos sent) b)"
proof (cases "sub_lastID b < pos")
  case True
  have p: "conn_inv acc l0 st pos ms d pend
      (b\<lparr>sub_lastID := pos, sub_out := sub_out b @ [(empty_event\<lparr>ev_event := ''ping'', ev_id := pos\<rparr>, None)]\<rparr>)"
    by (rule conn_inv_ping [OF inv live True]) simp
  have q: "conn_inv acc l0 st pos ms d pend (b\<lparr>sub_lastID := pos, sub_done := True\<rparr>)"
    using inv by (clarsimp simp: conn_inv_def)
  show ?thesis using p q True by (simp add: Let_def)
next
  case False
  with conn_inv_silent [OF inv, of "empty_event\<lparr>ev_event := ''ping''\<rparr>"] conn_inv_done [OF inv]
  show ?thesis by (simp add: Let_def empty_event_def)
qed

lemma conn_inv_close:
  assumes inv: "conn_inv acc l0 st pos ms d pend b"
  shows "conn_inv acc l0 st pos ms d pend (sub_step parse validate (ClosedSig ok ctxErr sent) b)"
proof -
  have "ev_id (error_event True r) = 0" for r by (simp add: error_event_def empty_event_def)
  from conn_inv_done [OF conn_inv_silent [OF inv this]] conn_inv_done [OF inv]
  show ?thesis by simp
qed

lemma conn_inv_message:
  assumes inv: "conn_inv (acceptable parse validate) l0 st pos ms d (m # pend) b"
    and live: "\<not> sub_done b"
    and pos: "pos \<le> pos'" "\<forall>x \<in> set pend. pos' \<le> m_offset x"
  shows "conn_inv (acceptable parse validate) l0 st pos' ms (d @ [m]) pend
    (sub_step parse validate (MsgRecv m sent) b)"
proof (cases "accept_msg parse validate m")
  case None
  with conn_inv_drop [OF inv _ pos] show ?thesis by (simp add: acceptable_def)
next
  case (Some e)
  then have "ev_id e = m_offset m + 1"
    by (auto simp: accept_msg_def split: sum.splits if_splits)
  moreover have "acceptable parse validate m" using Some by (simp add: acceptable_def)
  ultimately show ?thesis
    using conn_inv_send [OF inv live _ pos, of e] conn_inv_unsent [OF inv pos] Some by simp
qed

lemma ids_empty_delivered:
  "ids xs = [] \<Longrightarrow> \<forall>x \<in> set xs. snd x \<noteq> None \<longrightarrow> ev_id (fst x) \<noteq> 0 \<Longrightarrow> delivered xs = []"
  by (induction xs) (auto simp: delivered_def split: if_splits)

lemma ids_snoc_split:
  "ids out = is @ [i] \<Longrightarrow> \<exists>pre x post. out = pre @ x # post \<and> ev_id (fst x) = i \<and> i \<noteq> 0 \<and> ids post = []"
proof (induction out arbitrary: "is" i rule: rev_induct)
  case (snoc x out)
  show ?case
  proof (cases "ev_id (fst x) = 0")
    case True
    with snoc obtain pre y post where "out = pre @ y # post" "ev_id (fst y) = i" "i \<noteq> 0" "ids post = []"
      by fastforce
    with True have "out @ [x] = pre @ y # (post @ [x])" "ids (post @ [x]) = []" by simp_all
    with \<open>ev_id (fst y) = i\<close> \<open>i \<noteq> 0\<close> show ?thesis by blast
  next
    case False
    with snoc.prems have "ev_id (fst x) = i" by simp
    with False have "out @ [x] = out @ x # [] \<and> ev_id (fst x) = i \<and> i \<noteq> 0 \<and> ids [] = []" by simp
    then show ?thesis by blast
  qed
qed simp

lemma conn_inv_resume:
  assumes inv: "conn_inv acc l0 st pos ms d pend b" and got: "prefix got (sub_out b)"
  shows "delivered got = filter acc (below_offset (resume_point l0 got) ms)"
    and "l0 \<le> resume_point l0 got"
    and "resume_point l0 got \<le> l0 \<or> resume_point l0 got \<le> pos
      \<or> (\<exists>m \<in> set d. resume_point l0 got = m_offset m + 1)"
proof -
  obtain rest where rest: "sub_out b = got @ rest" using got by (auto simp: prefix_def)
  have id0: "\<forall>x \<in> set got. snd x \<noteq> None \<longrightarrow> ev_id (fst x) \<noteq> 0"
    using inv rest unfolding conn_inv_def by simp
  have sorted: "sorted_wrt (<) (l0 # ids got)"
    using inv rest unfolding conn_inv_def by (auto simp: sorted_wrt_append)
  have ids: "\<forall>i \<in> set (ids got). i \<le> pos \<or> (\<exists>m \<in> set d. i = m_offset m + 1)"
    using inv rest unfolding conn_inv_def by simp
  have "delivered got = filter acc (below_offset (resume_point l0 got) ms)
      \<and> l0 \<le> resume_point l0 got
      \<and> (resume_point l0 got \<le> l0 \<or> resume_point l0 got \<in> set (ids got))"
  proof (cases "ids got" rule: rev_cases)
    case Nil
    have "below_offset l0 ms = []"
      using inv unfolding conn_inv_def by (intro below_offset_none) fastforce
    with Nil ids_empty_delivered [OF Nil id0] show ?thesis by (simp add: resume_point_def)
  next
    case (snoc js i)
    then obtain pre x post where g: "got = pre @ x # post" "ev_id (fst x) = i" "i \<noteq> 0" "ids post = []"
      using ids_snoc_split [OF snoc] by blast
    have "delivered post = []" using id0 g by (intro ids_empty_delivered) auto
    moreover have "delivered (pre @ [x]) = filter acc (below_offset i ms)"
    proof -
      have "sub_out b = pre @ x # (post @ rest)" using g rest by simp
      moreover have "checkpoints acc ms (sub_out b)" using inv unfolding conn_inv_def by blast
      ultimately show ?thesis using g(2,3) unfolding checkpoints_def by blast
    qed
    moreover have "delivered got = delivered (pre @ [x]) @ delivered post"
      unfolding g(1) by (simp add: delivered_def)
    moreover have "resume_point l0 got = i" by (simp add: resume_point_def snoc)
    moreover have "l0 \<le> i" "i \<in> set (ids got)" using sorted snoc by auto
    ultimately show ?thesis by simp
  qed
  with ids show "delivered got = filter acc (below_offset (resume_point l0 got) ms)"
    and "l0 \<le> resume_point l0 got"
    and "resume_point l0 got \<le> l0 \<or> resume_point l0 got \<le> pos
      \<or> (\<exists>m \<in> set d. resume_point l0 got = m_offset m + 1)" by blast+
qed

context stream_source
begin

abbreviation run where
  "run parse validate \<equiv> conn_run internal handoff position parse validate"

definition inv_at where
  "inv_at parse validate l0 s b =
     (ok s \<and> (\<exists>d. conn_inv (acceptable parse validate) l0 (start s) (position s)
        (from_offset (start s) (log_of s)) d (pending s) b))"

lemma inv_at_start:
  assumes "started s" "0 \<le> l0" "l0 \<le> start s"
  shows "inv_at parse validate l0 s (new_subscriber l0)"
proof -
  have ok: "ok s" using assms(1) by (rule ok_started)
  have pend: "pending s = from_offset (start s) (log_of s)" using assms(1) by (rule started_pending)
  have "conn_inv (acceptable parse validate) l0 (start s) (position s)
        (from_offset (start s) (log_of s)) [] (pending s) (new_subscriber l0)"
    unfolding conn_inv_def
    using pend assms(2,3) offsets_increase_filter [OF log_increases [OF ok]] log_nonneg [OF ok]
      position_pending [OF ok]
    by (auto simp: new_subscriber_def checkpoints_def from_offset_def)
  with ok show ?thesis unfolding inv_at_def by blast
qed

lemma inv_at_step:
  assumes "conn_step internal handoff position parse validate c c'"
    and "inv_at parse validate l0 (fst c) (snd c)"
  shows "inv_at parse validate l0 (fst c') (snd c')"
  using assms
proof (induction rule: conn_step.induct)
  case (conn_source s s' b)
  then obtain d where ok: "ok s" and d: "conn_inv (acceptable parse validate) l0 (start s) (position s)
        (from_offset (start s) (log_of s)) d (pending s) b"
    by (auto simp: inv_at_def)
  obtain new where new: "log_of s' = log_of s @ new" "pending s' = pending s @ from_offset (start s) new"
    using internal_log [OF ok conn_source(1)] by blast
  have ok': "ok s'" using ok_internal [OF ok conn_source(1)] .
  have st: "start s' = start s" using start_internal [OF conn_source(1)] .
  have l: "from_offset (start s) (log_of s) @ from_offset (start s) new = from_offset (start s') (log_of s')"
    using new st by simp
  have "conn_inv (acceptable parse validate) l0 (start s) (position s')
        (from_offset (start s) (log_of s) @ from_offset (start s) new) d
        (pending s @ from_offset (start s) new) b"
  proof (rule conn_inv_source [OF d])
    show "position s \<le> position s'" using position_internal [OF ok conn_source(1)] .
    show "offsets_increase (from_offset (start s) (log_of s) @ from_offset (start s) new)"
      unfolding l unfolding from_offset_def
      by (rule offsets_increase_filter [OF log_increases [OF ok']])
    show "\<forall>m \<in> set (from_offset (start s) (log_of s) @ from_offset (start s) new).
        0 \<le> m_offset m \<and> start s \<le> m_offset m"
      unfolding l using log_nonneg [OF ok'] st by (auto simp: from_offset_def)
    show "\<forall>m \<in> set (pending s @ from_offset (start s) new). position s' \<le> m_offset m"
      using position_pending [OF ok'] new by simp
  qed
  then show ?case using ok' new st unfolding inv_at_def by auto
next
  case (conn_ping b s sent)
  then show ?case using conn_inv_tick unfolding inv_at_def by fastforce
next
  case (conn_message b s m s' sent)
  then obtain d where ok: "ok s" and d: "conn_inv (acceptable parse validate) l0 (start s) (position s)
        (from_offset (start s) (log_of s)) d (m # pending s') b"
    using handoff_pending by (fastforce simp: inv_at_def)
  have ok': "ok s'" using ok_handoff [OF ok conn_message(2)] .
  have "conn_inv (acceptable parse validate) l0 (start s) (position s')
        (from_offset (start s) (log_of s)) (d @ [m]) (pending s') (sub_step parse validate (MsgRecv m sent) b)"
    using conn_inv_message [OF d conn_message(1) position_handoff [OF ok conn_message(2)]]
      position_pending [OF ok'] by blast
  then show ?case
    using ok' handoff_log [OF ok conn_message(2)] start_handoff [OF conn_message(2)]
    unfolding inv_at_def by auto
next
  case (conn_ctx b s)
  then show ?case using conn_inv_done unfolding inv_at_def by fastforce
next
  case (conn_closed b s ok ctxErr sent)
  then show ?case using conn_inv_close unfolding inv_at_def by fastforce
qed

lemma inv_at_run:
  assumes "run parse validate c c'" "inv_at parse validate l0 (fst c) (snd c)"
  shows "inv_at parse validate l0 (fst c') (snd c')"
  using assms by (induction rule: conn_run.induct) (auto intro: inv_at_step)

lemma run_log:
  assumes "run parse validate c c'" "ok (fst c)"
  shows "ok (fst c') \<and> start (fst c') = start (fst c) \<and> prefix (log_of (fst c)) (log_of (fst c'))"
  using assms
proof (induction rule: conn_run.induct)
  case (conn_trans c c' c'')
  then have c': "ok (fst c')" "start (fst c') = start (fst c)" "prefix (log_of (fst c)) (log_of (fst c'))"
    by simp_all
  from conn_trans(2) c'(1) have "ok (fst c'') \<and> start (fst c'') = start (fst c') \<and> prefix (log_of (fst c')) (log_of (fst c''))"
  proof (cases rule: conn_step.cases)
    case (conn_source s s' b)
    with c'(1) show ?thesis
      using internal_log [of s s'] ok_internal [of s s'] start_internal [of s s'] by auto
  next
    case (conn_message b s m s' sent)
    with c'(1) show ?thesis
      using handoff_log [of s m s'] ok_handoff [of s m s'] start_handoff [of s m s'] by auto
  qed simp_all
  with c' show ?case by (metis prefix_order.trans)
qed simp

lemma connection_inv:
  assumes "started s" "0 \<le> l0" "l0 \<le> start s"
    and "run parse validate (s, new_subscriber l0) (s', b)"
  shows "\<exists>d. conn_inv (acceptable parse validate) l0 (start s) (position s')
      (from_offset (start s) (log_of s')) d (pending s') b"
proof -
  have "start s' = start s" using run_log [OF assms(4)] ok_started [OF assms(1)] by simp
  moreover have "inv_at parse validate l0 s' b"
    using inv_at_run [OF assms(4), of l0] inv_at_start [OF assms(1,2,3)] by simp
  ultimately show ?thesis by (simp add: inv_at_def)
qed

text \<open>One connection: event IDs increase, and what was sent is a prefix of what was to be sent.\<close>

lemma connection_order:
  assumes "started s" "0 \<le> l0" "l0 \<le> start s"
    and "run parse validate (s, new_subscriber l0) (s', b)"
  shows "sorted_wrt (<) (l0 # ids (sub_out b))"
    and "prefix (delivered (sub_out b))
      (filter (acceptable parse validate) (from_offset (start s) (log_of s')))"
proof -
  obtain d where inv: "conn_inv (acceptable parse validate) l0 (start s) (position s')
      (from_offset (start s) (log_of s')) d (pending s') b"
    using connection_inv [OF assms(1-4)] by blast
  then show "sorted_wrt (<) (l0 # ids (sub_out b))" unfolding conn_inv_def by blast
  have "prefix (delivered (sub_out b)) (filter (acceptable parse validate) d)"
    "from_offset (start s) (log_of s') = d @ pending s'"
    using inv unfolding conn_inv_def by blast+
  then show "prefix (delivered (sub_out b))
      (filter (acceptable parse validate) (from_offset (start s) (log_of s')))"
    by (metis filter_append prefix_prefix)
qed

text \<open>Where a client stands after any prefix of the events of a connection.\<close>

lemma resume_delivered:
  assumes "started s" "0 \<le> l0" "l0 \<le> start s"
    and "run parse validate (s, new_subscriber l0) (s', b)"
    and "prefix got (sub_out b)"
  shows "delivered got = filter (acceptable parse validate)
      (below_offset (resume_point l0 got) (from_offset (start s) (log_of s')))"
    and "l0 \<le> resume_point l0 got"
    and "resume_point l0 got \<le> l0 \<or> resume_point l0 got \<le> position s'
      \<or> (\<exists>m \<in> set (log_of s'). resume_point l0 got = m_offset m + 1)"
proof -
  obtain d where inv: "conn_inv (acceptable parse validate) l0 (start s) (position s')
      (from_offset (start s) (log_of s')) d (pending s') b"
    using connection_inv [OF assms(1-4)] by blast
  note r = conn_inv_resume [OF inv assms(5)]
  show "delivered got = filter (acceptable parse validate)
      (below_offset (resume_point l0 got) (from_offset (start s) (log_of s')))" by (rule r(1))
  show "l0 \<le> resume_point l0 got" by (rule r(2))
  have "set d \<subseteq> set (log_of s')"
    using inv unfolding conn_inv_def from_offset_def
    by (metis Un_upper1 dual_order.trans filter_is_subset set_append)
  with r(3) show "resume_point l0 got \<le> l0 \<or> resume_point l0 got \<le> position s'
      \<or> (\<exists>m \<in> set (log_of s'). resume_point l0 got = m_offset m + 1)" by blast
qed

text \<open>A second connection that resumes where the client stands continues without loss or repeat.\<close>

lemma reconnect:
  assumes "started s" "0 \<le> l0" "l0 \<le> start s"
    and "run parse validate (s, new_subscriber l0) (s', b)"
    and "prefix got (sub_out b)" "l = resume_point l0 got"
    and "started t" "l \<le> start t"
    and "run parse validate (t, new_subscriber l) (t', c)"
    and "full = below_offset l (from_offset (start s) (log_of s')) @ from_offset (start t) (log_of t')"
  shows "prefix (delivered got @ delivered (sub_out c)) (filter (acceptable parse validate) full)"
    and "sorted_wrt (<) (ids got @ ids (sub_out c))"
proof -
  note r = resume_delivered [OF assms(1-5), folded assms(6)]
  have l: "0 \<le> l" using assms(2) r(2) by simp
  note two = connection_order [OF assms(7) l assms(8,9)]
  show "prefix (delivered got @ delivered (sub_out c)) (filter (acceptable parse validate) full)"
    using two(2) r(1) by (simp add: assms(10))
  obtain rest where rest: "sub_out b = got @ rest" using assms(5) by (auto simp: prefix_def)
  have "sorted_wrt (<) (ids got)"
    using connection_order(1) [OF assms(1-4)] by (simp add: rest sorted_wrt_append)
  moreover have "\<forall>i \<in> set (ids got). i \<le> l"
    using calculation unfolding assms(6) resume_point_def
    by (cases "ids got" rule: rev_cases) (auto simp: sorted_wrt_append intro: less_imp_le)
  moreover have "sorted_wrt (<) (ids (sub_out c))" "\<forall>i \<in> set (ids (sub_out c)). l < i"
    using two(1) by auto
  ultimately show "sorted_wrt (<) (ids got @ ids (sub_out c))"
    by (force simp: sorted_wrt_append)
qed

end

end
