(* ===== verification/Sse_Handler.thy ===== *)
theory Sse_Handler
  imports Sse_Delivery
begin

text \<open>
  \<open>GetEvents\<close> of \<open>pkg/sse/v2alpha/sse.go\<close>: the requests it refuses, and the loop that
  writes the subscriber's events to the client until the client, the server or the subscriber
  ends it.  The handler runs on the response recorder of \<open>metrics.Wrap\<close>; every exit closes
  the connection in the metrics exactly once, a panic included.
\<close>

subsection \<open>The handler\<close>

definition rec_Error :: "string \<Rightarrow> int \<Rightarrow> recorder \<Rightarrow> recorder" where
  "rec_Error msg code r =
     rec_Write (msg @ [nl])
       (rec_WriteHeader code
         (rec_Header_Set ''X-Content-Type-Options'' ''nosniff''
           (rec_Header_Set ''Content-Type'' ''text/plain; charset=utf-8''
             (r\<lparr>rec_writer := (rec_writer r)\<lparr>w_header := hdr_del ''Content-Length'' (w_header (rec_writer r))\<rparr>\<rparr>))))"

definition v2_Selftest :: "recorder \<Rightarrow> recorder" where
  "v2_Selftest r =
     rec_WriteHeader 204
       (rec_Header_Set ''X-Content-Type-Options'' ''nosniff''
         (rec_Header_Set ''Content-Type'' ''text/plain; charset=utf-8'' r))"

definition sse_headers :: "recorder \<Rightarrow> recorder" where
  "sse_headers r =
     rec_Header_Set ''Transfer-Encoding'' ''chunked''
       (rec_Header_Set ''Connection'' ''keep-alive''
         (rec_Header_Set ''Cache-Control'' ''no-cache''
           (rec_Header_Set ''Content-Type'' ''text/event-stream'' r)))"

definition requested_lastID :: "string \<Rightarrow> int" where
  "requested_lastID lastEventID =
     (if lastEventID = [] then 0
      else (case parse_int64 lastEventID of
          (lastID, err) \<Rightarrow> if err \<noteq> None \<or> lastID < 0 then 0 else lastID))"

text \<open>
  The part before the connection is opened.  \<open>newStream\<close> is what the streamer returns for the
  identifier; the result is \<open>None\<close> for a refused request and otherwise the last ID, the
  cleaned filter and the stream.
\<close>

definition GetEvents_start ::
  "bool \<Rightarrow> (string \<Rightarrow> gerror + 's) \<Rightarrow> bool \<Rightarrow> string \<Rightarrow> string \<Rightarrow> string list \<Rightarrow> recorder \<times> sse_metrics
   \<Rightarrow> (int \<times> string list \<times> 's) option \<times> recorder \<times> sse_metrics" where
  "GetEvents_start shutting newStream flushable identifier lastEventID filters rm =
     (let r = sse_headers (fst rm);
          m = (if lastEventID \<noteq> [] then ReconnectRequested (snd rm) else snd rm);
          lastID = requested_lastID lastEventID
      in if shutting then (None, rec_Error ''server is shutting down'' 503 r, m)
         else (let flt = cleanFilter identifier filters
               in case newStream identifier of
                 Inl err \<Rightarrow>
                   (None, rec_Error ''event stream is temporarily unavailable'' 503 r,
                    StreamError ''backend_failure'' m)
               | Inr streamer \<Rightarrow>
                   if \<not> flushable then
                     (None, rec_Error ''404 page not found'' 404 r, StreamError ''protocol_unsupported'' m)
                   else (Some (lastID, flt, streamer), r, ConnectionOpened m)))"

text \<open>
  What the loop's \<open>select\<close> received: the end of the context and whether the application is
  shutting down, an event with the number of bytes accepted if the write failed, or the closed
  channel.  The result is the close reason and whether the handler panics.
\<close>

datatype gev_input = GDone bool | GEvent event "nat option" | GClosed

fun gev_loop :: "gev_input list \<Rightarrow> recorder \<times> sse_metrics \<Rightarrow> (string \<times> bool) option \<times> recorder \<times> sse_metrics" where
  "gev_loop [] rm = (None, rm)"
| "gev_loop (GDone shutting # _) rm =
     (Some (if shutting then (''server_shutdown'', True) else (''client_disconnect'', False)), rm)"
| "gev_loop (GClosed # _) rm = (Some (''subscriber_shutdown'', False), rm)"
| "gev_loop (GEvent event (Some n) # _) (r, m) =
     (Some (''stream_write_error'', False), rec_Write (take n (event_Write event)) r,
      StreamError ''stream_write_error'' m)"
| "gev_loop (GEvent event None # ins) (r, m) =
     gev_loop ins (rec_Flush (rec_Write (event_Write event) r), EventDelivered (ev_event event) m)"

text \<open>The whole handler; \<open>None\<close> means that it is still in its loop.\<close>

definition GetEvents ::
  "bool \<Rightarrow> (string \<Rightarrow> gerror + 's) \<Rightarrow> bool \<Rightarrow> string \<Rightarrow> string \<Rightarrow> string list \<Rightarrow> gev_input list
   \<Rightarrow> recorder \<times> sse_metrics \<Rightarrow> unit outcome option \<times> recorder \<times> sse_metrics" where
  "GetEvents shutting newStream flushable identifier lastEventID filters ins rm =
     (case GetEvents_start shutting newStream flushable identifier lastEventID filters rm of
        (None, r, m) \<Rightarrow> (Some (Returned ()), r, m)
      | (Some _, r, m) \<Rightarrow>
          (case gev_loop ins (r, m) of
             (None, r', m') \<Rightarrow> (None, r', m')
           | (Some (closeReason, aborts), r', m') \<Rightarrow>
               (Some (if aborts then Panicked ''net/http: abort Handler'' else Returned ()), r',
                ConnectionClosedWithReason closeReason m')))"

subsection \<open>The loop\<close>

fun gev_written :: "gev_input list \<Rightarrow> string" where
  "gev_written (GEvent e None # ins) = event_Write e @ gev_written ins"
| "gev_written (GEvent e (Some n) # _) = take n (event_Write e)"
| "gev_written _ = []"

lemma gev_loop_metrics:
  "gev_loop ins (r, m) = (res, r', m') \<Longrightarrow>
   mt_active m' = mt_active m \<and> mt_total m' = mt_total m \<and> disconnect_total m' = disconnect_total m
   \<and> mt_disconnects m' = mt_disconnects m
   \<and> (labels_bounded m \<longrightarrow> labels_bounded m') \<and> (rec_ok r \<longrightarrow> rec_ok r')"
proof (induction ins "(r, m)" arbitrary: r m rule: gev_loop.induct)
  case (4 e n ins r m)
  then show ?case
    by (auto simp: etos_inv) (simp_all add: StreamError_def Let_def)
next
  case (5 e ins r m)
  then show ?case
    by (auto simp: etos_inv) (simp_all add: EventDelivered_def Let_def)
qed (auto simp: etos_inv)

lemma gev_loop_reason:
  "gev_loop ins rm = (Some (reason, aborts), rm') \<Longrightarrow>
   reason \<in> set close_reasons \<and> (aborts \<longleftrightarrow> reason = ''server_shutdown'')"
  by (induction ins rm rule: gev_loop.induct) (auto simp: close_reasons_def split: if_splits)

lemma rec_Write_body:
  assumes "rec_ok r" "w_status (rec_writer r) \<in> {None, Some 200}"
  shows "w_body (rec_writer (rec_Write s r)) = w_body (rec_writer r) @ s
    \<and> w_status (rec_writer (rec_Write s r)) = Some 200"
  using assms by (auto simp: rec_transparent write_body_body body_allowed_def)

lemma rec_Flush_written:
  "rec_ok r \<Longrightarrow> w_status (rec_writer r) = Some 200 \<Longrightarrow> rec_Flush r = r"
  by (auto simp: rec_ok_def rec_Flush_def)

lemma gev_loop_body:
  "gev_loop ins (r, m) = (res, r', m') \<Longrightarrow> rec_ok r \<Longrightarrow> w_status (rec_writer r) \<in> {None, Some 200} \<Longrightarrow>
   w_body (rec_writer r') = w_body (rec_writer r) @ gev_written ins
   \<and> w_status (rec_writer r') \<in> {None, Some 200}"
proof (induction ins "(r, m)" arbitrary: r m rule: gev_loop.induct)
  case (4 e n ins r m)
  then show ?case using rec_Write_body [of r "take n (event_Write e)"] by auto
next
  case (5 e ins r m)
  note w = rec_Write_body [OF 5(3,4), of "event_Write e"]
  have ok: "rec_ok (rec_Write (event_Write e) r)" using 5(3) by (rule rec_ok_ops)
  have f: "rec_Flush (rec_Write (event_Write e) r) = rec_Write (event_Write e) r"
    using rec_Flush_written [OF ok] w by blast
  show ?case
    using 5(1) [unfolded f, OF _ ok] 5(2) w f by auto
qed auto

lemma sse_headers_status [simp]: "w_status (rec_writer (sse_headers r)) = w_status (rec_writer r)"
  and sse_headers_body [simp]: "w_body (rec_writer (sse_headers r)) = w_body (rec_writer r)"
  by (simp_all add: sse_headers_def rec_transparent)

lemma sse_headers_ok [etos_inv]: "rec_ok r \<Longrightarrow> rec_ok (sse_headers r)"
  by (simp add: sse_headers_def rec_ok_ops)

lemma rec_Error_ok [etos_inv]: "rec_ok r \<Longrightarrow> rec_ok (rec_Error msg code r)"
  unfolding rec_Error_def by (intro rec_ok_ops) (auto simp: rec_ok_def split: option.splits)

lemma rec_Error_status:
  assumes "rec_ok r" "w_status (rec_writer r) = None"
  shows "w_status (rec_writer (rec_Error msg code r)) = Some code"
proof -
  let ?r = "r\<lparr>rec_writer := (rec_writer r)\<lparr>w_header := hdr_del ''Content-Length'' (w_header (rec_writer r))\<rparr>\<rparr>"
  have ok: "rec_ok ?r" using assms(1) by (auto simp: rec_ok_def split: option.splits)
  show ?thesis
    unfolding rec_Error_def using assms ok by (simp add: rec_transparent rec_ok_ops)
qed

end
