(* ===== verification/Sse_Resume.thy ===== *)
theory Sse_Resume
  imports Sse_Handler
begin

text \<open>
  The resumable stream end to end: what a client has after its connection broke at any byte, the
  \<open>Last-Event-ID\<close> it sends, the checks that \<open>subscribe\<close> makes against retention, and the
  stream it is given.
\<close>

subsection \<open>What is sent is well formed\<close>

lemma error_event_ok: "one_line r \<Longrightarrow> event_ok (error_event b r)"
proof -
  have "json_wf (JObj [(''retry'', JBool b), (''reason'', JStr r)])" by simp
  then have "one_line (json_enc (JObj [(''retry'', JBool b), (''reason'', JStr r)]))"
    by (intro printable_one_line json_enc_printable(1))
  then show ?thesis by (simp add: event_ok_def error_event_def one_line_def nl_def)
qed

definition events_valid :: "(bytes \<Rightarrow> gerror + event) \<Rightarrow> (bytes \<Rightarrow> bool) \<Rightarrow> bool" where
  "events_valid parse validate = (\<forall>d e. parse d = Inr e \<longrightarrow> validate d \<longrightarrow> event_ok e)"

lemma accept_msg_ok: "events_valid parse validate \<Longrightarrow> accept_msg parse validate m = Some e \<Longrightarrow> event_ok e"
  by (auto simp: accept_msg_def events_valid_def event_ok_def split: sum.splits if_splits)

lemma sub_step_events_ok:
  assumes "events_valid parse validate" "\<forall>x \<in> set (sub_out b). event_ok (fst x)"
  shows "\<forall>x \<in> set (sub_out (sub_step parse validate i b)). event_ok (fst x)"
proof (cases i)
  case (PingTick p sent)
  have "one_line ''ping''" "one_line []" by (simp_all add: one_line_def nl_def)
  then show ?thesis
    using assms(2) PingTick by (simp add: Let_def empty_event_def event_ok_def)
next
  case (ClosedSig ok ctx sent)
  have "one_line ''Streamer closed the connection''" by (simp add: one_line_def nl_def)
  from error_event_ok [OF this, of True] assms(2) ClosedSig show ?thesis by simp
next
  case (MsgRecv m sent)
  then show ?thesis
    using assms accept_msg_ok [OF assms(1), of m] by (auto split: option.split)
qed (use assms(2) in simp)

lemma conn_run_events_ok:
  assumes "events_valid parse validate"
    and "conn_run internal handoff position parse validate c c'"
    and "\<forall>x \<in> set (sub_out (snd c)). event_ok (fst x)"
  shows "\<forall>x \<in> set (sub_out (snd c')). event_ok (fst x)"
  using assms(2,3)
proof (induction rule: conn_run.induct)
  case (conn_trans c c' c'')
  from conn_trans(2) conn_trans.IH [OF conn_trans.prems] show ?case
    by (cases rule: conn_step.cases) (simp_all add: sub_step_events_ok [OF assms(1)] del: sub_step.simps)
qed simp

subsection \<open>The last event ID of a broken connection\<close>

lemma last_id_after_ids:
  "last_id_after hdr (map fst out) = (if ids out = [] then hdr else itoa (last (ids out)))"
  by (induction out rule: rev_induct) (auto simp: last_id_after_def event_view_def)

lemma requested_lastID_itoa:
  "0 \<le> n \<Longrightarrow> n \<le> int64_max \<Longrightarrow> requested_lastID (itoa n) = n"
proof -
  assume n: "0 \<le> n" "n \<le> int64_max"
  then have "parse_int64 (itoa n) = (n, None)" by (intro parse_int64_itoa) (simp_all add: int64_min_def)
  moreover have "itoa n \<noteq> []" by (simp add: itoa_def)
  ultimately show ?thesis using n by (simp add: requested_lastID_def)
qed

lemma requested_lastID_nonneg: "0 \<le> requested_lastID h"
  by (auto simp: requested_lastID_def split: prod.splits)

lemma requested_resume_point:
  assumes "\<forall>i \<in> set (ids out). 0 \<le> i \<and> i \<le> int64_max"
  shows "requested_lastID (last_id_after hdr (map fst out)) = resume_point (requested_lastID hdr) out"
  using assms by (simp add: last_id_after_ids resume_point_def requested_lastID_itoa)

lemma client_broken:
  assumes "\<forall>x \<in> set out. event_ok (fst x)" "\<forall>i \<in> set (ids out). 0 \<le> i \<and> i \<le> int64_max"
    and "concat (map (event_Write \<circ> fst) out) = p @ q"
  shows "\<exists>k. cl_out (client_feed (client_init hdr) p) = events_view hdr (map fst (take k out))
    \<and> requested_lastID (cl_last (client_feed (client_init hdr) p))
        = resume_point (requested_lastID hdr) (take k out)"
proof -
  have "\<forall>e \<in> set (map fst out). event_ok e" using assms(1) by simp
  from client_feed_cut [OF this client_ready_init, of p q hdr] assms(3)
  obtain k where k: "cl_out (client_feed (client_init hdr) p) = events_view hdr (map fst (take k out))"
    "cl_last (client_feed (client_init hdr) p) = last_id_after hdr (map fst (take k out))"
    by (auto simp: client_init_def take_map)
  have "set (ids (take k out)) \<subseteq> set (ids out)"
    using append_take_drop_id [of k out] ids_simps(2) by (metis Un_upper1 set_append)
  then have "requested_lastID (last_id_after hdr (map fst (take k out)))
      = resume_point (requested_lastID hdr) (take k out)"
    using assms(2) by (intro requested_resume_point) blast
  with k show ?thesis by auto
qed

subsection \<open>Where a subscription starts\<close>

lemma subscribe_begin_ok:
  assumes "subscribe_begin first1 consume first2 l = BeginOk s"
  shows "consume (if l \<le> 0 then OffsetFirst else l) = Inr s"
    and "l \<le> 0 \<or> (\<exists>f. first1 = Inr f \<and> f \<le> l)"
    and "l \<le> 0 \<or> (\<forall>f. first2 = Inr f \<longrightarrow> f \<le> l)"
  using assms
  by (auto simp: subscribe_begin_def resumeOffset_def OffsetFirst_def reasonExpired_def reasonUnknown_def
      split: sum.splits if_splits prod.splits)


text \<open>
  A subscription of \<open>subscribe\<close> to a RabbitMQ stream: \<open>newConsumer\<close> is what the client
  library's \<open>NewConsumer\<close> answers.
\<close>

definition rabbit_consume ::
  "string \<Rightarrow> string list \<Rightarrow> broker_msg list \<Rightarrow> (gerror + int) \<Rightarrow> int \<Rightarrow> gerror + rabbit_stream" where
  "rabbit_consume ident flt log newConsumer offset =
     (case NewStream_rabbit (Inr True) ident log of
        Inl err \<Rightarrow> Inl err
      | Inr s \<Rightarrow> Consume_rabbit newConsumer (WithFilter_rabbit flt (WithOffset_rabbit offset s)))"

lemma rabbit_subscription:
  assumes "subscribe_begin first1 (rabbit_consume ident flt log (Inr c)) first2 l = BeginOk s"
    and "broker_log_ok log" "0 \<le> l" "l \<le> log_end log" "c \<le> l"
  shows "rabbit_started s" "rs_start s = l" "rs_log s = log" "rs_filter s = flt" "rs_identifier s = ident"
proof -
  let ?o = "if l \<le> 0 then OffsetFirst else l"
  obtain s0 where s0: "NewStream_rabbit (Inr True) ident log = Inr s0"
    by (simp add: NewStream_rabbit_def)
  have o: "max 0 ?o = l" "?o \<le> log_end log" "c \<le> max 0 ?o"
    using assms(3,4,5) broker_log_end_nonneg [OF assms(2)] by (auto simp: OffsetFirst_def)
  have "Consume_rabbit (Inr c) (WithFilter_rabbit flt (WithOffset_rabbit ?o s0)) = Inr s"
    using subscribe_begin_ok(1) [OF assms(1)] s0 by (simp add: rabbit_consume_def)
  from Consume_rabbit_started [OF s0 this assms(2) o(2,3)] o(1)
  show "rabbit_started s" "rs_start s = l" "rs_log s = log" "rs_filter s = flt" "rs_identifier s = ident"
    by simp_all
qed

lemma rabbit_fields_run:
  assumes "conn_run rabbit_internal rabbit_handoff Position_rabbit parse validate c c'"
  shows "rs_filter (fst c') = rs_filter (fst c) \<and> rs_identifier (fst c') = rs_identifier (fst c)
    \<and> prefix (rs_log (fst c)) (rs_log (fst c'))"
  using assms
proof (induction rule: conn_run.induct)
  case (conn_trans c c' c'')
  from conn_trans(2) have "rs_filter (fst c'') = rs_filter (fst c') \<and> rs_identifier (fst c'') = rs_identifier (fst c')
    \<and> prefix (rs_log (fst c')) (rs_log (fst c''))"
  proof (cases rule: conn_step.cases)
    case (conn_source s s' b)
    from conn_source(3) show ?thesis
      by (cases rule: rabbit_internal_cases) (simp_all add: conn_source)
  next
    case (conn_message b s m s' sent)
    then show ?thesis by (auto simp: rabbit_handoff_iff)
  qed simp_all
  with conn_trans.IH show ?case by (metis prefix_order.trans)
qed simp

text \<open>What a client of \<open>identifier\<close> is to receive from a log, from an offset on.\<close>

definition wanted ::
  "(bytes \<Rightarrow> gerror + event) \<Rightarrow> (bytes \<Rightarrow> bool) \<Rightarrow> string \<Rightarrow> string list \<Rightarrow> int \<Rightarrow> broker_msg list \<Rightarrow> message list" where
  "wanted parse validate ident flt n log =
     map to_message (filter (\<lambda>b. n \<le> b_offset b \<and> relevant ident flt b
       \<and> acceptable parse validate (to_message b)) log)"

lemma wanted_relevant:
  "filter (acceptable parse validate) (from_offset n (rabbit_relevant s log))
   = wanted parse validate (rs_identifier s) (rs_filter s) n log"
  by (induction log) (auto simp: rabbit_relevant_def from_offset_def wanted_def)

lemma wanted_append [simp]:
  "wanted parse validate ident flt n (a @ b) = wanted parse validate ident flt n a @ wanted parse validate ident flt n b"
  by (simp add: wanted_def)

lemma wanted_split:
  assumes "broker_log_ok log" "a \<le> l"
  shows "filter (acceptable parse validate) (below_offset l (from_offset a (rabbit_relevant s log)))
      @ wanted parse validate (rs_identifier s) (rs_filter s) l log
    = wanted parse validate (rs_identifier s) (rs_filter s) a log"
proof -
  have inc: "offsets_increase (rabbit_relevant s log)" using assms(1) by (rule rabbit_log_increases)
  have "from_offset a (rabbit_relevant s log)
      = below_offset l (from_offset a (rabbit_relevant s log)) @ from_offset l (rabbit_relevant s log)"
    using from_offset_split [OF inc assms(2)] by simp
  then show ?thesis by (metis filter_append wanted_relevant)
qed

lemma wanted_retained:
  "g \<le> l \<Longrightarrow> wanted parse validate ident flt l (filter (\<lambda>b. g \<le> b_offset b) log) = wanted parse validate ident flt l log"
  by (induction log) (auto simp: wanted_def)

lemma rabbit_position_end: "rabbit_ok s \<Longrightarrow> Position_rabbit s \<le> log_end (rs_log s)"
  by (auto simp: rabbit_ok_def Position_rabbit_def)

lemma rabbit_offset_end: "rabbit_ok s \<Longrightarrow> m \<in> set (rabbit_log s) \<Longrightarrow> m_offset m + 1 \<le> log_end (rs_log s)"
  using broker_log_end by (fastforce simp: rabbit_ok_def rabbit_log_def dest!: rabbit_relevant_offsets)

lemma rabbit_resume_bound:
  assumes "rabbit_started s" "rs_start s = l0" "0 \<le> l0"
    and "conn_run rabbit_internal rabbit_handoff Position_rabbit parse validate (s, new_subscriber l0) (s', b)"
    and "prefix got (sub_out b)"
  shows "0 \<le> resume_point l0 got \<and> resume_point l0 got \<le> log_end (rs_log s')"
proof -
  have s': "rabbit_ok s'" "rs_start s' = rs_start s"
    using rabbit.run_log [OF assms(4)] rabbit_started_ok [OF assms(1)] by simp_all
  have "l0 \<le> log_end (rs_log s')" using s' assms(2) by (simp add: rabbit_ok_def)
  with rabbit.resume_delivered(2,3) [OF assms(1,3) _ assms(4,5)] assms(2,3)
    rabbit_position_end [OF s'(1)] rabbit_offset_end [OF s'(1)]
  show ?thesis by fastforce
qed

lemma log_end_retained:
  assumes "broker_log_ok log" "b \<in> set log" "g \<le> b_offset b"
  shows "log_end (filter (\<lambda>b. g \<le> b_offset b) log) = log_end log"
proof (cases log rule: rev_cases)
  case (snoc ys y)
  have "b_offset b \<le> b_offset y"
    using assms(1,2) by (auto simp: snoc broker_log_ok_def sorted_wrt_append intro: less_imp_le)
  then show ?thesis using assms(3) by (simp add: snoc log_end_def)
qed (use assms in simp)

lemma broker_log_filter: "broker_log_ok log \<Longrightarrow> broker_log_ok (filter P log)"
  by (auto simp: broker_log_ok_def sorted_wrt_filter)


subsection \<open>Exactly once across a reconnect\<close>

lemma log_end_below:
  "broker_log_ok (a @ c) \<Longrightarrow> x \<in> set c \<Longrightarrow> log_end a \<le> b_offset x"
  by (cases a rule: rev_cases) (auto simp: log_end_def broker_log_ok_def sorted_wrt_append)

lemma log_end_append: "broker_log_ok (a @ c) \<Longrightarrow> log_end a \<le> log_end (a @ c)"
proof (cases c rule: rev_cases)
  case (snoc ys y)
  assume "broker_log_ok (a @ c)"
  from log_end_below [OF this, of y] snoc show ?thesis by (simp add: log_end_def)
qed simp

lemma wanted_above:
  "\<forall>b \<in> set log. l \<le> b_offset b \<Longrightarrow> l0 \<le> l \<Longrightarrow>
   wanted parse validate ident flt l log = wanted parse validate ident flt l0 log"
  unfolding wanted_def by (intro arg_cong [of _ _ "map to_message"] filter_cong) auto

lemma conn_ids_bounded:
  assumes "rabbit_started s" "rs_start s = l0" "0 \<le> l0"
    and "conn_run rabbit_internal rabbit_handoff Position_rabbit parse validate (s, new_subscriber l0) (s', b)"
  shows "\<forall>i \<in> set (ids (sub_out b)). 0 \<le> i \<and> i \<le> log_end (rs_log s')"
proof (intro ballI conjI)
  fix i assume i: "i \<in> set (ids (sub_out b))"
  have sorted: "sorted_wrt (<) (l0 # ids (sub_out b))"
    using rabbit.connection_order(1) [OF assms(1,3) _ assms(4)] assms(2) by simp
  show "0 \<le> i" using sorted i assms(3) by auto
  have "i \<le> resume_point l0 (sub_out b)"
    using i sorted unfolding resume_point_def
    by (cases "ids (sub_out b)" rule: rev_cases) (auto simp: sorted_wrt_append intro: less_imp_le)
  with rabbit_resume_bound [OF assms(1,2,3,4) prefix_order.refl] show "i \<le> log_end (rs_log s')" by simp
qed

text \<open>What the first connection left and the second one starts with is the log without a gap.\<close>

lemma wanted_resumed:
  assumes log: "broker_log_ok (log1 @ new)"
    and "broker_log_ok (filter (\<lambda>b. g \<le> b_offset b) (log1 @ new) @ later)"
    and "l0 \<le> l" "g \<le> l" "l \<le> log_end log1" "l \<le> log_end (filter (\<lambda>b. g \<le> b_offset b) (log1 @ new))"
    and "rs_identifier t = rs_identifier s" "rs_filter t = rs_filter s"
  shows "filter (acceptable parse validate) (below_offset l (from_offset l0 (rabbit_relevant s log1))
      @ from_offset l (rabbit_relevant t (filter (\<lambda>b. g \<le> b_offset b) (log1 @ new) @ later)))
    = wanted parse validate (rs_identifier s) (rs_filter s) l0 (log1 @ new @ later)"
proof -
  let ?w = "wanted parse validate (rs_identifier s) (rs_filter s)"
  have ok1: "broker_log_ok log1" using log by (simp add: broker_log_ok_def sorted_wrt_append)
  have "filter (acceptable parse validate)
        (from_offset l (rabbit_relevant t (filter (\<lambda>b. g \<le> b_offset b) (log1 @ new) @ later)))
      = ?w l (filter (\<lambda>b. g \<le> b_offset b) (log1 @ new) @ later)"
    using wanted_relevant [of parse validate l t] assms(7,8) by simp
  also have "\<dots> = ?w l ((log1 @ new) @ later)"
    using wanted_retained [OF assms(4)] by (simp only: wanted_append)
  finally have tail: "filter (acceptable parse validate)
        (from_offset l (rabbit_relevant t (filter (\<lambda>b. g \<le> b_offset b) (log1 @ new) @ later)))
      = ?w l ((log1 @ new) @ later)" .
  have "\<forall>b \<in> set (new @ later). l \<le> b_offset b"
    using log_end_below [OF log] log_end_below [OF assms(2)] assms(5,6) by fastforce
  then have "?w l (new @ later) = ?w l0 (new @ later)"
    using assms(3) by (intro wanted_above) auto
  then show ?thesis
    using wanted_split [OF ok1 assms(3), of parse validate s] tail by simp
qed

text \<open>
  C1: A client that loses its connection at any byte and reconnects with the \<open>Last-Event-ID\<close> it
  then has receives, over both connections, the accepted messages of its identifier and filter in
  log order, each once and with none missing between them, and event IDs only grow; the broker
  may have expired the front of the log meanwhile, as far as the resume checks let it.
\<close>

theorem resume_exactly_once:
  assumes valid: "events_valid parse validate"
    and first: "subscribe_begin f1 (rabbit_consume ident flt log1 (Inr c1)) f1' l0 = BeginOk s1"
    and l0: "broker_log_ok log1" "l0 = requested_lastID hdr" "l0 \<le> log_end log1" "c1 \<le> l0"
    and run1: "conn_run rabbit_internal rabbit_handoff Position_rabbit parse validate
          (s1, new_subscriber l0) (s1', b1)"
    and wire: "concat (map (event_Write \<circ> fst) (sub_out b1)) = p @ q"
    and l: "l = requested_lastID (cl_last (client_feed (client_init hdr) p))" "0 < l"
    and log: "broker_log_ok (rs_log s1' @ new)" "log_end (rs_log s1' @ new) \<le> int64_max"
    and retained: "m \<in> set (rs_log s1' @ new)" "b_offset m = g"
    and second: "subscribe_begin (Inr g)
          (rabbit_consume ident flt (filter (\<lambda>b. g \<le> b_offset b) (rs_log s1' @ new)) (Inr c2)) (Inr g) l = BeginOk s2"
        "c2 \<le> l"
    and run2: "conn_run rabbit_internal rabbit_handoff Position_rabbit parse validate
          (s2, new_subscriber l) (s2', b2)"
  shows "\<exists>got later. prefix got (sub_out b1)
    \<and> cl_out (client_feed (client_init hdr) p) = events_view hdr (map fst got)
    \<and> rs_log s2' = rs_log s2 @ later
    \<and> prefix (delivered got @ delivered (sub_out b2))
        (wanted parse validate ident flt l0 (rs_log s1' @ new @ later))
    \<and> sorted_wrt (<) (ids got @ ids (sub_out b2))"
proof -
  let ?acc = "acceptable parse validate" and ?full = "rs_log s1' @ new"
  have l00: "0 \<le> l0" using l0(2) requested_lastID_nonneg by simp
  note one = rabbit_subscription [OF first l0(1) l00 l0(3,4)]
  have "l0 \<le> rs_start s1" using one(2) by simp
  note start1 = one(1) l00 this
  have end1: "log_end (rs_log s1') \<le> log_end ?full" using log_end_append [OF log(1)] .
  have ids: "\<forall>i \<in> set (ids (sub_out b1)). 0 \<le> i \<and> i \<le> int64_max"
    using conn_ids_bounded [OF one(1,2) l00 run1] end1 log(2) by force
  have ev: "\<forall>x \<in> set (sub_out b1). event_ok (fst x)"
    using conn_run_events_ok [OF valid run1] by (simp add: new_subscriber_def)
  obtain k where k: "cl_out (client_feed (client_init hdr) p) = events_view hdr (map fst (take k (sub_out b1)))"
    "l = resume_point l0 (take k (sub_out b1))"
    using client_broken [OF ev ids wire, of hdr] l(1) l0(2) by auto
  let ?got = "take k (sub_out b1)"
  have got: "prefix ?got (sub_out b1)" by (rule take_is_prefix)
  have lend1: "l \<le> log_end (rs_log s1')"
    using rabbit_resume_bound [OF one(1,2) l00 run1 got] k(2) by simp
  moreover have "log_end (filter (\<lambda>b. g \<le> b_offset b) ?full) = log_end ?full"
    using log_end_retained [OF log(1) retained(1)] retained(2) by simp
  ultimately have lend: "l \<le> log_end (filter (\<lambda>b. g \<le> b_offset b) ?full)" using end1 by simp
  note two = rabbit_subscription [OF second(1) broker_log_filter [OF log(1)] _ lend second(2)]
  have l': "0 \<le> l" using l(2) by simp
  have g: "g \<le> l" using subscribe_begin_ok(2) [OF second(1)] l(2) by simp
  obtain later where later: "rs_log s2' = rs_log s2 @ later"
    using rabbit_fields_run [OF run2] by (auto simp: prefix_def)
  have "l \<le> rs_start s2" using two(2) [OF l'] by simp
  note rec = rabbit.reconnect [OF start1 run1 got k(2) two(1) [OF l'] this run2 refl]
  have fields: "rs_filter s1' = flt" "rs_identifier s1' = ident" "rs_filter s2' = flt" "rs_identifier s2' = ident"
    using rabbit_fields_run [OF run1] rabbit_fields_run [OF run2] one two [OF l'] by simp_all
  have later': "rs_log s2' = filter (\<lambda>b. g \<le> b_offset b) ?full @ later" using later two(3) [OF l'] by simp
  moreover have "broker_log_ok (rs_log s2')"
    using rabbit.run_log [OF run2] rabbit_started_ok [OF two(1) [OF l']] by (simp add: rabbit_ok_def)
  ultimately have ok2: "broker_log_ok (filter (\<lambda>b. g \<le> b_offset b) ?full @ later)" by (simp only:)
  have "l0 \<le> l" using rabbit.resume_delivered(2) [OF start1 run1 got] k(2) by simp
  from wanted_resumed [OF log(1) ok2 this g lend1 lend, of s2' s1' parse validate]
  have w: "filter ?acc (below_offset l (from_offset (rs_start s1) (rabbit_log s1'))
        @ from_offset (rs_start s2) (rabbit_log s2'))
      = wanted parse validate ident flt l0 (rs_log s1' @ new @ later)"
    unfolding rabbit_log_def later' fields one(2) two(2) [OF l'] by blast
  show ?thesis
    using k(1) got later rec(1,2) w two(2) [OF l'] by (intro exI [of _ ?got] exI [of _ later]) simp
qed


text \<open>A concrete pair of connections: the front of the log has expired when the client returns.\<close>

definition ex_msg :: "int \<Rightarrow> broker_msg" where
  "ex_msg n = \<lparr>b_offset = n, b_props = [(''identifier'', PStr ''t'')], b_data = [''{\"event\":\"a\",\"data\":1}'']\<rparr>"

definition ex_event :: "int \<Rightarrow> event" where
  "ex_event n = \<lparr>ev_id = n + 1, ev_event = ''a'', ev_data = ''1'', ev_json = JNum ''1''\<rparr>"

definition ex_parse :: "bytes \<Rightarrow> gerror + event" where
  "ex_parse = events_New Some"

definition ex_validate :: "bytes \<Rightarrow> bool" where
  "ex_validate d = (case ex_parse d of Inl _ \<Rightarrow> False | Inr e \<Rightarrow> event_ok e)"

definition ex_stream :: "int \<Rightarrow> bool \<Rightarrow> broker_msg list \<Rightarrow> rabbit_stream" where
  "ex_stream n first log =
     \<lparr>rs_identifier = ''t'', rs_filter = [], rs_start = n, rs_first = first, rs_consumer = Some n,
      rs_log = log, rs_next = 0, rs_offer = None\<rparr>"

definition ex_after :: "int \<Rightarrow> bool \<Rightarrow> broker_msg list \<Rightarrow> rabbit_stream" where
  "ex_after n first log = (ex_stream n first log)\<lparr>rs_next := 1\<rparr>"

definition ex_sub :: "int \<Rightarrow> subscriber" where
  "ex_sub n = \<lparr>sub_lastID = n + 1, sub_out = [(ex_event n, Some (to_message (ex_msg n)))], sub_done = False\<rparr>"

lemma ex_accept: "accept_msg ex_parse ex_validate (to_message (ex_msg n)) = Some (ex_event n)"
proof -
  have "ex_parse (m_data (to_message (ex_msg n))) = Inr \<lparr>ev_id = 0, ev_event = ''a'', ev_data = ''1'', ev_json = JNum ''1''\<rparr>"
    unfolding ex_parse_def ex_msg_def to_message_def by simp code_simp
  then show ?thesis
    by (simp add: accept_msg_def ex_validate_def ex_event_def event_ok_def one_line_def nl_def to_message_def ex_msg_def)
qed

lemma ex_run:
  "conn_run rabbit_internal rabbit_handoff Position_rabbit ex_parse ex_validate
     (ex_stream n first (ex_msg n # log), new_subscriber n) (ex_after n first (ex_msg n # log), ex_sub n)"
proof -
  let ?s = "ex_stream n first (ex_msg n # log)"
  let ?s' = "?s\<lparr>rs_consumer := Some n, rs_next := 1, rs_offer := Some (to_message (ex_msg n))\<rparr>"
  have "rabbit_internal ?s (?s\<lparr>rs_consumer := Some (b_offset (ex_msg n)), rs_next := Suc (rs_next ?s),
      rs_offer := dispatch (rs_identifier ?s) (rs_filter ?s) (ex_msg n)\<rparr>)"
    by (rule rabbit_dispatch [of ?s n]) (simp_all add: ex_stream_def)
  then have "rabbit_internal ?s ?s'"
    by (simp add: dispatch_eq relevant_def postFilter_def) (simp add: ex_msg_def ex_stream_def)
  moreover have "rabbit_handoff ?s' (to_message (ex_msg n)) (ex_after n first (ex_msg n # log))"
    by (simp add: rabbit_handoff_iff ex_after_def ex_stream_def)
  moreover have "sub_step ex_parse ex_validate (MsgRecv (to_message (ex_msg n)) True) (new_subscriber n) = ex_sub n"
    by (simp add: ex_accept new_subscriber_def ex_sub_def) (simp add: ex_msg_def)
  moreover have "\<not> sub_done (new_subscriber n)" by (simp add: new_subscriber_def)
  ultimately show ?thesis
    by (metis conn_refl conn_trans conn_source conn_message)
qed

lemma resume_exactly_once_witness:
  "\<exists>got later. prefix got (sub_out (ex_sub 0))
    \<and> cl_out (client_feed (client_init []) (event_Write (ex_event 0))) = events_view [] (map fst got)
    \<and> rs_log (ex_after 1 False [ex_msg 1]) = rs_log (ex_stream 1 False [ex_msg 1]) @ later
    \<and> prefix (delivered got @ delivered (sub_out (ex_sub 1)))
        (wanted ex_parse ex_validate ''t'' [] 0 ([ex_msg 0] @ [ex_msg 1] @ later))
    \<and> sorted_wrt (<) (ids got @ ids (sub_out (ex_sub 1)))"
proof -
  have [simp]: "b_offset (ex_msg n) = n" for n by (simp add: ex_msg_def)
  have valid: "events_valid ex_parse ex_validate" by (simp add: events_valid_def ex_validate_def)
  have first: "subscribe_begin (Inr 0) (rabbit_consume ''t'' [] [ex_msg 0] (Inr 0)) (Inr 0) 0
      = BeginOk (ex_stream 0 True [ex_msg 0])"
    by (simp add: subscribe_begin_def resumeOffset_def rabbit_consume_def NewStream_rabbit_def Consume_rabbit_def
        WithFilter_rabbit_def WithOffset_rabbit_def OffsetFirst_def ex_stream_def reasonExpired_def)
  have second: "subscribe_begin (Inr 1) (rabbit_consume ''t'' [] (filter (\<lambda>b. 1 \<le> b_offset b) ([ex_msg 0] @ [ex_msg 1])) (Inr 1)) (Inr 1) 1
      = BeginOk (ex_stream 1 False [ex_msg 1])"
    by (simp add: subscribe_begin_def resumeOffset_def rabbit_consume_def NewStream_rabbit_def Consume_rabbit_def
        WithFilter_rabbit_def WithOffset_rabbit_def OffsetFirst_def ex_stream_def reasonExpired_def)
  have l: "1 = requested_lastID (cl_last (client_feed (client_init []) (event_Write (ex_event 0))))"
    by code_simp
  have wire: "concat (map (event_Write \<circ> fst) (sub_out (ex_sub 0))) = event_Write (ex_event 0) @ []"
    by (simp add: ex_sub_def)
  have log: "rs_log (ex_after 0 True [ex_msg 0]) = [ex_msg 0]" by (simp add: ex_after_def ex_stream_def)
  have ok: "broker_log_ok [ex_msg 0]" "broker_log_ok ([ex_msg 0] @ [ex_msg 1])"
    and ends: "0 \<le> log_end [ex_msg 0]" "log_end ([ex_msg 0] @ [ex_msg 1]) \<le> int64_max"
    by (simp_all add: broker_log_ok_def log_end_def int64_max_def)
  have "(0::int) = requested_lastID []" by (simp add: requested_lastID_def)
  from resume_exactly_once [OF valid first ok(1) this ends(1) _ ex_run [of 0 True "[]"] wire l _ _ _ _ _ _ _ ex_run [of 1 False "[]"],
      unfolded log, OF _ _ ok(2) ends(2) _ _ second, of "ex_msg 1"]
  show ?thesis by simp
qed

end
