(* ===== verification/Sse_Props.thy ===== *)
theory Sse_Props
  imports Sse_Resume
begin

text \<open>
  Properties of the event stream beside exactly-once delivery: isolation of identifiers, what the
  filters select, the meaning of a refusal, the events on the wire, and the metrics of a
  connection and of a request.
\<close>

subsection \<open>Isolation and filters\<close>

text \<open>
  C3: Whatever filter a client passes, a connection for an identifier only delivers messages that
  the broker holds with exactly that identifier, and only those a non-empty filter names.
\<close>

theorem connection_isolated:
  assumes "subscribe_begin f1 (rabbit_consume ident flt log (Inr c)) f2 l = BeginOk s"
    and "broker_log_ok log" "0 \<le> l" "l \<le> log_end log" "c \<le> l"
    and "conn_run rabbit_internal rabbit_handoff Position_rabbit parse validate
          (s, new_subscriber l) (s', b)"
    and "m \<in> set (delivered (sub_out b))"
  shows "\<exists>x \<in> set (rs_log s'). m = to_message x \<and> l \<le> b_offset x
    \<and> map_of (b_props x) ''identifier'' = Some (PStr ident)
    \<and> (flt = [] \<or> ident @ ''.'' @ fmt_s (map_of (b_props x) ''type'') @ ''.'' @ fmt_s (map_of (b_props x) ''meta'') \<in> set flt)
    \<and> (\<exists>e. parse (m_data m) = Inr e \<and> validate (m_data m))"
proof -
  note s = rabbit_subscription [OF assms(1-5)]
  have "rs_filter s' = flt" "rs_identifier s' = ident"
    using rabbit_fields_run [OF assms(6)] s by simp_all
  moreover have "l \<le> rs_start s" using s by simp
  ultimately have "prefix (delivered (sub_out b)) (wanted parse validate ident flt l (rs_log s'))"
    using rabbit.connection_order(2) [OF s(1) assms(3) _ assms(6)] s(2)
      wanted_relevant [of parse validate l s' "rs_log s'"] by (simp add: rabbit_log_def)
  then have "m \<in> set (wanted parse validate ident flt l (rs_log s'))"
    using assms(7) by (auto simp: prefix_def)
  then obtain x where x: "x \<in> set (rs_log s')" "m = to_message x" "l \<le> b_offset x"
      "relevant ident flt x" "acceptable parse validate m"
    by (auto simp: wanted_def)
  from x(5) have "\<exists>e. parse (m_data m) = Inr e \<and> validate (m_data m)"
    by (auto simp: acceptable_def accept_msg_def split: sum.splits if_splits)
  moreover from x(4) have "postFilter ident flt x" by (simp add: relevant_def)
  then have "map_of (b_props x) ''identifier'' = Some (PStr ident)
    \<and> (flt = [] \<or> ident @ ''.'' @ fmt_s (map_of (b_props x) ''type'') @ ''.'' @ fmt_s (map_of (b_props x) ''meta'') \<in> set flt)"
    unfolding postFilter_def Let_def
    by (cases "map_of (b_props x) ''identifier''"; cases "the (map_of (b_props x) ''identifier'')")
       (auto split: if_splits)
  ultimately show ?thesis using x(1,2,3) by blast
qed

lemma connection_isolated_witness:
  "\<exists>x \<in> set [ex_msg 0]. to_message (ex_msg 0) = to_message x \<and> 0 \<le> b_offset x
    \<and> map_of (b_props x) ''identifier'' = Some (PStr ''t'')
    \<and> (([]::string list) = [] \<or> ''t'' @ ''.'' @ fmt_s (map_of (b_props x) ''type'') @ ''.'' @ fmt_s (map_of (b_props x) ''meta'') \<in> set [])
    \<and> (\<exists>e. ex_parse (m_data (to_message (ex_msg 0))) = Inr e \<and> ex_validate (m_data (to_message (ex_msg 0))))"
proof -
  have first: "subscribe_begin (Inr 0) (rabbit_consume ''t'' [] [ex_msg 0] (Inr 0)) (Inr 0) 0
      = BeginOk (ex_stream 0 True [ex_msg 0])"
    by (simp add: subscribe_begin_def resumeOffset_def rabbit_consume_def NewStream_rabbit_def Consume_rabbit_def
        WithFilter_rabbit_def WithOffset_rabbit_def OffsetFirst_def ex_stream_def)
  have log: "rs_log (ex_after 0 True [ex_msg 0]) = [ex_msg 0]" by (simp add: ex_after_def ex_stream_def)
  have "broker_log_ok [ex_msg 0]" "0 \<le> log_end [ex_msg 0]"
    by (simp_all add: broker_log_ok_def log_end_def ex_msg_def)
  from connection_isolated [OF first this(1) _ this(2) _ ex_run [of 0 True "[]"], unfolded log, of "to_message (ex_msg 0)"]
  show ?thesis by (simp add: ex_sub_def)
qed

lemma dot_free_split:
  assumes "CHR ''.'' \<notin> set i" "CHR ''.'' \<notin> set t" "CHR ''.'' \<notin> set m"
  shows "i @ ''.'' @ a @ ''.'' @ b = i @ ''.'' @ t @ ''.'' @ m \<longleftrightarrow> a = t \<and> b = m"
proof
  assume "i @ ''.'' @ a @ ''.'' @ b = i @ ''.'' @ t @ ''.'' @ m"
  then have e: "a @ CHR ''.'' # b = t @ CHR ''.'' # m" by simp
  have "length (split_on (CHR ''.'') (t @ CHR ''.'' # m)) = 2"
    using assms by (simp add: split_on_append_sep split_on_no_sep)
  with e have "length (split_on (CHR ''.'') a) + length (split_on (CHR ''.'') b) = 2"
    using length_split_on_append_sep [of "CHR ''.''" a b] by simp
  then have "CHR ''.'' \<notin> set a" "CHR ''.'' \<notin> set b"
    by (simp_all add: length_split_on count_list_0_iff)
  then have "[a, b] = split_on (CHR ''.'') (a @ CHR ''.'' # b)"
    by (simp add: split_on_append_sep split_on_no_sep)
  also have "\<dots> = [t, m]" unfolding e using assms by (simp add: split_on_append_sep split_on_no_sep)
  finally show "a = t \<and> b = m" by simp
qed simp

lemma cleanFilter_type_meta:
  assumes "CHR ''.'' \<notin> set t" "CHR ''.'' \<notin> set m"
  shows "cleanFilter ident [t @ ''.'' @ m] = [ident @ ''.'' @ t @ ''.'' @ m]"
  using assms by (simp add: cleanFilter_def split_on_append_sep split_on_no_sep)

lemma cleanFilter_map:
  "cleanFilter ident fs = concat (map (\<lambda>f. cleanFilter ident [f]) fs)"
  by (induction fs) (simp_all add: cleanFilter_def)

text \<open>
  C29: Filters written as type and meta select exactly the messages of the identifier with one of
  those types and metas, after \<open>cleanFilter\<close> has put the identifier in front of them; no
  filter selects all messages of the identifier.
\<close>

theorem filters_select:
  assumes "CHR ''.'' \<notin> set ident" "\<forall>f \<in> set fs. CHR ''.'' \<notin> set (fst f) \<and> CHR ''.'' \<notin> set (snd f)"
  shows "postFilter ident (cleanFilter ident (map (\<lambda>f. fst f @ ''.'' @ snd f) fs)) b
    \<longleftrightarrow> map_of (b_props b) ''identifier'' = Some (PStr ident)
        \<and> (fs = [] \<or> (fmt_s (map_of (b_props b) ''type''), fmt_s (map_of (b_props b) ''meta'')) \<in> set fs)"
proof -
  let ?T = "fmt_s (map_of (b_props b) ''type'')" and ?M = "fmt_s (map_of (b_props b) ''meta'')"
  have flt: "cleanFilter ident (map (\<lambda>f. fst f @ ''.'' @ snd f) fs)
      = map (\<lambda>f. ident @ ''.'' @ fst f @ ''.'' @ snd f) fs"
    using assms(2)
  proof (induction fs)
    case (Cons f fs)
    then have "cleanFilter ident [fst f @ ''.'' @ snd f] = [ident @ ''.'' @ fst f @ ''.'' @ snd f]"
      by (intro cleanFilter_type_meta) auto
    with Cons show ?case by (simp add: cleanFilter_def)
  qed (simp add: cleanFilter_def)
  have "ident @ ''.'' @ ?T @ ''.'' @ ?M \<in> set (map (\<lambda>f. ident @ ''.'' @ fst f @ ''.'' @ snd f) fs)
      \<longleftrightarrow> (?T, ?M) \<in> set fs"
  proof
    assume "ident @ ''.'' @ ?T @ ''.'' @ ?M \<in> set (map (\<lambda>f. ident @ ''.'' @ fst f @ ''.'' @ snd f) fs)"
    then obtain f where f: "f \<in> set fs" "ident @ ''.'' @ ?T @ ''.'' @ ?M = ident @ ''.'' @ fst f @ ''.'' @ snd f"
      by auto
    then have "?T = fst f \<and> ?M = snd f"
      using dot_free_split [OF assms(1), of "fst f" "snd f" ?T ?M] assms(2) by blast
    with f(1) show "(?T, ?M) \<in> set fs" by simp
  qed force
  then show ?thesis
    unfolding flt postFilter_def Let_def
    by (cases "map_of (b_props b) ''identifier''"; cases "the (map_of (b_props b) ''identifier'')") auto
qed

lemma filters_select_witness:
  "postFilter ''t'' (cleanFilter ''t'' (map (\<lambda>f. fst f @ ''.'' @ snd f) [(''log'', ''info'')]))
      \<lparr>b_offset = 0, b_props = [(''identifier'', PStr ''t''), (''type'', PStr ''log''), (''meta'', PStr ''info'')], b_data = []\<rparr>
    \<longleftrightarrow> True"
  using filters_select [of "''t''" "[(''log'', ''info'')]"
      "\<lparr>b_offset = 0, b_props = [(''identifier'', PStr ''t''), (''type'', PStr ''log''), (''meta'', PStr ''info'')], b_data = []\<rparr>"]
  by (simp add: fmt_s_def)

subsection \<open>Refusals\<close>

lemma error_event_decodes:
  "json_unmarshal (ev_data (error_event retry reason)) =
     Inr (JObj [(''retry'', JBool retry), (''reason'', JStr reason)])"
  unfolding error_event_def by (simp add: json_unmarshal_enc del: json_enc.simps json_enc_members.simps)

lemma reasons_distinct:
  "reasonExpired \<noteq> []" "reasonUnknown \<noteq> []" "reasonUnknown \<noteq> reasonExpired"
  "''failed to query the event stream'' \<noteq> reasonExpired"
  by (simp_all add: reasonExpired_def reasonUnknown_def)

lemma resumeOffset_cases:
  "l \<le> 0 \<Longrightarrow> resumeOffset f l = (OffsetFirst, False, [], None)"
  "0 < l \<Longrightarrow> errors_is err ErrEmptyStream \<Longrightarrow> resumeOffset (Inl err) l = (0, False, reasonUnknown, Some err)"
  "0 < l \<Longrightarrow> \<not> errors_is err ErrEmptyStream \<Longrightarrow>
     resumeOffset (Inl err) l = (0, True, ''failed to query the event stream'', Some err)"
  "0 < l \<Longrightarrow> l < n \<Longrightarrow> \<exists>err. resumeOffset (Inr n) l = (0, False, reasonExpired, err)"
  "0 < l \<Longrightarrow> n \<le> l \<Longrightarrow> resumeOffset (Inr n) l = (l, False, [], None)"
  by (simp_all add: resumeOffset_def)

lemma resume_expired_iff: "resume_reason (resumeOffset f l) = reasonExpired \<longleftrightarrow> 0 < l \<and> (\<exists>n. f = Inr n \<and> l < n)"
proof (cases "l \<le> 0")
  case True
  then show ?thesis using reasons_distinct(1) by (simp add: resumeOffset_cases(1))
next
  case l: False
  show ?thesis
  proof (cases f)
    case (Inl err)
    then show ?thesis
      using l reasons_distinct resumeOffset_cases(2,3) [of l err]
      by (cases "errors_is err ErrEmptyStream") auto
  next
    case (Inr n)
    then show ?thesis
      using l reasons_distinct(1) resumeOffset_cases(4,5) [of l n] by (cases "l < n") auto
  qed
qed

lemma refusal_cases:
  assumes "subscribe_begin f1 consume f2 l = BeginFail e category"
  shows "\<exists>retry reason. e = error_event retry reason
    \<and> (\<not> retry \<longleftrightarrow> 0 < l
        \<and> ((\<exists>err. f1 = Inl err \<and> errors_is err ErrEmptyStream)
           \<or> (\<exists>f. f1 = Inr f \<and> l < f)
           \<or> (\<exists>f s. f1 = Inr f \<and> consume l = Inr s \<and> (\<exists>f'. f2 = Inr f' \<and> l < f'))))"
proof (cases "l \<le> 0")
  case True
  then have "e = error_event True ''failed to consume the event stream''"
    using assms by (simp add: subscribe_begin_def resumeOffset_cases(1) split: sum.splits)
  then show ?thesis using True by (intro exI conjI) (assumption, simp)
next
  case l: False
  show ?thesis
  proof (cases f1)
    case (Inl err)
    show ?thesis
    proof (cases "errors_is err ErrEmptyStream")
      case True
      then have "e = error_event False reasonUnknown"
        using l Inl assms reasons_distinct by (simp add: subscribe_begin_def resumeOffset_cases(2))
      then show ?thesis using True Inl l by (intro exI conjI) (assumption, simp)
    next
      case False
      then have "e = error_event True ''failed to query the event stream''"
        using l Inl assms by (simp add: subscribe_begin_def resumeOffset_cases(3))
      then show ?thesis using False Inl by (intro exI conjI) (assumption, simp)
    qed
  next
    case (Inr f)
    show ?thesis
    proof (cases "l < f")
      case True
      then have "e = error_event False reasonExpired"
        using l Inr assms reasons_distinct by (simp add: subscribe_begin_def resumeOffset_def)
      then show ?thesis using True Inr l by (intro exI conjI) (assumption, simp)
    next
      case ok: False
      with l Inr have r: "resumeOffset f1 l = (l, False, [], None)" by (simp add: resumeOffset_cases(5))
      show ?thesis
      proof (cases "consume l")
        case (Inl err)
        then have "e = error_event True ''failed to consume the event stream''"
          using assms r by (simp add: subscribe_begin_def)
        then show ?thesis using Inl ok Inr by (intro exI conjI) (assumption, simp)
      next
        case c: (Inr s)
        then have "e = error_event False reasonExpired" "resume_reason (resumeOffset f2 l) = reasonExpired"
          using assms r by (simp_all add: subscribe_begin_def split: if_splits)
        then show ?thesis using c Inr l unfolding resume_expired_iff by (intro exI conjI) (assumption, simp)
      qed
    qed
  qed
qed

text \<open>
  C31: A subscription that does not start sends one error event without an ID.  It forbids a retry
  exactly when the events after the client's last ID are known to be gone: the stream is empty or
  its first offset is past that ID, before or after the consumer was created.
\<close>

theorem refusal_means_lost:
  assumes "subscribe_begin f1 consume f2 l = BeginFail e category"
  shows "\<exists>retry reason. e = error_event retry reason \<and> ev_id e = 0
    \<and> json_unmarshal (ev_data e) = Inr (JObj [(''retry'', JBool retry), (''reason'', JStr reason)])
    \<and> (\<not> retry \<longleftrightarrow> 0 < l
        \<and> ((\<exists>err. f1 = Inl err \<and> errors_is err ErrEmptyStream)
           \<or> (\<exists>f. f1 = Inr f \<and> l < f)
           \<or> (\<exists>f s. f1 = Inr f \<and> consume l = Inr s \<and> (\<exists>f'. f2 = Inr f' \<and> l < f'))))"
proof -
  have "\<exists>retry reason. e = error_event retry reason
    \<and> (\<not> retry \<longleftrightarrow> 0 < l
        \<and> ((\<exists>err. f1 = Inl err \<and> errors_is err ErrEmptyStream)
           \<or> (\<exists>f. f1 = Inr f \<and> l < f)
           \<or> (\<exists>f s. f1 = Inr f \<and> consume l = Inr s \<and> (\<exists>f'. f2 = Inr f' \<and> l < f'))))"
    using assms by (rule refusal_cases)
  then obtain retry reason where e: "e = error_event retry reason"
    and iff: "\<not> retry \<longleftrightarrow> 0 < l
        \<and> ((\<exists>err. f1 = Inl err \<and> errors_is err ErrEmptyStream)
           \<or> (\<exists>f. f1 = Inr f \<and> l < f)
           \<or> (\<exists>f s. f1 = Inr f \<and> consume l = Inr s \<and> (\<exists>f'. f2 = Inr f' \<and> l < f')))"
    by blast
  have "ev_id e = 0" unfolding e by (simp add: error_event_def empty_event_def)
  with e iff error_event_decodes [of retry reason] show ?thesis by blast
qed

lemma refusal_means_lost_witness:
  "\<exists>retry reason. error_event False reasonExpired = error_event retry reason
    \<and> ev_id (error_event False reasonExpired) = 0
    \<and> json_unmarshal (ev_data (error_event False reasonExpired)) = Inr (JObj [(''retry'', JBool retry), (''reason'', JStr reason)])
    \<and> (\<not> retry \<longleftrightarrow> (0::int) < 3 \<and> ((\<exists>err. (Inr 7 :: gerror + int) = Inl err \<and> errors_is err ErrEmptyStream)
           \<or> (\<exists>f. (Inr 7 :: gerror + int) = Inr f \<and> 3 < f)
           \<or> (\<exists>f s. (Inr 7 :: gerror + int) = Inr f \<and> (Inr () :: gerror + unit) = Inr s \<and> (\<exists>f'. (Inr 7 :: gerror + int) = Inr f' \<and> 3 < f'))))"
  by (rule refusal_means_lost [of "Inr 7" "\<lambda>_. Inr ()" "Inr 7" 3 _ None])
     (simp add: subscribe_begin_def resumeOffset_def reasonExpired_def)

text \<open>The second check takes a failed query for a good answer.\<close>

lemma second_check_ignores_errors:
  "0 < l \<Longrightarrow> f \<le> l \<Longrightarrow> consume l = Inr s \<Longrightarrow> subscribe_begin (Inr f) consume (Inl err) l = BeginOk s"
  by (simp add: subscribe_begin_def resumeOffset_cases resume_expired_iff)


subsection \<open>Events on the wire\<close>



subsection \<open>Metrics of connections and requests\<close>

lemma gauge_active: "gauge_ok m \<Longrightarrow> mt_active m = int (mt_total m) - int (disconnect_total m)"
  by (simp add: gauge_ok_def)

lemma mt_active_ops [simp]:
  "mt_active (ConnectionOpened m) = mt_active m + 1"
  "mt_active (ConnectionClosedWithReason r m) = mt_active m - 1"
  "mt_active (ReconnectRequested m) = mt_active m"
  "mt_active (StreamError c m) = mt_active m"
  "mt_active (EventDelivered e m) = mt_active m"
  by (simp_all add: ConnectionOpened_def ConnectionClosedWithReason_def ReconnectRequested_def
      StreamError_def EventDelivered_def Let_def)

lemma GetEvents_start_metrics:
  assumes "GetEvents_start shutting newStream flushable ident hdr fs (r, m) = (opened, r', m')"
    and "labels_bounded m" "rec_ok r"
  shows "labels_bounded m' \<and> rec_ok r'
    \<and> mt_active m' = mt_active m + (if opened = None then 0 else 1)
    \<and> disconnect_total m' = disconnect_total m"
  using assms
  by (auto simp: GetEvents_start_def Let_def etos_inv split: if_splits sum.splits)



text \<open>
  \<open>Wrap\<close> records a handler's request once, under the status class and outcome of the
  status the client was sent; a panic of the handler goes through and nothing is recorded.
\<close>

theorem Wrap_records_status:
  assumes "rec_ok (fst (snd (handler (new_recorder w, m))))"
  shows "(case handler (new_recorder w, m) of
      (Returned _, r, m1) \<Rightarrow>
        (let status = (case w_status (rec_writer r) of None \<Rightarrow> 200 | Some c \<Rightarrow> c);
             class = itoa (status div 100) @ ''xx'';
             out = (if status \<ge> 500 then ''server_error'' else if status \<ge> 400 then ''client_error'' else ''success'')
         in Wrap route method handler (w, m) = (Returned (), rec_writer r,
              m1\<lparr>mt_requests := (mt_requests m1)((method, route, class, out) := Suc (mt_requests m1 (method, route, class, out))),
                 mt_durations := (mt_durations m1)((method, route, out) := Suc (mt_durations m1 (method, route, out)))\<rparr>))
    | (Panicked p, r, m1) \<Rightarrow> Wrap route method handler (w, m) = (Panicked p, rec_writer r, m1))"
proof -
  obtain res r m1 where h: "handler (new_recorder w, m) = (res, r, m1)"
    by (cases "handler (new_recorder w, m)")
  then have st: "(case w_status (rec_writer r) of None \<Rightarrow> 200 | Some c \<Rightarrow> c) = rec_status r"
    using assms by (cases "w_status (rec_writer r)") (simp_all add: rec_ok_def)
  show ?thesis
  proof (cases res)
    case (Returned u)
    with h st show ?thesis
      by (simp add: Wrap_def recordRequest_def bump_def status_class_def status_outcome_def Let_def del: One_nat_def)
  qed (simp add: h Wrap_def)
qed

lemma Wrap_records_status_witness:
  "mt_requests (snd (snd (Wrap ''/r'' ''GET'' (\<lambda>(r, m). (Returned (), rec_WriteHeader 503 r, m)) (new_writer, NewSSEMetrics))))
     (''GET'', ''/r'', itoa 5 @ ''xx'', ''server_error'') = 1"
  using Wrap_records_status [of "\<lambda>(r, m). (Returned (), rec_WriteHeader 503 r, m)" new_writer NewSSEMetrics "''/r''" "''GET''"]
  by (simp add: new_recorder_def rec_WriteHeader_def rec_ok_def new_writer_def write_header_def NewSSEMetrics_def Let_def)

subsection \<open>The file stream\<close>




subsection \<open>Well-formedness\<close>

text \<open>
  C28: What a subscriber sends is well formed: when the schema only lets event names through that
  are one line, then on any stream and in every reachable state every event that was sent, pings and
  errors included, has a name and data of one line each, so that no message can add fields or events
  of its own to the stream.
\<close>

theorem events_sent_well_formed:
  assumes "flt_ok flt" "\<forall>d e. events_New flt d = Inr e \<longrightarrow> validate d \<longrightarrow> one_line (ev_event e)"
    and "conn_run internal handoff position (events_New flt) validate (s, new_subscriber l) (s', b)"
    and "(e, m) \<in> set (sub_out b)"
  shows "event_ok e \<and> butlast (split_on nl (event_Write e)) = event_lines e @ [[]]"
proof -
  have "events_valid (events_New flt) validate"
    using assms(1,2) events_New_one_line by (auto simp: events_valid_def event_ok_def)
  then have ok: "event_ok e"
    using conn_run_events_ok [OF _ assms(3)] assms(4) by (force simp: new_subscriber_def)
  have "one_line (itoa (ev_id e))" "one_line (ev_event e)" "one_line (ev_data e)"
    using ok itoa_one_line by (auto simp: event_ok_def one_line_def)
  then have "\<forall>l \<in> set (event_lines e @ [[]]). one_line l"
    by (auto simp add: event_lines_def one_line_fields [simplified]) (simp add: one_line_def)
  moreover have "event_Write e = concat (map (\<lambda>l. l @ [nl]) (event_lines e @ [[]]))"
    by (simp add: event_Write_lines)
  ultimately show ?thesis using ok split_lines by metis
qed

definition ex_flt :: "string \<Rightarrow> string option" where
  "ex_flt l = (if valid_num l then Some l else None)"

definition ex_schema :: "bytes \<Rightarrow> bool" where
  "ex_schema d = (case events_New ex_flt d of Inl _ \<Rightarrow> False | Inr e \<Rightarrow> one_line (ev_event e))"

theorem events_sent_well_formed_witness:
  "\<exists>s b. conn_run rabbit_internal rabbit_handoff Position_rabbit (events_New ex_flt) ex_schema
       (s, new_subscriber 0) (ex_after 0 True [ex_msg 0], b)
     \<and> (ex_event 0, Some (to_message (ex_msg 0))) \<in> set (sub_out b)
     \<and> butlast (split_on nl (event_Write (ex_event 0))) = event_lines (ex_event 0) @ [[]]"
proof -
  let ?s = "(ex_stream 0 True [ex_msg 0])\<lparr>rs_consumer := Some 0, rs_next := 1, rs_offer := Some (to_message (ex_msg 0))\<rparr>"
  have flt: "flt_ok ex_flt" by (simp add: flt_ok_def ex_flt_def)
  have schema: "\<forall>d e. events_New ex_flt d = Inr e \<longrightarrow> ex_schema d \<longrightarrow> one_line (ev_event e)"
    by (simp add: ex_schema_def)
  have handoff: "rabbit_handoff ?s (to_message (ex_msg 0)) (ex_after 0 True [ex_msg 0])"
    by (simp add: rabbit_handoff_iff ex_after_def ex_stream_def)
  have b: "sub_step (events_New ex_flt) ex_schema (MsgRecv (to_message (ex_msg 0)) True) (new_subscriber 0) = ex_sub 0"
    by code_simp
  have fresh: "\<not> sub_done (new_subscriber 0)" by (simp add: new_subscriber_def)
  have "conn_step rabbit_internal rabbit_handoff Position_rabbit (events_New ex_flt) ex_schema (?s, new_subscriber 0)
      (ex_after 0 True [ex_msg 0], sub_step (events_New ex_flt) ex_schema (MsgRecv (to_message (ex_msg 0)) True) (new_subscriber 0))"
    using fresh handoff by (rule conn_message)
  then have r: "conn_run rabbit_internal rabbit_handoff Position_rabbit (events_New ex_flt) ex_schema
      (?s, new_subscriber 0) (ex_after 0 True [ex_msg 0], ex_sub 0)"
    unfolding b by (rule conn_trans [OF conn_refl])
  have m: "(ex_event 0, Some (to_message (ex_msg 0))) \<in> set (sub_out (ex_sub 0))" by (simp add: ex_sub_def)
  show ?thesis using r m events_sent_well_formed [OF flt schema r m] by blast
qed

end
