(* ===== verification/Etcd.thy ===== *)
theory Etcd
  imports Go_Map "HOL-Library.Word"
begin

text \<open>
  \<open>internal/database\<close>: the \<open>Opener\<close> interface as the locale \<open>byte_store\<close>, a byte
  string per UUID, and its implementation over etcd in \<open>etcd/etcd.go\<close>.  The etcd client and
  the UUID library are parameters: \<open>etcd_lawful\<close> and \<open>uuid_lawful\<close> state what is
  documented of them.
\<close>

subsection \<open>UUIDs\<close>

type_synonym uuid = "128 word"

abbreviation uuid_Nil :: uuid where "uuid_Nil \<equiv> 0"

text \<open>
  \<open>String\<close> and \<open>Parse\<close> of \<open>google/uuid\<close>; with an error, \<open>Parse\<close> returns whatever it
  has read so far.
\<close>

record uuid_lib =
  u_string :: "uuid \<Rightarrow> string"
  u_parse :: "string \<Rightarrow> uuid \<times> gerror option"

definition uuid_lawful :: "uuid_lib \<Rightarrow> bool" where
  "uuid_lawful L = (\<forall>u. u_string L u \<noteq> [] \<and> u_parse L (u_string L u) = (u, None))"

lemma uuid_lawfulD:
  "uuid_lawful L \<Longrightarrow> u_parse L (u_string L u) = (u, None)"
  "uuid_lawful L \<Longrightarrow> u_string L u \<noteq> []"
  "uuid_lawful L \<Longrightarrow> u_string L u = u_string L v \<longleftrightarrow> u = v"
  unfolding uuid_lawful_def by blast (metis prod.inject)+

text \<open>A \<open>uuid.UUID\<close> field of a struct: text unmarshalling, \<open>null\<close> leaves it as it is.\<close>

definition dec_uuid :: "uuid_lib \<Rightarrow> json \<Rightarrow> uuid \<Rightarrow> gerror + uuid" where
  "dec_uuid L j old =
     (case j of
        JStr s \<Rightarrow> (case u_parse L s of (u, None) \<Rightarrow> Inr u | (_, Some err) \<Rightarrow> Inl err)
      | JNull \<Rightarrow> Inr old
      | _ \<Rightarrow> Inl (Text ''json: cannot unmarshal into Go value of type uuid.UUID''))"

subsection \<open>The interface\<close>

text \<open>
  A store as its clients use it: one \<open>Open\<close> followed by one \<open>Write\<close>, or by reads to the
  end, or by \<open>Delete\<close>, on the state \<open>'s\<close> of the world.
\<close>

record 's opener =
  db_write :: "uuid \<Rightarrow> bytes \<Rightarrow> 's \<Rightarrow> gerror option \<times> 's"
  db_read :: "uuid \<Rightarrow> 's \<Rightarrow> (gerror + bytes) \<times> 's"
  db_delete :: "uuid \<Rightarrow> 's \<Rightarrow> gerror option \<times> 's"

text \<open>
  The laws: a successful operation has its effect, a failed one may have had it, as with any
  request that times out, and nothing touches another key.  An absent value reads as no bytes.
\<close>

locale byte_store =
  fixes db :: "'s opener"
    and ok :: "'s \<Rightarrow> bool"
    and contents :: "'s \<Rightarrow> uuid \<Rightarrow> bytes option"
  assumes write_done: "ok s \<Longrightarrow> db_write db uid b s = (None, s') \<Longrightarrow>
          ok s' \<and> uid \<noteq> uuid_Nil \<and> contents s' = (contents s)(uid \<mapsto> b)"
    and write_failed: "ok s \<Longrightarrow> db_write db uid b s = (Some e, s') \<Longrightarrow>
          ok s' \<and> (contents s' = contents s \<or> contents s' = (contents s)(uid \<mapsto> b))"
    and read_done: "ok s \<Longrightarrow> db_read db uid s = (Inr b, s') \<Longrightarrow>
          ok s' \<and> contents s' = contents s \<and> b = (case contents s uid of None \<Rightarrow> [] | Some v \<Rightarrow> v)"
    and read_failed: "ok s \<Longrightarrow> db_read db uid s = (Inl e, s') \<Longrightarrow> ok s' \<and> contents s' = contents s"
    and delete_done: "ok s \<Longrightarrow> db_delete db uid s = (None, s') \<Longrightarrow>
          ok s' \<and> contents s' = (contents s)(uid := None)"
    and delete_failed: "ok s \<Longrightarrow> db_delete db uid s = (Some e, s') \<Longrightarrow>
          ok s' \<and> (contents s' = contents s \<or> contents s' = (contents s)(uid := None))"
begin

lemma write_frame:
  "ok s \<Longrightarrow> db_write db uid b s = (r, s') \<Longrightarrow> ok s' \<and> (\<forall>i. i \<noteq> uid \<longrightarrow> contents s' i = contents s i)"
  using write_done [of s uid b s'] write_failed [of s uid b _ s'] by (cases r) auto

lemma read_keeps:
  "ok s \<Longrightarrow> db_read db uid s = (r, s') \<Longrightarrow> ok s' \<and> contents s' = contents s"
  using read_done [of s uid _ s'] read_failed [of s uid _ s'] by (cases r) auto

lemma read_back:
  "ok s \<Longrightarrow> db_write db uid b s = (None, s1) \<Longrightarrow> db_read db uid s1 = (Inr c, s2) \<Longrightarrow> c = b"
  using write_done [of s uid b s1] read_done [of s1 uid c s2] by auto

end

text \<open>A store on which the operations on real keys succeed.\<close>

locale reliable_store = byte_store +
  assumes write_works: "ok s \<Longrightarrow> uid \<noteq> uuid_Nil \<Longrightarrow> fst (db_write db uid b s) = None"
    and read_works: "ok s \<Longrightarrow> uid \<noteq> uuid_Nil \<Longrightarrow> is_ok (fst (db_read db uid s))"
begin

lemma write_obtain:
  assumes "ok s" "uid \<noteq> uuid_Nil"
  obtains s' where "db_write db uid b s = (None, s')" "ok s'" "contents s' = (contents s)(uid \<mapsto> b)"
  using write_works [OF assms, of b] write_done [OF assms(1), of uid b] by (cases "db_write db uid b s") auto

lemma read_obtain:
  assumes "ok s" "uid \<noteq> uuid_Nil"
  obtains s' where "db_read db uid s = (Inr (case contents s uid of None \<Rightarrow> [] | Some v \<Rightarrow> v), s')"
    "ok s'" "contents s' = contents s"
proof -
  obtain r s' where r: "db_read db uid s = (r, s')" by (cases "db_read db uid s")
  with read_works [OF assms] obtain b where "r = Inr b" by (cases r) auto
  with r read_done [OF assms(1), of uid b s'] that show thesis by auto
qed

end

subsection \<open>The etcd client\<close>

text \<open>
  The client's \<open>Put\<close>, \<open>Get\<close> (the values of the returned pairs) and \<open>Delete\<close> on the state
  of the cluster; \<open>cl_view\<close> is what the cluster holds, for reference in the laws.
\<close>

record 's etcd_client =
  cl_put :: "string \<Rightarrow> bytes \<Rightarrow> 's \<Rightarrow> gerror option \<times> 's"
  cl_get :: "string \<Rightarrow> 's \<Rightarrow> (gerror + bytes list) \<times> 's"
  cl_del :: "string \<Rightarrow> 's \<Rightarrow> gerror option \<times> 's"
  cl_view :: "'s \<Rightarrow> string \<Rightarrow> bytes option"

definition etcd_lawful :: "'s etcd_client \<Rightarrow> bool" where
  "etcd_lawful c =
     ((\<forall>k v s s'. cl_put c k v s = (None, s') \<longrightarrow> cl_view c s' = (cl_view c s)(k \<mapsto> v))
      \<and> (\<forall>k v s e s'. cl_put c k v s = (Some e, s') \<longrightarrow>
            cl_view c s' = cl_view c s \<or> cl_view c s' = (cl_view c s)(k \<mapsto> v))
      \<and> (\<forall>k s r s'. cl_get c k s = (r, s') \<longrightarrow> cl_view c s' = cl_view c s)
      \<and> (\<forall>k s vs s'. cl_get c k s = (Inr vs, s') \<longrightarrow>
            vs = (case cl_view c s k of None \<Rightarrow> [] | Some v \<Rightarrow> [v]))
      \<and> (\<forall>k s s'. cl_del c k s = (None, s') \<longrightarrow> cl_view c s' = (cl_view c s)(k := None))
      \<and> (\<forall>k s e s'. cl_del c k s = (Some e, s') \<longrightarrow>
            cl_view c s' = cl_view c s \<or> cl_view c s' = (cl_view c s)(k := None)))"

subsection \<open>The Etcd handle\<close>

record etcd =
  et_ID :: uuid
  et_treePrefix :: string
  et_data :: bytes
  et_hasRead :: bool

definition etcd_New :: "string \<Rightarrow> etcd" where
  "etcd_New treePrefix = \<lparr>et_ID = uuid_Nil, et_treePrefix = treePrefix, et_data = [], et_hasRead = False\<rparr>"

text \<open>\<open>Open\<close> copies the client and the configuration, and sets the ID.\<close>

definition etcd_Open :: "etcd \<Rightarrow> uuid \<Rightarrow> etcd" where
  "etcd_Open etcd uid = \<lparr>et_ID = uid, et_treePrefix = [], et_data = [], et_hasRead = False\<rparr>"

definition etcd_key :: "uuid_lib \<Rightarrow> etcd \<Rightarrow> string" where
  "etcd_key L etcd = et_treePrefix etcd @ ''/'' @ u_string L (et_ID etcd)"

definition etcd_Write :: "uuid_lib \<Rightarrow> 's etcd_client \<Rightarrow> etcd \<Rightarrow> bytes \<Rightarrow> 's \<Rightarrow> (nat \<times> gerror option) \<times> 's" where
  "etcd_Write L c etcd p s =
     (if et_ID etcd = uuid_Nil then ((0, Some (Text ''please create a new etcd client using Open'')), s)
      else (case cl_put c (etcd_key L etcd) p s of
          (Some err, s') \<Rightarrow> ((0, Some err), s')
        | (None, s') \<Rightarrow> ((length p, None), s')))"

text \<open>One \<open>Read\<close> into a buffer of length \<open>n\<close>: the bytes copied, the error, the handle.\<close>

definition etcd_copy :: "etcd \<Rightarrow> nat \<Rightarrow> bytes \<times> gerror option \<times> etcd" where
  "etcd_copy etcd n =
     (if length (et_data etcd) = 0 then ([], Some io_EOF, etcd)
      else (let p = take n (et_data etcd);
                etcd' = etcd\<lparr>et_data := drop (length p) (et_data etcd)\<rparr>
            in if length p = 0 then ([], Some io_EOF, etcd') else (p, None, etcd')))"

definition etcd_Read ::
  "uuid_lib \<Rightarrow> 's etcd_client \<Rightarrow> etcd \<Rightarrow> nat \<Rightarrow> 's \<Rightarrow> (bytes \<times> gerror option \<times> etcd) \<times> 's" where
  "etcd_Read L c etcd n s =
     (if et_ID etcd = uuid_Nil then (([], Some (Text ''please create a new etcd client using NewWithID''), etcd), s)
      else if \<not> et_hasRead etcd then
        (case cl_get c (etcd_key L etcd) s of
           (Inl err, s') \<Rightarrow> (([], Some err, etcd), s')
         | (Inr [], s') \<Rightarrow> (([], Some io_EOF, etcd), s')
         | (Inr (v # _), s') \<Rightarrow> (etcd_copy (etcd\<lparr>et_data := v, et_hasRead := True\<rparr>) n, s'))
      else (etcd_copy etcd n, s))"

definition etcd_Delete :: "uuid_lib \<Rightarrow> 's etcd_client \<Rightarrow> etcd \<Rightarrow> 's \<Rightarrow> gerror option \<times> 's" where
  "etcd_Delete L c etcd s =
     (case cl_del c (etcd_key L etcd) s of
        (Some err, s') \<Rightarrow>
          (Some (Text (''Failed to delete key '' @ etcd_key L etcd @ '': '' @ err_string err)), s')
      | (None, s') \<Rightarrow> (None, s'))"

text \<open>
  Reading until an error, as \<open>io.Reader\<close>'s users do, with the buffer sizes they happen to
  choose; each is positive.  The result is what was read and the error that ended it.
\<close>

fun etcd_read_loop ::
  "uuid_lib \<Rightarrow> 's etcd_client \<Rightarrow> (nat \<Rightarrow> nat) \<Rightarrow> nat \<Rightarrow> etcd \<Rightarrow> 's \<Rightarrow> (bytes \<times> gerror option) \<times> 's" where
  "etcd_read_loop L c sizes 0 etcd s = (([], None), s)"
| "etcd_read_loop L c sizes (Suc fuel) etcd s =
     (case etcd_Read L c etcd (sizes fuel) s of
        ((p, Some err, etcd'), s') \<Rightarrow> ((p, Some err), s')
      | ((p, None, etcd'), s') \<Rightarrow>
          (case etcd_read_loop L c sizes fuel etcd' s' of ((q, err), s'') \<Rightarrow> ((p @ q, err), s'')))"

lemma etcd_read_rest:
  assumes "et_ID e \<noteq> uuid_Nil" "et_hasRead e" "\<forall>k. 0 < sizes k" "length (et_data e) < fuel"
  shows "etcd_read_loop L c sizes fuel e s = ((et_data e, Some io_EOF), s)"
  using assms
proof (induction fuel arbitrary: e)
  case (Suc fuel)
  show ?case
  proof (cases "et_data e = []")
    case True
    with Suc.prems show ?thesis by (simp add: etcd_Read_def etcd_copy_def)
  next
    case False
    let ?n = "length (take (sizes fuel) (et_data e))"
    let ?e = "e\<lparr>et_data := drop ?n (et_data e)\<rparr>"
    have n: "0 < ?n" using False Suc.prems(3) by simp
    have "etcd_read_loop L c sizes fuel ?e s = ((et_data ?e, Some io_EOF), s)"
    proof (intro Suc.IH)
      have "length (et_data ?e) = length (et_data e) - ?n" by simp
      moreover have "0 < length (et_data e)" using False by simp
      ultimately show "length (et_data ?e) < fuel" using n Suc.prems(4) by linarith
    qed (use Suc.prems in simp_all)
    moreover have "take (sizes fuel) (et_data e) @ drop ?n (et_data e) = et_data e"
      by (cases "length (et_data e) \<le> sizes fuel") simp_all
    ultimately show ?thesis
      using Suc.prems False n by (simp add: etcd_Read_def etcd_copy_def Let_def)
  qed
qed simp

text \<open>Reading a freshly opened handle gives the whole value, whatever the buffers.\<close>

lemma etcd_read_whole:
  assumes "uid \<noteq> uuid_Nil" "\<forall>k. 0 < sizes k"
    and "cl_get c (etcd_key L (etcd_Open e0 uid)) s = (Inr (v # vs), s')" "length v < fuel"
  shows "etcd_read_loop L c sizes fuel (etcd_Open e0 uid) s = ((v, Some io_EOF), s')"
proof -
  let ?e = "etcd_Open e0 uid"
  let ?e1 = "?e\<lparr>et_data := v, et_hasRead := True\<rparr>"
  have one: "etcd_Read L c ?e n s = (fst (etcd_Read L c ?e1 n s'), s')" for n
    using assms(1,3) by (simp add: etcd_Read_def) (simp add: etcd_Open_def)
  have same: "snd (etcd_Read L c ?e1 n s') = s'" for n
    using assms(1) by (simp add: etcd_Read_def etcd_Open_def)
  obtain f where f: "fuel = Suc f" using assms(4) by (cases fuel) auto
  have "etcd_read_loop L c sizes fuel ?e s = etcd_read_loop L c sizes fuel ?e1 s'"
    using one [of "sizes f"] same [of "sizes f"] unfolding f
    by (cases "etcd_Read L c ?e1 (sizes f) s'") simp
  also have "\<dots> = ((v, Some io_EOF), s')"
    using etcd_read_rest [of ?e1 sizes fuel] assms by (simp add: etcd_Open_def)
  finally show ?thesis .
qed

subsection \<open>Etcd as a byte store\<close>

text \<open>Reads use the buffers of \<open>json.Decoder\<close>, which starts at 512 bytes and grows.\<close>

definition etcd_fetch :: "uuid_lib \<Rightarrow> 's etcd_client \<Rightarrow> etcd \<Rightarrow> uuid \<Rightarrow> 's \<Rightarrow> (gerror + bytes) \<times> 's" where
  "etcd_fetch L c e0 uid s =
     (if uid = uuid_Nil then (Inl (Text ''please create a new etcd client using NewWithID''), s)
      else (case cl_get c (etcd_key L (etcd_Open e0 uid)) s of
         (Inl err, s') \<Rightarrow> (Inl err, s')
       | (Inr [], s') \<Rightarrow> (Inr [], s')
       | (Inr (v # _), s') \<Rightarrow>
           (case etcd_read_loop L c (\<lambda>_. 512) (Suc (length v)) (etcd_Open e0 uid) s of
              ((b, _), _) \<Rightarrow> (Inr b, s'))))"

definition etcd_opener :: "uuid_lib \<Rightarrow> 's etcd_client \<Rightarrow> etcd \<Rightarrow> 's opener" where
  "etcd_opener L c e0 =
     \<lparr>db_write = (\<lambda>uid b s. case etcd_Write L c (etcd_Open e0 uid) b s of ((_, err), s') \<Rightarrow> (err, s')),
      db_read = etcd_fetch L c e0,
      db_delete = (\<lambda>uid s. etcd_Delete L c (etcd_Open e0 uid) s)\<rparr>"

definition etcd_contents :: "uuid_lib \<Rightarrow> 's etcd_client \<Rightarrow> 's \<Rightarrow> uuid \<Rightarrow> bytes option" where
  "etcd_contents L c s uid = cl_view c s (''/'' @ u_string L uid)"

lemma etcd_key_Open [simp]: "etcd_key L (etcd_Open e0 uid) = ''/'' @ u_string L uid"
  by (simp add: etcd_key_def etcd_Open_def)

lemma etcd_fetch_eq:
  "etcd_fetch L c e0 uid s =
     (if uid = uuid_Nil then (Inl (Text ''please create a new etcd client using NewWithID''), s)
      else (case cl_get c (''/'' @ u_string L uid) s of
         (Inl err, s') \<Rightarrow> (Inl err, s')
       | (Inr vs, s') \<Rightarrow> (Inr (case vs of [] \<Rightarrow> [] | v # _ \<Rightarrow> v), s')))"
  using etcd_read_whole [of uid "\<lambda>_. 512" c L e0 s]
  by (auto simp: etcd_fetch_def simp del: etcd_read_loop.simps split: prod.split sum.split list.split)

lemma etcd_contents_upd:
  assumes "uuid_lawful L"
  shows "cl_view c s' = (cl_view c s)(''/'' @ u_string L uid := v) \<Longrightarrow>
    etcd_contents L c s' = (etcd_contents L c s)(uid := v)"
  using uuid_lawfulD(3) [OF assms] by (fastforce simp: etcd_contents_def fun_eq_iff)

lemma etcd_contents_same: "cl_view c s' = cl_view c s \<Longrightarrow> etcd_contents L c s' = etcd_contents L c s"
  by (simp add: etcd_contents_def fun_eq_iff)

lemma etcd_lawfulD:
  assumes "etcd_lawful c"
  shows "cl_put c k v s = (None, s') \<Longrightarrow> cl_view c s' = (cl_view c s)(k \<mapsto> v)"
    and "cl_put c k v s = (Some e, s') \<Longrightarrow> cl_view c s' = cl_view c s \<or> cl_view c s' = (cl_view c s)(k \<mapsto> v)"
    and "cl_get c k s = (r, s') \<Longrightarrow> cl_view c s' = cl_view c s"
    and "cl_get c k s = (Inr vs, s') \<Longrightarrow> vs = (case cl_view c s k of None \<Rightarrow> [] | Some v \<Rightarrow> [v])"
    and "cl_del c k s = (None, s') \<Longrightarrow> cl_view c s' = (cl_view c s)(k := None)"
    and "cl_del c k s = (Some e, s') \<Longrightarrow> cl_view c s' = cl_view c s \<or> cl_view c s' = (cl_view c s)(k := None)"
  by (use assms in \<open>simp_all only: etcd_lawful_def\<close>)

interpretation etcd_store: byte_store "etcd_opener L c e0" "\<lambda>s. etcd_lawful c \<and> uuid_lawful L"
  "etcd_contents L c" for L c e0
proof (unfold_locales, goal_cases)
  case (1 s uid b s')
  then have "uid \<noteq> uuid_Nil \<and> cl_put c (''/'' @ u_string L uid) b s = (None, s')"
    by (auto simp: etcd_opener_def etcd_Write_def etcd_Open_def etcd_key_def split: if_splits prod.splits option.splits)
  with 1 etcd_contents_upd etcd_lawfulD(1) show ?case by metis
next
  case (2 s uid b e s')
  then have "s' = s \<or> cl_put c (''/'' @ u_string L uid) b s = (Some e, s')"
    by (auto simp: etcd_opener_def etcd_Write_def etcd_Open_def etcd_key_def split: if_splits prod.splits option.splits)
  with 2 etcd_contents_upd etcd_contents_same etcd_lawfulD(2) show ?case by metis
next
  case (3 s uid b s')
  then obtain vs where g: "cl_get c (''/'' @ u_string L uid) s = (Inr vs, s')" "b = (case vs of [] \<Rightarrow> [] | v # _ \<Rightarrow> v)"
    by (auto simp: etcd_opener_def etcd_fetch_eq split: if_splits prod.splits sum.splits)
  have "etcd_contents L c s' = etcd_contents L c s"
    using 3 etcd_lawfulD(3) [OF _ g(1)] by (intro etcd_contents_same) blast
  moreover have "vs = (case etcd_contents L c s uid of None \<Rightarrow> [] | Some v \<Rightarrow> [v])"
    using 3 etcd_lawfulD(4) [OF _ g(1)] by (simp add: etcd_contents_def)
  ultimately show ?case using 3 g(2) by (simp split: option.splits)
next
  case (4 s uid e s')
  then have "s' = s \<or> cl_get c (''/'' @ u_string L uid) s = (Inl e, s')"
    by (auto simp: etcd_opener_def etcd_fetch_eq split: if_splits prod.splits sum.splits)
  with 4 etcd_contents_same etcd_lawfulD(3) show ?case by metis
next
  case (5 s uid s')
  then have "cl_del c (''/'' @ u_string L uid) s = (None, s')"
    by (auto simp: etcd_opener_def etcd_Delete_def split: prod.splits option.splits)
  with 5 etcd_contents_upd etcd_lawfulD(5) show ?case by metis
next
  case (6 s uid e s')
  then obtain err where "cl_del c (''/'' @ u_string L uid) s = (Some err, s')"
    by (auto simp: etcd_opener_def etcd_Delete_def split: prod.splits option.splits)
  with 6 etcd_contents_upd etcd_contents_same etcd_lawfulD(6) show ?case by metis
qed


definition etcd_reliable :: "'s etcd_client \<Rightarrow> bool" where
  "etcd_reliable c = ((\<forall>k v s. fst (cl_put c k v s) = None) \<and> (\<forall>k s. is_ok (fst (cl_get c k s))))"

interpretation etcd_reliable: reliable_store "etcd_opener L c e0"
  "\<lambda>s. etcd_lawful c \<and> uuid_lawful L \<and> etcd_reliable c" "etcd_contents L c" for L c e0
proof (unfold_locales, goal_cases)
  case (1 s uid b s') then show ?case using etcd_store.write_done [of c L e0 uid b s s'] by simp
next
  case (2 s uid b e s') then show ?case using etcd_store.write_failed [of c L e0 uid b s e s'] by simp
next
  case (3 s uid b s') then show ?case using etcd_store.read_done [of c L e0 uid s b s'] by simp
next
  case (4 s uid e s') then show ?case using etcd_store.read_failed [of c L e0 uid s e s'] by simp
next
  case (5 s uid s') then show ?case using etcd_store.delete_done [of c L e0 uid s s'] by simp
next
  case (6 s uid e s') then show ?case using etcd_store.delete_failed [of c L e0 uid s e s'] by simp
next
  case (7 s uid b)
  then have "fst (cl_put c (''/'' @ u_string L uid) b s) = None" by (simp add: etcd_reliable_def)
  with 7 show ?case
    by (auto simp: etcd_opener_def etcd_Write_def etcd_Open_def etcd_key_def split: prod.splits option.splits)
next
  case (8 s uid)
  then have "is_ok (fst (cl_get c (''/'' @ u_string L uid) s))" by (simp add: etcd_reliable_def)
  with 8 show ?case
    by (auto simp: etcd_opener_def etcd_fetch_eq is_ok_def split: prod.splits sum.splits)
qed

end
