(* ===== verification/Execution_Space.thy ===== *)
theory Execution_Space
  imports Etcd Go_Http
begin

text \<open>
  \<open>pkg/executionspace/executionspace\<close>: execution spaces and executor specifications, their
  JSON documents, and loading them from and saving them to a store.  A nil slice is \<open>None\<close>.
  \<open>errors/errors.go\<close> is here too.
\<close>

subsection \<open>Types\<close>

text \<open>\<open>Data\<close> has the one field \<open>ID\<close>, so \<open>rq_Data\<close> is that ID.\<close>

record exec_request =
  rq_URL :: string
  rq_Method :: string
  rq_Data :: uuid
  rq_Headers :: "string gmap option"
  rq_Timeout :: int

record instructions =
  in_Image :: string
  in_Environment :: "string gmap option"
  in_Parameters :: "string gmap option"
  in_Identifier :: uuid

record executor_spec =
  ex_Request :: exec_request
  ex_Instructions :: instructions
  ex_ID :: uuid
  ex_BuildID :: string

text \<open>The three constants of \<open>CheckoutStatus\<close>; the field itself is a string.\<close>

definition status_Pending :: string where "status_Pending = ''PENDING''"
definition status_Failed :: string where "status_Failed = ''FAILED''"
definition status_Done :: string where "status_Done = ''DONE''"

record execution_space =
  es_ID :: uuid
  es_Executors :: "executor_spec list option"
  es_References :: "string list option"
  es_Status :: string
  es_Description :: string

definition zero_executor :: executor_spec where
  "zero_executor =
     \<lparr>ex_Request = \<lparr>rq_URL = [], rq_Method = [], rq_Data = uuid_Nil, rq_Headers = None, rq_Timeout = 0\<rparr>,
      ex_Instructions = \<lparr>in_Image = [], in_Environment = None, in_Parameters = None, in_Identifier = uuid_Nil\<rparr>,
      ex_ID = uuid_Nil, ex_BuildID = []\<rparr>"

definition zero_space :: execution_space where
  "zero_space = \<lparr>es_ID = uuid_Nil, es_Executors = None, es_References = None, es_Status = [], es_Description = []\<rparr>"

subsection \<open>Documents\<close>

definition enc_request :: "uuid_lib \<Rightarrow> exec_request \<Rightarrow> json" where
  "enc_request L r =
     JObj [(''url'', JStr (rq_URL r)), (''method'', JStr (rq_Method r)),
           (''json'', JObj [(''id'', JStr (u_string L (rq_Data r)))]),
           (''headers'', enc_string_map (rq_Headers r)), (''timeout'', JNum (itoa (rq_Timeout r)))]"

definition enc_instructions :: "uuid_lib \<Rightarrow> instructions \<Rightarrow> json" where
  "enc_instructions L i =
     JObj [(''image'', JStr (in_Image i)), (''environment'', enc_string_map (in_Environment i)),
           (''parameters'', enc_string_map (in_Parameters i)),
           (''identifier'', JStr (u_string L (in_Identifier i)))]"

definition enc_executor :: "uuid_lib \<Rightarrow> executor_spec \<Rightarrow> json" where
  "enc_executor L e =
     JObj [(''request'', enc_request L (ex_Request e)), (''instructions'', enc_instructions L (ex_Instructions e)),
           (''id'', JStr (u_string L (ex_ID e))), (''BuildID'', JStr (ex_BuildID e))]"

definition enc_slice :: "('a \<Rightarrow> json) \<Rightarrow> 'a list option \<Rightarrow> json" where
  "enc_slice f s = (case s of None \<Rightarrow> JNull | Some xs \<Rightarrow> JArr (map f xs))"

definition enc_space :: "uuid_lib \<Rightarrow> execution_space \<Rightarrow> json" where
  "enc_space L e =
     JObj [(''id'', JStr (u_string L (es_ID e))),
           (''execution_spaces'', enc_slice (enc_executor L) (es_Executors e)),
           (''references'', enc_slice JStr (es_References e)),
           (''status'', JStr (es_Status e)), (''description'', JStr (es_Description e))]"

text \<open>Decoding into a field with \<open>dec\<close>, and storing it with \<open>upd\<close>.\<close>

definition dec_field :: "('a \<Rightarrow> gerror + 'b) \<Rightarrow> 'a \<Rightarrow> ('b \<Rightarrow> 's) \<Rightarrow> gerror + 's" where
  "dec_field dec v upd = (case dec v of Inl e \<Rightarrow> Inl e | Inr x \<Rightarrow> Inr (upd x))"

lemma dec_field_simps [simp]:
  "dec v = Inr x \<Longrightarrow> dec_field dec v upd = Inr (upd x)"
  "dec v = Inl e \<Longrightarrow> dec_field dec v upd = Inl e"
  by (simp_all add: dec_field_def)

definition assign_data :: "uuid_lib \<Rightarrow> string \<Rightarrow> json \<Rightarrow> uuid \<Rightarrow> gerror + uuid" where
  "assign_data L k v d = (if fold_name k = ''id'' then dec_uuid L v d else Inr d)"

definition assign_request :: "uuid_lib \<Rightarrow> string \<Rightarrow> json \<Rightarrow> exec_request \<Rightarrow> gerror + exec_request" where
  "assign_request L k v r =
     (let n = fold_name k in
      if n = ''url'' then dec_field (\<lambda>v. dec_string v (rq_URL r)) v (\<lambda>x. r\<lparr>rq_URL := x\<rparr>)
      else if n = ''method'' then dec_field (\<lambda>v. dec_string v (rq_Method r)) v (\<lambda>x. r\<lparr>rq_Method := x\<rparr>)
      else if n = ''json'' then dec_field (\<lambda>v. fill_struct (assign_data L) v (rq_Data r)) v (\<lambda>x. r\<lparr>rq_Data := x\<rparr>)
      else if n = ''headers'' then dec_field (\<lambda>v. dec_string_map v (rq_Headers r)) v (\<lambda>x. r\<lparr>rq_Headers := x\<rparr>)
      else if n = ''timeout'' then dec_field (\<lambda>v. dec_int v (rq_Timeout r)) v (\<lambda>x. r\<lparr>rq_Timeout := x\<rparr>)
      else Inr r)"

definition assign_instructions :: "uuid_lib \<Rightarrow> string \<Rightarrow> json \<Rightarrow> instructions \<Rightarrow> gerror + instructions" where
  "assign_instructions L k v i =
     (let n = fold_name k in
      if n = ''image'' then dec_field (\<lambda>v. dec_string v (in_Image i)) v (\<lambda>x. i\<lparr>in_Image := x\<rparr>)
      else if n = ''environment'' then dec_field (\<lambda>v. dec_string_map v (in_Environment i)) v (\<lambda>x. i\<lparr>in_Environment := x\<rparr>)
      else if n = ''parameters'' then dec_field (\<lambda>v. dec_string_map v (in_Parameters i)) v (\<lambda>x. i\<lparr>in_Parameters := x\<rparr>)
      else if n = ''identifier'' then dec_field (\<lambda>v. dec_uuid L v (in_Identifier i)) v (\<lambda>x. i\<lparr>in_Identifier := x\<rparr>)
      else Inr i)"

definition assign_executor :: "uuid_lib \<Rightarrow> string \<Rightarrow> json \<Rightarrow> executor_spec \<Rightarrow> gerror + executor_spec" where
  "assign_executor L k v e =
     (let n = fold_name k in
      if n = ''request'' then
        dec_field (\<lambda>v. fill_struct (assign_request L) v (ex_Request e)) v (\<lambda>x. e\<lparr>ex_Request := x\<rparr>)
      else if n = ''instructions'' then
        dec_field (\<lambda>v. fill_struct (assign_instructions L) v (ex_Instructions e)) v (\<lambda>x. e\<lparr>ex_Instructions := x\<rparr>)
      else if n = ''id'' then dec_field (\<lambda>v. dec_uuid L v (ex_ID e)) v (\<lambda>x. e\<lparr>ex_ID := x\<rparr>)
      else if n = ''buildid'' then dec_field (\<lambda>v. dec_string v (ex_BuildID e)) v (\<lambda>x. e\<lparr>ex_BuildID := x\<rparr>)
      else Inr e)"

text \<open>A slice target: \<open>null\<close> makes it nil, an array replaces the elements.\<close>

fun dec_elems :: "(json \<Rightarrow> gerror + 'a) \<Rightarrow> json list \<Rightarrow> gerror + 'a list" where
  "dec_elems dec [] = Inr []"
| "dec_elems dec (j # js) =
     (case dec j of Inl e \<Rightarrow> Inl e
      | Inr x \<Rightarrow> (case dec_elems dec js of Inl e \<Rightarrow> Inl e | Inr xs \<Rightarrow> Inr (x # xs)))"

definition dec_slice :: "(json \<Rightarrow> gerror + 'a) \<Rightarrow> json \<Rightarrow> gerror + 'a list option" where
  "dec_slice dec j =
     (case j of
        JNull \<Rightarrow> Inr None
      | JArr js \<Rightarrow> (case dec_elems dec js of Inl e \<Rightarrow> Inl e | Inr xs \<Rightarrow> Inr (Some xs))
      | _ \<Rightarrow> Inl (Text ''json: cannot unmarshal into Go value of slice type''))"

definition dec_executor :: "uuid_lib \<Rightarrow> json \<Rightarrow> gerror + executor_spec" where
  "dec_executor L j = fill_struct (assign_executor L) j zero_executor"

definition assign_space :: "uuid_lib \<Rightarrow> string \<Rightarrow> json \<Rightarrow> execution_space \<Rightarrow> gerror + execution_space" where
  "assign_space L k v e =
     (let n = fold_name k in
      if n = ''id'' then dec_field (\<lambda>v. dec_uuid L v (es_ID e)) v (\<lambda>x. e\<lparr>es_ID := x\<rparr>)
      else if n = ''execution_spaces'' then
        dec_field (dec_slice (dec_executor L)) v (\<lambda>x. e\<lparr>es_Executors := x\<rparr>)
      else if n = ''references'' then
        dec_field (dec_slice (\<lambda>v. dec_string v [])) v (\<lambda>x. e\<lparr>es_References := x\<rparr>)
      else if n = ''status'' then dec_field (\<lambda>v. dec_string v (es_Status e)) v (\<lambda>x. e\<lparr>es_Status := x\<rparr>)
      else if n = ''description'' then dec_field (\<lambda>v. dec_string v (es_Description e)) v (\<lambda>x. e\<lparr>es_Description := x\<rparr>)
      else Inr e)"

subsection \<open>Operations\<close>

definition space_New :: "uuid \<Rightarrow> execution_space" where
  "space_New uid =
     zero_space\<lparr>es_ID := uid, es_Status := status_Pending, es_Description := ''Checking out execution spaces''\<rparr>"

definition space_Add :: "uuid_lib \<Rightarrow> executor_spec \<Rightarrow> execution_space \<Rightarrow> execution_space" where
  "space_Add L ex e =
     e\<lparr>es_Executors := Some ((case es_Executors e of None \<Rightarrow> [] | Some xs \<Rightarrow> xs) @ [ex]),
       es_References := Some ((case es_References e of None \<Rightarrow> [] | Some xs \<Rightarrow> xs) @ [u_string L (ex_ID ex)])\<rparr>"

text \<open>Decoding one document from a reader that yields \<open>r\<close>.\<close>

definition Load :: "uuid_lib \<Rightarrow> (gerror + bytes) \<Rightarrow> gerror + execution_space" where
  "Load L r =
     (case r of Inl e \<Rightarrow> Inl e
      | Inr b \<Rightarrow> (case json_decode b of Inl e \<Rightarrow> Inl e | Inr j \<Rightarrow> fill_struct (assign_space L) j zero_space))"

definition LoadExecutorSpec :: "uuid_lib \<Rightarrow> (gerror + bytes) \<Rightarrow> gerror + executor_spec" where
  "LoadExecutorSpec L r =
     (case r of Inl e \<Rightarrow> Inl e
      | Inr b \<Rightarrow> (case json_decode b of Inl e \<Rightarrow> Inl e | Inr j \<Rightarrow> dec_executor L j))"

definition LoadExecutorSpecs :: "uuid_lib \<Rightarrow> (gerror + bytes) \<Rightarrow> gerror + executor_spec list" where
  "LoadExecutorSpecs L r =
     (case r of Inl e \<Rightarrow> Inl e
      | Inr b \<Rightarrow> (case json_decode b of Inl e \<Rightarrow> Inl e
          | Inr j \<Rightarrow> (case dec_slice (dec_executor L) j of Inl e \<Rightarrow> Inl e
              | Inr xs \<Rightarrow> Inr (case xs of None \<Rightarrow> [] | Some xs \<Rightarrow> xs))))"

text \<open>\<open>json.Encoder\<close> writes the document and a line feed in one \<open>Write\<close>.\<close>

definition space_bytes :: "uuid_lib \<Rightarrow> execution_space \<Rightarrow> bytes" where
  "space_bytes L e = json_enc (enc_space L (e\<lparr>es_Executors := None\<rparr>)) @ [CHR 0x0A]"

definition executor_bytes :: "uuid_lib \<Rightarrow> executor_spec \<Rightarrow> bytes" where
  "executor_bytes L e = json_enc (enc_executor L e) @ [CHR 0x0A]"

definition space_Save :: "uuid_lib \<Rightarrow> execution_space \<Rightarrow> (bytes \<Rightarrow> 's \<Rightarrow> gerror option \<times> 's) \<Rightarrow> 's \<Rightarrow> gerror option \<times> 's" where
  "space_Save L e w s =
     (case w (space_bytes L e) s of
        (None, s') \<Rightarrow> (None, s')
      | (Some err, s') \<Rightarrow>
          (Some (errors_join (Some (Text ''failed to write execution space to database'')) err), s'))"

definition space_Fail ::
  "uuid_lib \<Rightarrow> execution_space \<Rightarrow> (bytes \<Rightarrow> 's \<Rightarrow> gerror option \<times> 's) \<Rightarrow> gerror \<Rightarrow> 's \<Rightarrow> gerror option \<times> 's" where
  "space_Fail L e w err s =
     space_Save L (zero_space\<lparr>es_ID := es_ID e, es_Status := status_Failed, es_Description := err_string err\<rparr>) w s"

definition executor_Save :: "uuid_lib \<Rightarrow> executor_spec \<Rightarrow> (bytes \<Rightarrow> 's \<Rightarrow> gerror option \<times> 's) \<Rightarrow> 's \<Rightarrow> gerror option \<times> 's" where
  "executor_Save L e w s =
     (case w (executor_bytes L e) s of
        (None, s') \<Rightarrow> (None, s')
      | (Some err, s') \<Rightarrow> (Some (errors_join (Some (Text ''failed to write executor to database'')) err), s'))"

definition executor_Delete :: "(bytes \<Rightarrow> 's \<Rightarrow> gerror option \<times> 's) \<Rightarrow> 's \<Rightarrow> gerror option \<times> 's" where
  "executor_Delete w s = w [] s"

text \<open>
  \<open>NewExecutorSpec\<close>.  The fresh IDs, what the propagator injects and the environment of the
  process are arguments.  The caller's map is written to, so it is returned; a nil map panics.
\<close>

definition set_all :: "(string \<times> string) list \<Rightarrow> string gmap option \<Rightarrow> string gmap option outcome" where
  "set_all kvs m =
     foldl (\<lambda>r (k, v). case r of Panicked p \<Rightarrow> Panicked p | Returned m \<Rightarrow> map_set m k v) (Returned m) kvs"

definition proxy_settings :: "(string \<Rightarrow> string) \<Rightarrow> (string \<times> string) list" where
  "proxy_settings getenv =
     (let v = getenv ''EXECUTOR_HTTPS_PROXY'' in if v \<noteq> [] then [(''HTTPS_PROXY'', v), (''https_proxy'', v)] else [])
     @ (let v = getenv ''EXECUTOR_HTTP_PROXY'' in if v \<noteq> [] then [(''HTTP_PROXY'', v), (''http_proxy'', v)] else [])
     @ (let v = getenv ''EXECUTOR_NO_PROXY'' in if v \<noteq> [] then [(''NO_PROXY'', v), (''no_proxy'', v)] else [])
     @ (let v = getenv ''EXECUTOR_TZ'' in if v \<noteq> [] then [(''TZ'', v)] else [])"

definition NewExecutorSpec ::
  "uuid_lib \<Rightarrow> (string \<Rightarrow> string) \<Rightarrow> (string \<times> string list) list \<Rightarrow> uuid \<times> uuid \<Rightarrow> string \<Rightarrow> string \<Rightarrow> string
   \<Rightarrow> string gmap option \<Rightarrow> (executor_spec \<times> string gmap option) outcome" where
  "NewExecutorSpec L getenv carrier fresh url etosIdentifier testRunner environment =
     (let headers = foldl (\<lambda>h (k, vs). gm_put k (join_with '','' vs) h) [(''X-Etos-id'', etosIdentifier)] carrier
      in case set_all ((''ENVIRONMENT_ID'', u_string L (fst fresh)) # proxy_settings getenv) environment of
           Panicked p \<Rightarrow> Panicked p
         | Returned env \<Rightarrow>
             Returned (\<lparr>ex_Request = \<lparr>rq_URL = url, rq_Method = ''POST'', rq_Data = fst fresh,
                 rq_Headers = Some headers, rq_Timeout = 7200\<rparr>,
               ex_Instructions = \<lparr>in_Image = testRunner, in_Environment = env, in_Parameters = Some [],
                 in_Identifier = snd fresh\<rparr>,
               ex_ID = fst fresh, ex_BuildID = []\<rparr>, env))"

subsection \<open>Errors with a status\<close>

datatype http_or_error = HTTPError gerror string int | PlainError gerror

definition NewHTTPError :: "gerror \<Rightarrow> int \<Rightarrow> http_or_error" where
  "NewHTTPError e httpCode = HTTPError e (err_string e) httpCode"

text \<open>\<open>Error()\<close>; \<open>statusText\<close> is \<open>http.StatusText\<close>.\<close>

definition http_error_string :: "(int \<Rightarrow> string) \<Rightarrow> http_or_error \<Rightarrow> string" where
  "http_error_string statusText e =
     (case e of
        HTTPError _ msg code \<Rightarrow> ''('' @ itoa code @ '': '' @ statusText code @ ''): '' @ msg
      | PlainError e \<Rightarrow> err_string e)"

subsection \<open>Round trips\<close>

definition maps_ok :: "string gmap option \<Rightarrow> bool" where
  "maps_ok m = (case m of None \<Rightarrow> True | Some g \<Rightarrow> gm_ok g)"

definition executor_ok :: "executor_spec \<Rightarrow> bool" where
  "executor_ok e =
     (maps_ok (rq_Headers (ex_Request e)) \<and> maps_ok (in_Environment (ex_Instructions e))
      \<and> maps_ok (in_Parameters (ex_Instructions e))
      \<and> int64_min \<le> rq_Timeout (ex_Request e) \<and> rq_Timeout (ex_Request e) \<le> int64_max)"

lemma dec_uuid_string: "uuid_lawful L \<Longrightarrow> dec_uuid L (JStr (u_string L u)) old = Inr u"
  by (simp add: dec_uuid_def uuid_lawfulD)

lemma dec_string_JStr [simp]: "dec_string (JStr s) old = Inr s"
  by (simp add: dec_string_def)

lemma dec_string_map_enc: "maps_ok m \<Longrightarrow> dec_string_map (enc_string_map m) None = Inr m"
  unfolding maps_ok_def by (rule dec_enc_string_map)

lemma dec_int_itoa: "int64_min \<le> n \<Longrightarrow> n \<le> int64_max \<Longrightarrow> dec_int (JNum (itoa n)) old = Inr n"
  by (simp add: dec_int_def parse_int64_itoa)

lemma fold_name_consts:
  "fold_name ''url'' = ''url''" "fold_name ''method'' = ''method''" "fold_name ''json'' = ''json''"
  "fold_name ''headers'' = ''headers''" "fold_name ''timeout'' = ''timeout''" "fold_name ''id'' = ''id''"
  "fold_name ''image'' = ''image''" "fold_name ''environment'' = ''environment''"
  "fold_name ''parameters'' = ''parameters''" "fold_name ''identifier'' = ''identifier''"
  "fold_name ''request'' = ''request''" "fold_name ''instructions'' = ''instructions''"
  "fold_name ''BuildID'' = ''buildid''" "fold_name ''execution_spaces'' = ''execution_spaces''"
  "fold_name ''references'' = ''references''" "fold_name ''status'' = ''status''"
  "fold_name ''description'' = ''description''"
  by code_simp+


lemma request_roundtrip:
  assumes "uuid_lawful L" "maps_ok (rq_Headers r)" "int64_min \<le> rq_Timeout r" "rq_Timeout r \<le> int64_max"
  shows "fill_struct (assign_request L) (enc_request L r) (ex_Request zero_executor) = Inr r"
proof -
  have d: "fill_struct (assign_data L) (JObj [(''id'', JStr (u_string L (rq_Data r)))]) old = Inr (rq_Data r)" for old
    by (simp add: fill_struct_def assign_data_def fold_name_consts dec_uuid_string [OF assms(1)])
  show ?thesis
    using d [simplified] dec_string_map_enc [OF assms(2)] dec_int_itoa [OF assms(3,4)]
    by (simp add: fill_struct_def enc_request_def assign_request_def fold_name_consts zero_executor_def)
qed

lemma instructions_roundtrip:
  assumes "uuid_lawful L" "maps_ok (in_Environment i)" "maps_ok (in_Parameters i)"
  shows "fill_struct (assign_instructions L) (enc_instructions L i) (ex_Instructions zero_executor) = Inr i"
  using dec_string_map_enc [OF assms(2)] dec_string_map_enc [OF assms(3)] dec_uuid_string [OF assms(1)]
  by (simp add: fill_struct_def enc_instructions_def assign_instructions_def fold_name_consts zero_executor_def)

lemma executor_roundtrip:
  assumes "uuid_lawful L" "executor_ok e"
  shows "dec_executor L (enc_executor L e) = Inr e"
proof -
  have r: "fill_struct (assign_request L) (enc_request L (ex_Request e)) (ex_Request zero_executor) = Inr (ex_Request e)"
    using assms by (intro request_roundtrip) (simp_all add: executor_ok_def)
  have i: "fill_struct (assign_instructions L) (enc_instructions L (ex_Instructions e)) (ex_Instructions zero_executor)
      = Inr (ex_Instructions e)"
    using assms by (intro instructions_roundtrip) (simp_all add: executor_ok_def)
  have 1: "assign_executor L ''request'' (enc_request L (ex_Request e)) zero_executor
      = Inr (zero_executor\<lparr>ex_Request := ex_Request e\<rparr>)"
    by (simp add: assign_executor_def fold_name_consts r Let_def)
  have 2: "assign_executor L ''instructions'' (enc_instructions L (ex_Instructions e)) (zero_executor\<lparr>ex_Request := x\<rparr>)
      = Inr (zero_executor\<lparr>ex_Request := x, ex_Instructions := ex_Instructions e\<rparr>)" for x
    by (simp add: assign_executor_def fold_name_consts i Let_def)
  have 3: "assign_executor L ''id'' (JStr (u_string L (ex_ID e))) y = Inr (y\<lparr>ex_ID := ex_ID e\<rparr>)"
    "assign_executor L ''BuildID'' (JStr (ex_BuildID e)) y = Inr (y\<lparr>ex_BuildID := ex_BuildID e\<rparr>)" for y
    by (simp_all add: assign_executor_def fold_name_consts dec_uuid_string [OF assms(1)] Let_def)
  show ?thesis
    using 1 2 3 by (simp add: dec_executor_def fill_struct_def enc_executor_def zero_executor_def)
qed

lemma enc_string_map_wf: "json_wf (enc_string_map m)"
  by (auto simp: enc_string_map_def split: option.split)

lemma digit_char_facts:
  assumes "d < 10"
  shows "char_digit (digit_char d) \<noteq> None" "digit_char d \<noteq> CHR ''.''" "not_exp (digit_char d)"
    "digit_char d = CHR ''0'' \<longleftrightarrow> d = 0"
proof -
  have c: "(of_char (digit_char d) :: nat) = 48 + d" using assms by (simp add: digit_char_def)
  show "char_digit (digit_char d) \<noteq> None" using assms by simp
  show "digit_char d \<noteq> CHR ''.''" "not_exp (digit_char d)" using c assms by (auto simp: not_exp_def)
  show "digit_char d = CHR ''0'' \<longleftrightarrow> d = 0"
  proof
    assume "digit_char d = CHR ''0''"
    with c show "d = 0" by simp
  next
    assume "d = 0"
    moreover have "digit_char 0 = CHR ''0''" by code_simp
    ultimately show "digit_char d = CHR ''0''" by simp
  qed
qed

lemma nat_dec_hd: "0 < n \<Longrightarrow> hd (nat_dec n) \<noteq> CHR ''0''"
proof (induction n rule: nat_dec.induct)
  case (1 n)
  then show ?case
    by (cases "n < 10") (simp_all add: nat_dec.simps [of n] digit_char_facts)
qed

lemma nat_dec_valid:
  "all_digits (nat_dec n) \<and> (nat_dec n = ''0'' \<or> hd (nat_dec n) \<noteq> CHR ''0'')
   \<and> (\<forall>c \<in> set (nat_dec n). not_exp c \<and> c \<noteq> CHR ''.'')"
proof -
  have "all_digits (nat_dec n)" "\<forall>c \<in> set (nat_dec n). not_exp c \<and> c \<noteq> CHR ''.''"
    using digit_char_facts by (auto simp: all_digits_def dest!: nat_dec_digits)
  moreover have "nat_dec 0 = ''0''" by code_simp
  ultimately show ?thesis using nat_dec_hd [of n] by (cases "n = 0") auto
qed

lemma itoa_valid: "valid_num (itoa n)"
proof -
  have v: "takeWhile not_exp (nat_dec k) = nat_dec k" "dropWhile not_exp (nat_dec k) = []"
    "takeWhile (\<lambda>c. c \<noteq> CHR ''.'') (nat_dec k) = nat_dec k" "dropWhile (\<lambda>c. c \<noteq> CHR ''.'') (nat_dec k) = []" for k
    using nat_dec_valid [of k] by (auto simp: takeWhile_eq_all_conv dropWhile_eq_Nil_conv)
  have e: "valid_exp []" by code_simp
  obtain c r where c: "nat_dec (nat n) = c # r" "c \<noteq> CHR ''-''"
    using nat_dec_head [of "nat n"] by (cases "nat_dec (nat n)") auto
  then have pos: "(case nat_dec (nat n) of [] \<Rightarrow> [] | c # r \<Rightarrow> if c = CHR ''-'' then r else nat_dec (nat n)) = nat_dec (nat n)"
    by simp
  show ?thesis
    using nat_dec_valid [of "nat n"] nat_dec_valid [of "nat (- n)"] e
    unfolding valid_num_def itoa_def Let_def
    by (cases "n < 0") (simp_all only: if_True if_False list.case v pos simp_thms)
qed

lemma enc_executor_wf: "json_wf (enc_executor L e)"
  by (simp add: enc_executor_def enc_request_def enc_instructions_def enc_string_map_wf itoa_valid)

text \<open>What was saved loads again.\<close>

lemma load_saved_executor:
  assumes "uuid_lawful L" "executor_ok e"
  shows "LoadExecutorSpec L (Inr (executor_bytes L e)) = Inr e"
proof -
  have "json_decode (executor_bytes L e) = Inr (enc_executor L e)"
    unfolding executor_bytes_def by (rule json_decode_enc) (simp_all add: enc_executor_wf is_num_char_def char_digit_def)
  then show ?thesis by (simp add: LoadExecutorSpec_def executor_roundtrip [OF assms])
qed

lemma dec_elems_map: "(\<And>x. x \<in> set xs \<Longrightarrow> dec (f x) = Inr x) \<Longrightarrow> dec_elems dec (map f xs) = Inr xs"
  by (induction xs) auto

lemma dec_slice_enc:
  "(\<And>x. x \<in> set (case s of None \<Rightarrow> [] | Some xs \<Rightarrow> xs) \<Longrightarrow> dec (f x) = Inr x) \<Longrightarrow> dec_slice dec (enc_slice f s) = Inr s"
  by (cases s) (simp_all add: dec_slice_def enc_slice_def dec_elems_map)

lemma load_saved_space:
  assumes "uuid_lawful L"
  shows "Load L (Inr (space_bytes L e)) = Inr (e\<lparr>es_Executors := None\<rparr>)"
proof -
  let ?j = "enc_space L (e\<lparr>es_Executors := None\<rparr>)"
  have "json_wf ?j" by (auto simp: enc_space_def enc_slice_def split: option.split)
  then have "json_decode (space_bytes L e) = Inr ?j"
    unfolding space_bytes_def by (rule json_decode_enc) (simp add: is_num_char_def char_digit_def)
  moreover have refs: "dec_slice (\<lambda>v. dec_string v []) (enc_slice JStr (es_References e)) = Inr (es_References e)"
    by (rule dec_slice_enc) simp
  have "dec_slice (dec_executor L) (enc_slice (enc_executor L) None) = Inr None"
    by (simp add: dec_slice_def enc_slice_def)
  with refs have "fill_struct (assign_space L) ?j zero_space = Inr (e\<lparr>es_Executors := None\<rparr>)"
    by (simp add: fill_struct_def enc_space_def assign_space_def fold_name_consts zero_space_def
        dec_uuid_string [OF assms])
  ultimately show ?thesis by (simp add: Load_def)
qed

end
