(* ===== verification/Provider_Core.thy ===== *)
theory Provider_Core
  imports Execution_Space
begin

text \<open>
  \<open>internal/executionspace/provider/provider.go\<close>: the part of a provider that keeps execution
  spaces and executors in a database.  The operations take the \<open>Opener\<close>; the lemmas are proved
  for any reliable store and read off for etcd.  Log output and the count of active jobs are left
  out.
\<close>

record exec_config =
  ec_Amount :: int
  ec_TestRunner :: string
  ec_CheckoutID :: uuid
  ec_ETOSIdentifier :: string
  ec_Environment :: "string gmap option"

text \<open>What \<open>NewExecutorSpec\<close> takes from its surroundings: library, process, trace context, URL.\<close>

record provider_ctx =
  px_uuid :: uuid_lib
  px_getenv :: "string \<Rightarrow> string"
  px_carrier :: "(string \<times> string list) list"
  px_url :: string

subsection \<open>Operations\<close>

definition core_SaveExecutor :: "uuid_lib \<Rightarrow> 's opener \<Rightarrow> executor_spec \<Rightarrow> 's \<Rightarrow> gerror option \<times> 's" where
  "core_SaveExecutor L db ex s = executor_Save L ex (db_write db (ex_ID ex)) s"

definition core_ExecutorSpec :: "uuid_lib \<Rightarrow> 's opener \<Rightarrow> uuid \<Rightarrow> 's \<Rightarrow> (gerror + executor_spec) \<times> 's" where
  "core_ExecutorSpec L db uid s = (case db_read db uid s of (r, s') \<Rightarrow> (LoadExecutorSpec L r, s'))"

definition core_ExecutionSpace :: "uuid_lib \<Rightarrow> 's opener \<Rightarrow> uuid \<Rightarrow> 's \<Rightarrow> (gerror + execution_space) \<times> 's" where
  "core_ExecutionSpace L db uid s = (case db_read db uid s of (r, s') \<Rightarrow> (Load L r, s'))"

definition core_Job :: "uuid_lib \<Rightarrow> 's opener \<Rightarrow> uuid \<Rightarrow> 's \<Rightarrow> (gerror + string) \<times> 's" where
  "core_Job L db uid s =
     (case core_ExecutorSpec L db uid s of
        (Inl err, s') \<Rightarrow> (Inl err, s')
      | (Inr ex, s') \<Rightarrow> (Inr (ex_BuildID ex), s'))"

definition failed_space :: "uuid \<Rightarrow> gerror \<Rightarrow> execution_space" where
  "failed_space uid err =
     zero_space\<lparr>es_ID := uid, es_Status := status_Failed, es_Description := err_string err\<rparr>"

text \<open>
  \<open>Status\<close>: the stored space with its executors, loaded one by one from its references.  The
  inner \<open>id\<close> shadows the argument, so an error names the ID it was about.
\<close>

fun status_executors ::
  "uuid_lib \<Rightarrow> 's opener \<Rightarrow> string list \<Rightarrow> execution_space \<Rightarrow> 's \<Rightarrow> (execution_space \<times> gerror option) \<times> 's" where
  "status_executors L db [] es s = ((es, None), s)"
| "status_executors L db (reference # refs) es s =
     (case u_parse L reference of
        (uid, Some err) \<Rightarrow> ((failed_space uid err, Some err), s)
      | (uid, None) \<Rightarrow>
          (case core_ExecutorSpec L db uid s of
             (Inl err, s') \<Rightarrow> ((failed_space uid err, Some err), s')
           | (Inr ex, s') \<Rightarrow>
               status_executors L db refs
                 (es\<lparr>es_Executors := Some ((case es_Executors es of None \<Rightarrow> [] | Some xs \<Rightarrow> xs) @ [ex])\<rparr>) s'))"

definition core_Status ::
  "uuid_lib \<Rightarrow> 's opener \<Rightarrow> uuid \<Rightarrow> 's \<Rightarrow> (execution_space \<times> gerror option) \<times> 's" where
  "core_Status L db uid s =
     (case core_ExecutionSpace L db uid s of
        (Inl err, s') \<Rightarrow> ((failed_space uid err, Some err), s')
      | (Inr es, s') \<Rightarrow>
          status_executors L db (case es_References es of None \<Rightarrow> [] | Some refs \<Rightarrow> refs) es s')"

text \<open>
  \<open>Checkout\<close>.  The loop runs for the executors still to be made; \<open>fresh i\<close> are the two UUIDs
  drawn for the \<open>i\<close>-th.  It ends with the space, or with \<open>None\<close> once it has saved a
  failure.  After the last \<open>Save\<close> fails, the code tests \<open>err\<close> where it means
  \<open>failErr\<close>, so recording the failure successfully dereferences a nil error.
\<close>

fun checkout_loop ::
  "provider_ctx \<Rightarrow> 's opener \<Rightarrow> (nat \<Rightarrow> uuid \<times> uuid) \<Rightarrow> exec_config \<Rightarrow> nat \<Rightarrow> nat \<Rightarrow> string gmap option
   \<Rightarrow> execution_space \<Rightarrow> 's \<Rightarrow> execution_space option outcome \<times> 's" where
  "checkout_loop px db fresh cfg 0 i env space s = (Returned (Some space), s)"
| "checkout_loop px db fresh cfg (Suc n) i env space s =
     (case NewExecutorSpec (px_uuid px) (px_getenv px) (px_carrier px) (fresh i) (px_url px)
             (ec_ETOSIdentifier cfg) (ec_TestRunner cfg) env of
        Panicked p \<Rightarrow> (Panicked p, s)
      | Returned (executor, env') \<Rightarrow>
          (let space' = space_Add (px_uuid px) executor space
           in case core_SaveExecutor (px_uuid px) db executor s of
                (Some err, s') \<Rightarrow>
                  (Returned None, snd (space_Fail (px_uuid px) space' (db_write db (ec_CheckoutID cfg)) err s'))
              | (None, s') \<Rightarrow> checkout_loop px db fresh cfg n (Suc i) env' space' s'))"

definition core_Checkout ::
  "provider_ctx \<Rightarrow> 's opener \<Rightarrow> (nat \<Rightarrow> uuid \<times> uuid) \<Rightarrow> exec_config \<Rightarrow> 's \<Rightarrow> unit outcome \<times> 's" where
  "core_Checkout px db fresh cfg s =
     (let L = px_uuid px; client = db_write db (ec_CheckoutID cfg); space = space_New (ec_CheckoutID cfg)
      in case space_Save L space client s of
           (Some err, s1) \<Rightarrow> (Returned (), s1)
         | (None, s1) \<Rightarrow>
             (case checkout_loop px db fresh cfg (nat (ec_Amount cfg)) 0 (ec_Environment cfg) space s1 of
                (Panicked p, s2) \<Rightarrow> (Panicked p, s2)
              | (Returned None, s2) \<Rightarrow> (Returned (), s2)
              | (Returned (Some space2), s2) \<Rightarrow>
                  (let space3 = space2\<lparr>es_Status := status_Done,
                         es_Description := ''Execution spaces checked out successfully''\<rparr>
                   in case space_Save L space3 client s2 of
                        (None, s3) \<Rightarrow> (Returned (), s3)
                      | (Some err, s3) \<Rightarrow>
                          (case space_Fail L space3 client err s3 of
                             (Some failErr, s4) \<Rightarrow> (Returned (), s4)
                           | (None, s4) \<Rightarrow> (Panicked ''nil pointer dereference'', s4)))))"

fun core_Checkin :: "'s opener \<Rightarrow> executor_spec list \<Rightarrow> 's \<Rightarrow> gerror option \<times> 's" where
  "core_Checkin db [] s = (None, s)"
| "core_Checkin db (ex # exs) s =
     (case executor_Delete (db_write db (ex_ID ex)) s of
        (Some err, s') \<Rightarrow> (Some err, s')
      | (None, s') \<Rightarrow> core_Checkin db exs s')"

subsection \<open>The executors a checkout makes\<close>

lemma set_all_Returned:
  "gm_ok g \<Longrightarrow> \<exists>g'. set_all kvs (Some g) = Returned (Some g') \<and> gm_ok g'
     \<and> (\<forall>k. k \<notin> fst ` set kvs \<longrightarrow> gm_get g' k = gm_get g k)"
proof (induction kvs arbitrary: g)
  case (Cons p kvs)
  obtain k v where p: "p = (k, v)" by force
  from Cons.IH [OF gm_ok_put [OF Cons.prems, of k v]] obtain g' where
    "set_all kvs (Some (gm_put k v g)) = Returned (Some g')" "gm_ok g'"
    "\<forall>i. i \<notin> fst ` set kvs \<longrightarrow> gm_get g' i = gm_get (gm_put k v g) i" by blast
  then show ?case
    by (simp add: set_all_def map_set_def p gm_get_put [OF Cons.prems])
qed (simp add: set_all_def)

lemma set_all_nil: "kvs \<noteq> [] \<Longrightarrow> set_all kvs None = Panicked ''assignment to entry in nil map''"
proof -
  have "foldl (\<lambda>r (k, v). case r of Panicked p \<Rightarrow> Panicked p | Returned m \<Rightarrow> map_set m k v) (Panicked q) xs = Panicked q" for xs q
    by (induction xs) auto
  then show "kvs \<noteq> [] \<Longrightarrow> set_all kvs None = Panicked ''assignment to entry in nil map''"
    by (cases kvs) (auto simp: set_all_def map_set_def)
qed

definition made_for :: "provider_ctx \<Rightarrow> exec_config \<Rightarrow> uuid \<times> uuid \<Rightarrow> executor_spec \<Rightarrow> bool" where
  "made_for px cfg ids ex =
     (ex_ID ex = fst ids \<and> rq_Data (ex_Request ex) = fst ids \<and> in_Identifier (ex_Instructions ex) = snd ids
      \<and> rq_URL (ex_Request ex) = px_url px \<and> in_Image (ex_Instructions ex) = ec_TestRunner cfg
      \<and> ex_BuildID ex = [] \<and> executor_ok ex
      \<and> map_get (in_Environment (ex_Instructions ex)) ''ENVIRONMENT_ID'' = u_string (px_uuid px) (fst ids))"

lemma proxy_settings_keys: "''ENVIRONMENT_ID'' \<notin> fst ` set (proxy_settings getenv)"
  by (auto simp: proxy_settings_def Let_def)

lemma headers_ok: "gm_ok h \<Longrightarrow> gm_ok (foldl (\<lambda>h (k, vs). gm_put k (join_with '','' vs) h) h carrier)"
proof (induction carrier arbitrary: h)
  case (Cons p carrier)
  then show ?case by (cases p) (simp add: gm_ok_put)
qed simp

lemma NewExecutorSpec_made:
  assumes "gm_ok g"
  obtains ex g' where "NewExecutorSpec (px_uuid px) (px_getenv px) (px_carrier px) ids (px_url px)
      (ec_ETOSIdentifier cfg) (ec_TestRunner cfg) (Some g) = Returned (ex, Some g')"
    "gm_ok g'" "made_for px cfg ids ex" "in_Environment (ex_Instructions ex) = Some g'"
proof -
  let ?L = "px_uuid px" and ?kvs = "proxy_settings (px_getenv px)"
  let ?g1 = "gm_put ''ENVIRONMENT_ID'' (u_string ?L (fst ids)) g"
  have ok1: "gm_ok ?g1" using assms by (rule gm_ok_put)
  have step: "set_all ((''ENVIRONMENT_ID'', u_string ?L (fst ids)) # ?kvs) (Some g) = set_all ?kvs (Some ?g1)"
    by (simp add: set_all_def map_set_def)
  obtain g' where g': "set_all ?kvs (Some ?g1) = Returned (Some g')" "gm_ok g'"
    "gm_get g' ''ENVIRONMENT_ID'' = gm_get ?g1 ''ENVIRONMENT_ID''"
    using set_all_Returned [OF ok1, of ?kvs] proxy_settings_keys [of "px_getenv px"] by blast
  have "gm_get ?g1 ''ENVIRONMENT_ID'' = Some (u_string ?L (fst ids))"
    using gm_get_put [OF assms] by simp
  with g'(3) have env: "map_get (Some g') ''ENVIRONMENT_ID'' = u_string ?L (fst ids)"
    by (simp add: map_get_def)
  have hdr: "gm_ok (foldl (\<lambda>h (k, vs). gm_put k (join_with '','' vs) h) [(''X-Etos-id'', i)] (px_carrier px))" for i
    by (rule headers_ok) (simp add: gm_ok_Cons)
  show thesis
    by (rule that [OF _ g'(2), unfolded NewExecutorSpec_def Let_def step g'(1), simplified])
       (use env hdr g'(2) in \<open>auto simp: made_for_def executor_ok_def maps_ok_def int64_min_def int64_max_def\<close>)
qed

lemma made_for_ids:
  "list_all2 (made_for px cfg) ids exs \<Longrightarrow> map ex_ID exs = map fst ids"
  by (induction rule: list_all2_induct) (simp_all add: made_for_def)

subsection \<open>Checkout on a reliable store\<close>

context reliable_store
begin

lemma SaveExecutor_obtain:
  assumes "ok s" "ex_ID ex \<noteq> uuid_Nil"
  obtains s' where "core_SaveExecutor L db ex s = (None, s')" "ok s'"
    "contents s' = (contents s)(ex_ID ex \<mapsto> executor_bytes L ex)"
  using write_obtain [OF assms, of "executor_bytes L ex"]
  by (metis (no_types, lifting) core_SaveExecutor_def executor_Save_def old.prod.case option.case(1))

lemma space_Save_obtain:
  assumes "ok s" "uid \<noteq> uuid_Nil"
  obtains s' where "space_Save L e (db_write db uid) s = (None, s')" "ok s'"
    "contents s' = (contents s)(uid \<mapsto> space_bytes L e)"
  using write_obtain [OF assms, of "space_bytes L e"]
  by (metis (no_types, lifting) space_Save_def old.prod.case option.case(1))

lemma checkout_loop_done:
  assumes "ok s" "gm_ok g" "\<forall>j < n. fst (fresh (i + j)) \<noteq> uuid_Nil \<and> fst (fresh (i + j)) \<noteq> cid"
    and "inj_on (\<lambda>j. fst (fresh j)) {i..<i + n}"
  shows "\<exists>exs space' s'. checkout_loop px db fresh cfg n i (Some g) space s = (Returned (Some space'), s')
    \<and> ok s' \<and> list_all2 (made_for px cfg) (map fresh [i..<i + n]) exs
    \<and> es_ID space' = es_ID space
    \<and> (case es_References space' of None \<Rightarrow> [] | Some r \<Rightarrow> r)
       = (case es_References space of None \<Rightarrow> [] | Some r \<Rightarrow> r) @ map (\<lambda>ex. u_string (px_uuid px) (ex_ID ex)) exs
    \<and> (\<forall>ex \<in> set exs. contents s' (ex_ID ex) = Some (executor_bytes (px_uuid px) ex))
    \<and> (\<forall>u. u \<notin> ex_ID ` set exs \<longrightarrow> contents s' u = contents s u)"
  using assms
proof (induction n arbitrary: i g space s)
  case 0
  then show ?case by (intro exI [of _ "[]"]) simp
next
  case (Suc n)
  let ?L = "px_uuid px"
  obtain ex g' where ex: "NewExecutorSpec ?L (px_getenv px) (px_carrier px) (fresh i) (px_url px)
      (ec_ETOSIdentifier cfg) (ec_TestRunner cfg) (Some g) = Returned (ex, Some g')"
    "gm_ok g'" "made_for px cfg (fresh i) ex"
    using NewExecutorSpec_made [OF Suc.prems(2), of px "fresh i" cfg] by metis
  have eid: "ex_ID ex = fst (fresh i)" using ex(3) by (simp add: made_for_def)
  have "ex_ID ex \<noteq> uuid_Nil" using Suc.prems(3) [rule_format, of 0] eid by simp
  from SaveExecutor_obtain [OF Suc.prems(1) this, of ?L] obtain s1 where
    s1: "core_SaveExecutor ?L db ex s = (None, s1)" "ok s1" "contents s1 = (contents s)(ex_ID ex \<mapsto> executor_bytes ?L ex)"
    by metis
  have "\<forall>j < n. fst (fresh (Suc i + j)) \<noteq> uuid_Nil \<and> fst (fresh (Suc i + j)) \<noteq> cid"
    using Suc.prems(3) by (metis Suc_less_eq add_Suc_shift)
  moreover have inj: "inj_on (\<lambda>j. fst (fresh j)) {Suc i..<Suc i + n}"
    using Suc.prems(4) by (rule inj_on_subset) auto
  ultimately obtain exs space' s' where rec:
    "checkout_loop px db fresh cfg n (Suc i) (Some g') (space_Add ?L ex space) s1 = (Returned (Some space'), s')"
    "ok s'" "list_all2 (made_for px cfg) (map fresh [Suc i..<Suc i + n]) exs"
    "es_ID space' = es_ID (space_Add ?L ex space)"
    "(case es_References space' of None \<Rightarrow> [] | Some r \<Rightarrow> r)
       = (case es_References (space_Add ?L ex space) of None \<Rightarrow> [] | Some r \<Rightarrow> r) @ map (\<lambda>ex. u_string ?L (ex_ID ex)) exs"
    "\<forall>ex \<in> set exs. contents s' (ex_ID ex) = Some (executor_bytes ?L ex)"
    "\<forall>u. u \<notin> ex_ID ` set exs \<longrightarrow> contents s' u = contents s1 u"
    using Suc.IH [OF s1(2) ex(2), of "Suc i" "space_Add ?L ex space"] by metis
  have "ex_ID ex \<notin> ex_ID ` set exs"
  proof
    assume "ex_ID ex \<in> ex_ID ` set exs"
    moreover have "ex_ID ` set exs = (\<lambda>j. fst (fresh j)) ` set [Suc i..<Suc i + n]"
      using made_for_ids [OF rec(3)] by (metis image_image image_set)
    ultimately have "fst (fresh i) \<in> (\<lambda>j. fst (fresh j)) ` set [Suc i..<Suc i + n]" by (simp only: eid)
    then obtain j where "j \<in> set [Suc i..<Suc i + n]" "fst (fresh j) = fst (fresh i)"
      by (metis (no_types, lifting) imageE)
    then show False using inj_onD [OF Suc.prems(4), of j i] by auto
  qed
  then have "contents s' (ex_ID ex) = Some (executor_bytes ?L ex)" using rec(7) s1(3) by simp
  moreover have "[i..<i + Suc n] = i # [Suc i..<Suc i + n]" by (simp add: upt_rec)
  ultimately show ?case
    using rec ex(1,3) s1
    by (intro exI [of _ "ex # exs"] exI [of _ space'] exI [of _ s'])
       (simp add: space_Add_def)
qed

lemma status_executors_done:
  assumes "ok s" "uuid_lawful L"
    and "\<forall>ex \<in> set exs. ex_ID ex \<noteq> uuid_Nil \<and> executor_ok ex \<and> contents s (ex_ID ex) = Some (executor_bytes L ex)"
  shows "\<exists>s'. status_executors L db (map (\<lambda>ex. u_string L (ex_ID ex)) exs) es s
      = ((es\<lparr>es_Executors := (if exs = [] then es_Executors es
            else Some ((case es_Executors es of None \<Rightarrow> [] | Some xs \<Rightarrow> xs) @ exs))\<rparr>, None), s')
    \<and> ok s' \<and> contents s' = contents s"
  using assms
proof (induction exs arbitrary: es s)
  case (Cons ex exs)
  obtain s1 where s1: "db_read db (ex_ID ex) s = (Inr (executor_bytes L ex), s1)" "ok s1" "contents s1 = contents s"
    using read_obtain [OF Cons.prems(1), of "ex_ID ex"] Cons.prems(3) by (metis list.set_intros(1) option.case(2))
  have "core_ExecutorSpec L db (ex_ID ex) s = (Inr ex, s1)"
    using s1(1) load_saved_executor [OF Cons.prems(2), of ex] Cons.prems(3) by (simp add: core_ExecutorSpec_def)
  moreover have "u_parse L (u_string L (ex_ID ex)) = (ex_ID ex, None)" by (rule uuid_lawfulD(1) [OF Cons.prems(2)])
  moreover let ?es1 = "es\<lparr>es_Executors := Some ((case es_Executors es of None \<Rightarrow> [] | Some xs \<Rightarrow> xs) @ [ex])\<rparr>"
  have "\<forall>ex \<in> set exs. ex_ID ex \<noteq> uuid_Nil \<and> executor_ok ex \<and> contents s1 (ex_ID ex) = Some (executor_bytes L ex)"
    using Cons.prems(3) s1(3) by simp
  from Cons.IH [OF s1(2) Cons.prems(2) this, of ?es1] obtain s2 where
    "status_executors L db (map (\<lambda>ex. u_string L (ex_ID ex)) exs) ?es1 s1
      = ((?es1\<lparr>es_Executors := (if exs = [] then es_Executors ?es1
            else Some ((case es_Executors ?es1 of None \<Rightarrow> [] | Some xs \<Rightarrow> xs) @ exs))\<rparr>, None), s2)"
    "ok s2" "contents s2 = contents s1" by blast
  ultimately show ?case
    using s1(3) by (intro exI [of _ s2]) (cases "exs = []", simp_all)
qed simp

text \<open>A checkout on a reliable store and the status that is then read.\<close>

lemma checkout_status:
  assumes "ok s" "uuid_lawful (px_uuid px)" "ec_CheckoutID cfg \<noteq> uuid_Nil"
    and "ec_Environment cfg = Some g" "gm_ok g"
    and "\<forall>j < nat (ec_Amount cfg). fst (fresh j) \<noteq> uuid_Nil \<and> fst (fresh j) \<noteq> ec_CheckoutID cfg"
    and "inj_on (\<lambda>j. fst (fresh j)) {..<nat (ec_Amount cfg)}"
  shows "\<exists>s1 s2 es exs. core_Checkout px db fresh cfg s = (Returned (), s1)
    \<and> core_Status (px_uuid px) db (ec_CheckoutID cfg) s1 = ((es, None), s2)
    \<and> es_ID es = ec_CheckoutID cfg \<and> es_Status es = status_Done
    \<and> (case es_Executors es of None \<Rightarrow> [] | Some xs \<Rightarrow> xs) = exs
    \<and> list_all2 (made_for px cfg) (map fresh [0..<nat (ec_Amount cfg)]) exs"
proof -
  let ?L = "px_uuid px" and ?cid = "ec_CheckoutID cfg" and ?n = "nat (ec_Amount cfg)"
  obtain s1 where s1: "space_Save ?L (space_New ?cid) (db_write db ?cid) s = (None, s1)" "ok s1"
    using space_Save_obtain [OF assms(1,3)] by metis
  have inj: "inj_on (\<lambda>j. fst (fresh j)) {0..<0 + ?n}" using assms(7) by (simp add: atLeast0LessThan)
  obtain exs sp2 s2 where loop: "checkout_loop px db fresh cfg ?n 0 (Some g) (space_New ?cid) s1 = (Returned (Some sp2), s2)"
    "ok s2" "list_all2 (made_for px cfg) (map fresh [0..<0 + ?n]) exs"
    "es_ID sp2 = es_ID (space_New ?cid)"
    "(case es_References sp2 of None \<Rightarrow> [] | Some r \<Rightarrow> r)
       = (case es_References (space_New ?cid) of None \<Rightarrow> [] | Some r \<Rightarrow> r) @ map (\<lambda>ex. u_string ?L (ex_ID ex)) exs"
    "\<forall>ex \<in> set exs. contents s2 (ex_ID ex) = Some (executor_bytes ?L ex)"
    using checkout_loop_done [OF s1(2) assms(5) _ inj, of ?cid px cfg "space_New ?cid"] assms(6) by auto
  have refs: "(case es_References sp2 of None \<Rightarrow> [] | Some r \<Rightarrow> r) = map (\<lambda>ex. u_string ?L (ex_ID ex)) exs"
    using loop(5) by (simp add: space_New_def zero_space_def)
  let ?sp3 = "sp2\<lparr>es_Status := status_Done, es_Description := ''Execution spaces checked out successfully''\<rparr>"
  obtain s3 where s3: "space_Save ?L ?sp3 (db_write db ?cid) s2 = (None, s3)" "ok s3"
    "contents s3 = (contents s2)(?cid \<mapsto> space_bytes ?L ?sp3)"
    using space_Save_obtain [OF loop(2) assms(3)] by metis
  have run: "core_Checkout px db fresh cfg s = (Returned (), s3)"
    using s1(1) loop(1) s3(1) assms(4) by (simp add: core_Checkout_def Let_def)
  obtain s4 where s4: "db_read db ?cid s3 = (Inr (space_bytes ?L ?sp3), s4)" "ok s4" "contents s4 = contents s3"
    by (rule read_obtain [OF s3(2) assms(3)], rule that) (simp_all add: s3(3))
  let ?es = "?sp3\<lparr>es_Executors := None\<rparr>"
  have ids: "map ex_ID exs = map (\<lambda>j. fst (fresh j)) [0..<?n]"
    using made_for_ids [OF loop(3)] by (simp add: comp_def)
  have good: "\<forall>ex \<in> set exs. ex_ID ex \<noteq> uuid_Nil \<and> executor_ok ex \<and> contents s4 (ex_ID ex) = Some (executor_bytes ?L ex)"
  proof
    fix ex assume ex: "ex \<in> set exs"
    then have "ex_ID ex \<in> set (map (\<lambda>j. fst (fresh j)) [0..<?n])" by (simp add: ids [symmetric])
    then have "ex_ID ex \<noteq> uuid_Nil" "ex_ID ex \<noteq> ?cid" using assms(6) by auto
    moreover have "executor_ok ex"
      using loop(3) ex by (auto simp: list_all2_conv_all_nth in_set_conv_nth made_for_def)
    ultimately show "ex_ID ex \<noteq> uuid_Nil \<and> executor_ok ex \<and> contents s4 (ex_ID ex) = Some (executor_bytes ?L ex)"
      using loop(6) ex s3(3) s4(3) by simp
  qed
  obtain s5 where st: "status_executors ?L db (map (\<lambda>ex. u_string ?L (ex_ID ex)) exs) ?es s4
      = ((?es\<lparr>es_Executors := (if exs = [] then None else Some exs)\<rparr>, None), s5)"
    using status_executors_done [OF s4(2) assms(2) good, of ?es] by auto
  have "core_ExecutionSpace ?L db ?cid s3 = (Inr ?es, s4)"
    using s4(1) load_saved_space [OF assms(2)] by (simp add: core_ExecutionSpace_def)
  then have "core_Status ?L db ?cid s3 = ((?es\<lparr>es_Executors := (if exs = [] then None else Some exs)\<rparr>, None), s5)"
    using st refs by (simp add: core_Status_def)
  with run loop(3,4) show ?thesis
    by (intro exI [of _ s3] exI [of _ s5] exI [of _ "?es\<lparr>es_Executors := (if exs = [] then None else Some exs)\<rparr>"]
        exI [of _ exs]) (simp add: space_New_def zero_space_def)
qed

end

subsection \<open>Checkout and checkin on any store\<close>

text \<open>
  On any store, with writes that fail or time out after they took effect: a loop that goes on has
  stored every executor it refers to, and otherwise at most a failure is recorded.
\<close>

definition executors_stored :: "uuid_lib \<Rightarrow> (uuid \<Rightarrow> bytes option) \<Rightarrow> string list \<Rightarrow> bool" where
  "executors_stored L con refs =
     (\<forall>r \<in> set refs. \<exists>ex. r = u_string L (ex_ID ex) \<and> con (ex_ID ex) = Some (executor_bytes L ex))"

context byte_store
begin

text \<open>A checkin that reports no error leaves no executor behind it.\<close>

lemma checkin_frame:
  assumes "ok s" "core_Checkin db exs s = (r, s')"
  shows "ok s' \<and> (\<forall>u. u \<notin> ex_ID ` set exs \<longrightarrow> contents s' u = contents s u)
    \<and> (\<forall>u. contents s' u = contents s u \<or> contents s' u = Some [])
    \<and> (r = None \<longrightarrow> (\<forall>ex \<in> set exs. contents s' (ex_ID ex) = Some []))"
  using assms
proof (induction exs arbitrary: s)
  case (Cons ex exs)
  obtain r1 s1 where w: "db_write db (ex_ID ex) [] s = (r1, s1)" by (cases "db_write db (ex_ID ex) [] s")
  show ?case
  proof (cases r1)
    case None
    note d = write_done [OF Cons.prems(1) w [unfolded None]]
    have "core_Checkin db exs s1 = (r, s')"
      using Cons.prems(2) w None by (simp add: executor_Delete_def)
    from Cons.IH [OF _ this] d show ?thesis by (auto split: if_splits)
  next
    case (Some e)
    then have "r = Some e" "s' = s1" using Cons.prems(2) w by (simp_all add: executor_Delete_def)
    then show ?thesis using write_failed [OF Cons.prems(1) w [unfolded Some]] by auto
  qed
qed simp

lemma checked_in_gone:
  assumes "ok s" "contents s uid = Some []" "core_Job L db uid s = (Inr b, s')"
  shows False
proof -
  obtain r s1 where r: "db_read db uid s = (r, s1)" by (cases "db_read db uid s")
  then have "r \<noteq> Inr []" using assms(3)
    by (auto simp: core_Job_def core_ExecutorSpec_def LoadExecutorSpec_def json_decode_def ws_def)
  moreover have "\<exists>b. r = Inr b"
    using assms(3) r by (cases r) (auto simp: core_Job_def core_ExecutorSpec_def LoadExecutorSpec_def)
  ultimately show False using read_done [OF assms(1), of uid _ s1] r assms(2) by auto
qed

lemma space_Fail_effect:
  assumes "ok s" "space_Fail L e (db_write db uid) err s = (r, s')"
  shows "ok s' \<and> (contents s' = contents s
    \<or> contents s' = (contents s)(uid \<mapsto> space_bytes L (failed_space (es_ID e) err)))"
proof -
  let ?b = "space_bytes L (failed_space (es_ID e) err)"
  obtain r1 s1 where w: "db_write db uid ?b s = (r1, s1)" by (cases "db_write db uid ?b s")
  then have "s' = s1"
    using assms(2) by (cases r1) (simp_all add: space_Fail_def space_Save_def failed_space_def)
  then show ?thesis
    using write_done [OF assms(1), of uid ?b s1] write_failed [OF assms(1), of uid ?b _ s1] w
    by (cases r1) auto
qed

lemma checkout_loop_safe:
  assumes "ok s" "checkout_loop px db fresh cfg n i env space s = (res, s')"
    and "\<forall>j. fst (fresh j) \<noteq> ec_CheckoutID cfg"
    and "executors_stored (px_uuid px) (contents s) (case es_References space of None \<Rightarrow> [] | Some r \<Rightarrow> r)"
    and "\<forall>r \<in> set (case es_References space of None \<Rightarrow> [] | Some r \<Rightarrow> r). \<exists>j < i. r = u_string (px_uuid px) (fst (fresh j))"
    and "uuid_lawful (px_uuid px)"
  shows "ok s' \<and> (case res of
      Returned (Some space') \<Rightarrow> contents s' (ec_CheckoutID cfg) = contents s (ec_CheckoutID cfg)
        \<and> es_ID space' = es_ID space
        \<and> executors_stored (px_uuid px) (contents s') (case es_References space' of None \<Rightarrow> [] | Some r \<Rightarrow> r)
        \<and> (\<forall>r \<in> set (case es_References space' of None \<Rightarrow> [] | Some r \<Rightarrow> r). \<exists>j. r = u_string (px_uuid px) (fst (fresh j)))
    | Returned None \<Rightarrow> contents s' (ec_CheckoutID cfg) = contents s (ec_CheckoutID cfg)
        \<or> (\<exists>err. contents s' (ec_CheckoutID cfg) = Some (space_bytes (px_uuid px) (failed_space (es_ID space) err)))
    | Panicked p \<Rightarrow> contents s' (ec_CheckoutID cfg) = contents s (ec_CheckoutID cfg))"
  using assms
proof (induction n arbitrary: i env space s)
  case 0
  then have "res = Returned (Some space)" "s' = s" by simp_all
  moreover have "\<forall>r \<in> set (case es_References space of None \<Rightarrow> [] | Some r \<Rightarrow> r). \<exists>j. r = u_string (px_uuid px) (fst (fresh j))"
    using 0(5) by blast
  ultimately show ?case using 0(1,4) by simp
next
  case (Suc n)
  let ?L = "px_uuid px" and ?cid = "ec_CheckoutID cfg"
  let ?new = "NewExecutorSpec ?L (px_getenv px) (px_carrier px) (fresh i) (px_url px)
      (ec_ETOSIdentifier cfg) (ec_TestRunner cfg) env"
  show ?case
  proof (cases ?new)
    case (Panicked p)
    with Suc.prems(1,2) show ?thesis by auto
  next
    case (Returned ee)
    obtain ex env' where ee: "ee = (ex, env')" by force
    have eid: "ex_ID ex = fst (fresh i)"
      using Returned ee by (auto simp: NewExecutorSpec_def Let_def split: outcome.splits)
    let ?sp = "space_Add ?L ex space"
    obtain r1 s1 where w: "db_write db (ex_ID ex) (executor_bytes ?L ex) s = (r1, s1)"
      by (cases "db_write db (ex_ID ex) (executor_bytes ?L ex) s")
    have cid: "contents s1 ?cid = contents s ?cid" "ok s1"
      using write_frame [OF Suc.prems(1) w] Suc.prems(3) eid by metis+
    show ?thesis
    proof (cases r1)
      case (Some err)
      let ?err = "errors_join (Some (Text ''failed to write executor to database'')) err"
      have sv: "core_SaveExecutor ?L db ex s = (Some ?err, s1)"
        using w Some by (simp add: core_SaveExecutor_def executor_Save_def)
      obtain r2 s2 where f: "space_Fail ?L ?sp (db_write db ?cid) ?err s1 = (r2, s2)" by force
      have "res = Returned None" "s' = s2"
        using Suc.prems(2) Returned ee sv f by (simp_all add: Let_def)
      then show ?thesis
        using space_Fail_effect [OF cid(2) f] cid(1) by (auto simp: space_Add_def)
    next
      case None
      have sv: "core_SaveExecutor ?L db ex s = (None, s1)"
        using w None by (simp add: core_SaveExecutor_def executor_Save_def)
      note d = write_done [OF Suc.prems(1) w [unfolded None]]
      have refs: "(case es_References ?sp of None \<Rightarrow> [] | Some r \<Rightarrow> r)
          = (case es_References space of None \<Rightarrow> [] | Some r \<Rightarrow> r) @ [u_string ?L (ex_ID ex)]"
        by (simp add: space_Add_def)
      have "executors_stored ?L (contents s1) (case es_References ?sp of None \<Rightarrow> [] | Some r \<Rightarrow> r)"
        unfolding executors_stored_def refs
      proof
        fix r assume r: "r \<in> set ((case es_References space of None \<Rightarrow> [] | Some r \<Rightarrow> r) @ [u_string ?L (ex_ID ex)])"
        show "\<exists>ex. r = u_string ?L (ex_ID ex) \<and> contents s1 (ex_ID ex) = Some (executor_bytes ?L ex)"
        proof (cases "r = u_string ?L (ex_ID ex)")
          case True
          then show ?thesis using d by auto
        next
          case False
          with r Suc.prems(4) obtain e where "r = u_string ?L (ex_ID e)" "contents s (ex_ID e) = Some (executor_bytes ?L e)"
            by (auto simp: executors_stored_def)
          then show ?thesis using d False by (intro exI [of _ e]) auto
        qed
      qed
      moreover have "\<forall>r \<in> set (case es_References ?sp of None \<Rightarrow> [] | Some r \<Rightarrow> r). \<exists>j < Suc i. r = u_string ?L (fst (fresh j))"
        unfolding refs using Suc.prems(5) eid by (auto intro: less_SucI)
      moreover have loop: "checkout_loop px db fresh cfg n (Suc i) env' ?sp s1 = (res, s')"
        using Suc.prems(2) Returned ee sv by (simp add: Let_def)
      moreover have sid: "es_ID ?sp = es_ID space" by (simp add: space_Add_def)
      ultimately show ?thesis
        using Suc.IH [OF cid(2) loop Suc.prems(3) _ _ Suc.prems(6)] unfolding cid(1) sid by blast
    qed
  qed
qed

lemma final_write:
  assumes "ok s" "(case space_Save L sp (db_write db cid) s of
        (None, s3) \<Rightarrow> (Returned (), s3)
      | (Some err, s3) \<Rightarrow> (case space_Fail L sp (db_write db cid) err s3 of
             (Some failErr, s4) \<Rightarrow> (Returned (), s4)
           | (None, s4) \<Rightarrow> (Panicked ''nil pointer dereference'', s4))) = (res, s')"
    and "contents s' cid = Some b" "contents s cid \<noteq> Some b" "\<And>u err. b \<noteq> space_bytes L (failed_space u err)"
  shows "(\<forall>u. u \<noteq> cid \<longrightarrow> contents s' u = contents s u) \<and> b = space_bytes L sp"
proof -
  obtain r3 s3 where w: "db_write db cid (space_bytes L sp) s = (r3, s3)"
    by (cases "db_write db cid (space_bytes L sp) s")
  have c3: "ok s3" "(\<forall>u. u \<noteq> cid \<longrightarrow> contents s3 u = contents s u)"
    "contents s3 cid = contents s cid \<or> contents s3 cid = Some (space_bytes L sp)"
    using write_done [OF assms(1), of cid _ s3] write_failed [OF assms(1), of cid _ _ s3] w
    by (cases r3; fastforce)+
  show ?thesis
  proof (cases r3)
    case None
    then have "s' = s3" using assms(2) w by (simp add: space_Save_def)
    with c3 assms(3,4) show ?thesis by auto
  next
    case (Some e)
    let ?e = "errors_join (Some (Text ''failed to write execution space to database'')) e"
    obtain r4 s4 where f: "space_Fail L sp (db_write db cid) ?e s3 = (r4, s4)" by force
    then have "s' = s4" using assms(2) w Some by (cases r4) (auto simp: space_Save_def)
    with space_Fail_effect [OF c3(1) f] c3 assms(3,4) assms(5) [of "es_ID sp" ?e] show ?thesis by auto
  qed
qed

text \<open>
  Whatever fails, the space stored under the checkout's ID is not called done unless every
  executor it refers to is stored.
\<close>

lemma checkout_done_stored:
  assumes "ok s" "core_Checkout px db fresh cfg s = (res, s')"
    and "\<forall>j. fst (fresh j) \<noteq> ec_CheckoutID cfg" "uuid_lawful (px_uuid px)"
    and "contents s (ec_CheckoutID cfg) = None"
    and "contents s' (ec_CheckoutID cfg) = Some b" "Load (px_uuid px) (Inr b) = Inr es" "es_Status es = status_Done"
  shows "executors_stored (px_uuid px) (contents s') (case es_References es of None \<Rightarrow> [] | Some r \<Rightarrow> r)"
proof -
  let ?L = "px_uuid px" and ?cid = "ec_CheckoutID cfg" and ?sp = "space_New (ec_CheckoutID cfg)"
  have neq: "status_Done \<noteq> status_Pending" "status_Done \<noteq> status_Failed"
    by (simp_all add: status_Done_def status_Pending_def status_Failed_def)
  have not_new: "b \<noteq> space_bytes ?L ?sp"
    using assms(7,8) load_saved_space [OF assms(4), of ?sp] neq by (auto simp: space_New_def)
  have not_failed: "b \<noteq> space_bytes ?L (failed_space u err)" for u err
    using assms(7,8) load_saved_space [OF assms(4), of "failed_space u err"] neq by (auto simp: failed_space_def)
  obtain r1 s1 where w1: "db_write db ?cid (space_bytes ?L ?sp) s = (r1, s1)"
    by (cases "db_write db ?cid (space_bytes ?L ?sp) s")
  have s1: "ok s1" "contents s1 ?cid \<in> {None, Some (space_bytes ?L ?sp)}"
    using write_done [OF assms(1), of ?cid _ s1] write_failed [OF assms(1), of ?cid _ _ s1] w1 assms(5)
    by (cases r1; fastforce)+
  obtain lres s2 where loop: "checkout_loop px db fresh cfg (nat (ec_Amount cfg)) 0 (ec_Environment cfg) ?sp s1 = (lres, s2)"
    by force
  have "r1 = None"
    using assms(2,6) w1 s1(2) not_new by (cases r1) (auto simp: core_Checkout_def Let_def space_Save_def)
  then have run: "core_Checkout px db fresh cfg s = (case lres of
      Panicked p \<Rightarrow> (Panicked p, s2) | Returned None \<Rightarrow> (Returned (), s2)
    | Returned (Some space2) \<Rightarrow>
        (let space3 = space2\<lparr>es_Status := status_Done, es_Description := ''Execution spaces checked out successfully''\<rparr>
         in case space_Save ?L space3 (db_write db ?cid) s2 of
              (None, s3) \<Rightarrow> (Returned (), s3)
            | (Some err, s3) \<Rightarrow> (case space_Fail ?L space3 (db_write db ?cid) err s3 of
                   (Some failErr, s4) \<Rightarrow> (Returned (), s4)
                 | (None, s4) \<Rightarrow> (Panicked ''nil pointer dereference'', s4))))"
    using w1 loop by (simp add: core_Checkout_def Let_def space_Save_def)
  have nil: "(case es_References ?sp of None \<Rightarrow> [] | Some r \<Rightarrow> r) = []" by (simp add: space_New_def zero_space_def)
  have inits: "executors_stored ?L (contents s1) (case es_References ?sp of None \<Rightarrow> [] | Some r \<Rightarrow> r)"
    "\<forall>r \<in> set (case es_References ?sp of None \<Rightarrow> [] | Some r \<Rightarrow> r). \<exists>j < 0. r = u_string ?L (fst (fresh j))"
    unfolding nil by (simp_all add: executors_stored_def)
  note safe = checkout_loop_safe [OF s1(1) loop assms(3) inits assms(4)]
  have early: "contents s2 ?cid \<noteq> Some b" if "contents s2 ?cid = contents s1 ?cid"
    using that s1(2) not_new by auto
  show ?thesis
  proof (cases lres)
    case (Panicked p)
    with run assms(2,6) safe early show ?thesis by simp
  next
    case ret: (Returned r)
    show ?thesis
    proof (cases r)
      case None
      with ret run assms(2) have "s' = s2" by simp
      with safe ret None early assms(6) not_failed show ?thesis by auto
    next
      case (Some sp2)
      let ?sp3 = "sp2\<lparr>es_Status := status_Done, es_Description := ''Execution spaces checked out successfully''\<rparr>"
      let ?refs = "case es_References sp2 of None \<Rightarrow> [] | Some r \<Rightarrow> r"
      have sf: "ok s2" "contents s2 ?cid = contents s1 ?cid" "executors_stored ?L (contents s2) ?refs"
        "\<forall>r \<in> set ?refs. \<exists>j. r = u_string ?L (fst (fresh j))"
        using safe ret Some by simp_all
      have ends: "(\<forall>u. u \<noteq> ?cid \<longrightarrow> contents s' u = contents s2 u) \<and> b = space_bytes ?L ?sp3"
        using final_write [OF sf(1), of ?L ?sp3 ?cid res s' b] run assms(2,6) ret Some early [OF sf(2)] not_failed
        by (simp add: Let_def)
      then have "es_References es = es_References sp2"
        using load_saved_space [OF assms(4), of ?sp3] assms(7) by auto
      moreover have "executors_stored ?L (contents s') ?refs"
        unfolding executors_stored_def
      proof
        fix r assume r: "r \<in> set ?refs"
        then obtain ex where ex: "r = u_string ?L (ex_ID ex)" "contents s2 (ex_ID ex) = Some (executor_bytes ?L ex)"
          using sf(3) by (auto simp: executors_stored_def)
        obtain j where "r = u_string ?L (fst (fresh j))" using sf(4) r by blast
        then have "ex_ID ex \<noteq> ?cid" using ex(1) uuid_lawfulD(3) [OF assms(4)] assms(3) by metis
        with ends ex show "\<exists>ex. r = u_string ?L (ex_ID ex) \<and> contents s' (ex_ID ex) = Some (executor_bytes ?L ex)" by auto
      qed
      ultimately show ?thesis by simp
    qed
  qed
qed

end

end
