(* ===== verification/Kube_Executor.thy ===== *)
theory Kube_Executor
  imports Execution_Space "HOL-Library.Multiset"
begin

text \<open>
  \<open>internal/executionspace/executor\<close>: the \<open>Executor\<close> interface, with what its clients rely
  on as the locale \<open>job_runner\<close>, and its implementation on Kubernetes.  The Kubernetes API is a
  parameter with stated laws.  A watch yields the list of what is received until the context ends.
\<close>

subsection \<open>The interface\<close>

record 's executor =
  e_Name :: string
  e_Start :: "executor_spec \<Rightarrow> 's \<Rightarrow> (gerror + string) \<times> 's"
  e_Wait :: "string \<Rightarrow> 's \<Rightarrow> (gerror + string \<times> string) outcome \<times> 's"
  e_Cancel :: "string \<Rightarrow> 's \<Rightarrow> gerror option \<times> 's"
  e_Stop :: "string \<Rightarrow> 's \<Rightarrow> gerror option \<times> 's"
  e_Alive :: "string \<Rightarrow> 's \<Rightarrow> (gerror + bool) \<times> 's"

locale job_runner =
  fixes ex :: "'s executor"
    and runner_ok :: "'s \<Rightarrow> bool"
    and jobs :: "'s \<Rightarrow> string set"
  assumes start_done: "runner_ok s \<Longrightarrow> e_Start ex spec s = (Inr n, s') \<Longrightarrow>
          runner_ok s' \<and> jobs s' = insert n (jobs s)"
    and start_failed: "runner_ok s \<Longrightarrow> e_Start ex spec s = (Inl e, s') \<Longrightarrow>
          runner_ok s' \<and> jobs s \<subseteq> jobs s'"
    and wait_keeps: "runner_ok s \<Longrightarrow> e_Wait ex n s = (w, s') \<Longrightarrow> runner_ok s' \<and> jobs s' = jobs s"
    and wait_name: "runner_ok s \<Longrightarrow> e_Wait ex n s = (Returned (Inr (b, u)), s') \<Longrightarrow> b = n"
    and cancel_done: "runner_ok s \<Longrightarrow> e_Cancel ex n s = (r, s') \<Longrightarrow>
          runner_ok s' \<and> jobs s' \<subseteq> jobs s \<and> jobs s - {n} \<subseteq> jobs s' \<and> (r = None \<longrightarrow> n \<notin> jobs s')"
    and stop_done: "runner_ok s \<Longrightarrow> e_Stop ex n s = (r, s') \<Longrightarrow>
          runner_ok s' \<and> jobs s' \<subseteq> jobs s \<and> jobs s - {n} \<subseteq> jobs s' \<and> (r = None \<longrightarrow> n \<notin> jobs s')"
    and alive_keeps: "runner_ok s \<Longrightarrow> e_Alive ex n s = (a, s') \<Longrightarrow> runner_ok s' \<and> jobs s' = jobs s"

subsection \<open>The Kubernetes API\<close>

record pod =
  pod_conditions :: "(string \<times> string) list"

text \<open>Iterating over a map has no fixed order, so the arguments of a job are a multiset.\<close>

record k8s_job =
  job_name :: string
  job_backoffLimit :: int
  job_completions :: int
  job_parallelism :: int
  job_restartPolicy :: string
  job_container :: string
  job_image :: string
  job_args :: "string multiset"
  job_env :: "string gmap"
  job_secret :: string

text \<open>
  An event of a watch carries a pod or another object, such as the status of an error; a closed
  watch yields zero events, without an object, from then on.
\<close>

datatype watch_input = WPod string pod | WOther string | WClosed

record 's k8s =
  k_create :: "k8s_job \<Rightarrow> 's \<Rightarrow> (gerror + string) \<times> 's"
  k_delete :: "string \<Rightarrow> 's \<Rightarrow> gerror option \<times> 's"
  k_get :: "string \<Rightarrow> 's \<Rightarrow> (gerror + string) \<times> 's"
  k_pods :: "string \<Rightarrow> 's \<Rightarrow> (gerror + pod list) \<times> 's"
  k_watch :: "string \<Rightarrow> 's \<Rightarrow> (gerror + watch_input list) \<times> 's"
  k_notFound :: "gerror \<Rightarrow> bool"
  k_probableEOF :: "gerror \<Rightarrow> bool"
  k_jobs :: "'s \<Rightarrow> string set"

text \<open>\<open>k_jobs\<close>, for reference: the jobs that exist and are not being deleted.\<close>

definition k8s_lawful :: "'s k8s \<Rightarrow> bool" where
  "k8s_lawful k =
     ((\<forall>j s n s'. k_create k j s = (Inr n, s') \<longrightarrow> n = job_name j \<and> k_jobs k s' = insert n (k_jobs k s))
      \<and> (\<forall>j s e s'. k_create k j s = (Inl e, s') \<longrightarrow>
            k_jobs k s' = k_jobs k s \<or> k_jobs k s' = insert (job_name j) (k_jobs k s))
      \<and> (\<forall>n s s'. k_delete k n s = (None, s') \<longrightarrow> k_jobs k s' = k_jobs k s - {n})
      \<and> (\<forall>n s e s'. k_delete k n s = (Some e, s') \<longrightarrow>
            (if k_notFound k e then n \<notin> k_jobs k s \<and> k_jobs k s' = k_jobs k s
             else k_jobs k s' = k_jobs k s \<or> k_jobs k s' = k_jobs k s - {n}))
      \<and> (\<forall>n s r s'. k_get k n s = (r, s') \<longrightarrow> k_jobs k s' = k_jobs k s)
      \<and> (\<forall>l s r s'. k_pods k l s = (r, s') \<longrightarrow> k_jobs k s' = k_jobs k s)
      \<and> (\<forall>l s r s'. k_watch k l s = (r, s') \<longrightarrow> k_jobs k s' = k_jobs k s))"

subsection \<open>The executor\<close>

definition executor_job :: "string \<Rightarrow> uuid_lib \<Rightarrow> executor_spec \<Rightarrow> k8s_job" where
  "executor_job secret L spec =
     \<lparr>job_name = ''etr-'' @ u_string L (ex_ID spec),
      job_backoffLimit = 0, job_completions = 1, job_parallelism = 1, job_restartPolicy = ''Never'',
      job_container = ''etos-test-runner'',
      job_image = in_Image (ex_Instructions spec),
      job_args = mset (map (\<lambda>(key, value). key @ ''='' @ value)
        (case in_Parameters (ex_Instructions spec) of None \<Rightarrow> [] | Some m \<Rightarrow> m)),
      job_env = (case in_Environment (ex_Instructions spec) of None \<Rightarrow> [] | Some m \<Rightarrow> m),
      job_secret = secret\<rparr>"

definition kube_Start :: "'s k8s \<Rightarrow> string \<Rightarrow> uuid_lib \<Rightarrow> executor_spec \<Rightarrow> 's \<Rightarrow> (gerror + string) \<times> 's" where
  "kube_Start k secret L spec s = k_create k (executor_job secret L spec) s"

definition isReady :: "pod \<Rightarrow> bool" where
  "isReady p = (\<exists>c \<in> set (pod_conditions p). fst c = ''Ready'' \<and> snd c = ''True'')"

definition podFromJob :: "'s k8s \<Rightarrow> string \<Rightarrow> 's \<Rightarrow> (gerror + pod) \<times> 's" where
  "podFromJob k name s =
     (case k_pods k (''job-name='' @ name) s of
        (Inl err, s') \<Rightarrow> (Inl err, s')
      | (Inr ps, s') \<Rightarrow> (if length ps \<noteq> 1 then Inl (Text ''no pod yet'') else Inr (hd ps), s'))"

text \<open>The loop of \<open>Wait\<close>; an object that is not a pod fails the type assertion.\<close>

fun wait_loop :: "string \<Rightarrow> watch_input list \<Rightarrow> (gerror + string \<times> string) outcome" where
  "wait_loop name [] = Returned (Inl (Text (''timed out waiting for Kubernetes job '' @ name @ '' to start'')))"
| "wait_loop name (WPod t p # evs) = (if isReady p then Returned (Inr (name, [])) else wait_loop name evs)"
| "wait_loop name (WOther t # evs) = Panicked ''interface conversion: runtime.Object is not *v1.Pod''"
| "wait_loop name (WClosed # evs) = Panicked ''interface conversion: runtime.Object is nil, not *v1.Pod''"

definition kube_Wait :: "'s k8s \<Rightarrow> string \<Rightarrow> 's \<Rightarrow> (gerror + string \<times> string) outcome \<times> 's" where
  "kube_Wait k name s =
     (case k_watch k (''job-name='' @ name) s of
        (Inl err, s') \<Rightarrow> (Returned (Inl err), s')
      | (Inr evs, s') \<Rightarrow> (wait_loop name evs, s'))"

text \<open>The loop of \<open>Stop\<close>; a closed watch makes it spin until the context ends.\<close>

fun stop_loop :: "string \<Rightarrow> watch_input list \<Rightarrow> gerror option" where
  "stop_loop name [] = Some (Text (''timed out waiting for Kubernetes job '' @ name @ '' to stop''))"
| "stop_loop name (WPod t p # evs) = (if t = ''DELETED'' then None else stop_loop name evs)"
| "stop_loop name (WOther t # evs) = (if t = ''DELETED'' then None else stop_loop name evs)"
| "stop_loop name (WClosed # evs) = Some (Text (''timed out waiting for Kubernetes job '' @ name @ '' to stop''))"

definition kube_Stop :: "'s k8s \<Rightarrow> string \<Rightarrow> 's \<Rightarrow> gerror option \<times> 's" where
  "kube_Stop k name s =
     (case k_delete k name s of
        (Some err, s') \<Rightarrow> (if k_notFound k err then None else Some err, s')
      | (None, s') \<Rightarrow>
          (case k_watch k (''job-name='' @ name) s' of
             (Inl err, s'') \<Rightarrow> (if k_probableEOF k err then None else Some err, s'')
           | (Inr evs, s'') \<Rightarrow> (stop_loop name evs, s'')))"

definition kube_Cancel :: "'s k8s \<Rightarrow> string \<Rightarrow> 's \<Rightarrow> gerror option \<times> 's" where
  "kube_Cancel k uid s = kube_Stop k uid s"

definition kube_Alive :: "'s k8s \<Rightarrow> string \<Rightarrow> 's \<Rightarrow> (gerror + bool) \<times> 's" where
  "kube_Alive k name s =
     (case k_get k name s of
        (Inl err, s') \<Rightarrow> (Inl err, s')
      | (Inr job, s') \<Rightarrow>
          (case podFromJob k job s' of
             (Inl err, s'') \<Rightarrow> (Inl err, s'')
           | (Inr p, s'') \<Rightarrow> (Inr (isReady p), s'')))"

definition kube_executor :: "'s k8s \<Rightarrow> string \<Rightarrow> uuid_lib \<Rightarrow> 's executor" where
  "kube_executor k secret L =
     \<lparr>e_Name = ''kubernetes'', e_Start = kube_Start k secret L, e_Wait = kube_Wait k,
      e_Cancel = kube_Cancel k, e_Stop = kube_Stop k, e_Alive = kube_Alive k\<rparr>"

lemma k8s_lawfulD:
  assumes "k8s_lawful k"
  shows "k_create k j s = (Inr n, s') \<Longrightarrow> n = job_name j \<and> k_jobs k s' = insert n (k_jobs k s)"
    and "k_create k j s = (Inl e, s') \<Longrightarrow> k_jobs k s \<subseteq> k_jobs k s'"
    and "k_delete k n s = (None, s') \<Longrightarrow> k_jobs k s' = k_jobs k s - {n}"
    and "k_delete k n s = (Some e, s') \<Longrightarrow>
        (if k_notFound k e then n \<notin> k_jobs k s \<and> k_jobs k s' = k_jobs k s
         else k_jobs k s' = k_jobs k s \<or> k_jobs k s' = k_jobs k s - {n})"
    and "k_get k n s = (r, s') \<Longrightarrow> k_jobs k s' = k_jobs k s"
    and "k_pods k n s = (r2, s') \<Longrightarrow> k_jobs k s' = k_jobs k s"
    and "k_watch k n s = (r3, s') \<Longrightarrow> k_jobs k s' = k_jobs k s"
  using assms unfolding k8s_lawful_def by (metis subset_insertI order.refl)+

lemma wait_loop_name: "wait_loop name evs = Returned (Inr (b, u)) \<Longrightarrow> b = name"
  by (induction name evs rule: wait_loop.induct) (auto split: if_splits)

lemma kube_Stop_effect:
  assumes "k8s_lawful k" "kube_Stop k n s = (r, s')"
  shows "k_jobs k s' \<subseteq> k_jobs k s \<and> k_jobs k s - {n} \<subseteq> k_jobs k s' \<and> (r = None \<longrightarrow> n \<notin> k_jobs k s')"
proof -
  obtain d s1 where d: "k_delete k n s = (d, s1)" by (cases "k_delete k n s")
  show ?thesis
  proof (cases d)
    case None
    obtain w s2 where w: "k_watch k (''job-name='' @ n) s1 = (w, s2)" by (cases "k_watch k (''job-name='' @ n) s1")
    then have "s' = s2" using assms(2) d None by (auto simp: kube_Stop_def split: sum.splits)
    then have "k_jobs k s' = k_jobs k s - {n}"
      using k8s_lawfulD(3) [OF assms(1) d [unfolded None]] k8s_lawfulD(7) [OF assms(1) w] by simp
    then show ?thesis by auto
  next
    case (Some e)
    then have "s' = s1" "r = (if k_notFound k e then None else Some e)"
      using assms(2) d by (simp_all add: kube_Stop_def)
    then show ?thesis
      using k8s_lawfulD(4) [OF assms(1) d [unfolded Some]] by (auto split: if_splits)
  qed
qed

interpretation kube: job_runner "kube_executor k secret L" "\<lambda>_. k8s_lawful k" "k_jobs k" for k secret L
proof (unfold_locales, goal_cases)
  case (1 s spec n s')
  then show ?case using k8s_lawfulD(1) [of k] by (auto simp: kube_executor_def kube_Start_def)
next
  case (2 s spec e s')
  then show ?case using k8s_lawfulD(2) [of k] by (auto simp: kube_executor_def kube_Start_def)
next
  case (3 s n r s')
  then obtain w where "k_watch k (''job-name='' @ n) s = (w, s')"
    by (auto simp: kube_executor_def kube_Wait_def split: prod.splits sum.splits)
  with 3 show ?case using k8s_lawfulD(7) [of k] by blast
next
  case (4 s n b u s')
  then show ?case
    by (auto simp: kube_executor_def kube_Wait_def split: prod.splits sum.splits dest: wait_loop_name)
next
  case (5 s n r s')
  then show ?case using kube_Stop_effect [of k n s r s'] by (simp add: kube_executor_def kube_Cancel_def)
next
  case (6 s n r s')
  then show ?case using kube_Stop_effect [of k n s r s'] by (simp add: kube_executor_def)
next
  case (7 s n r s')
  obtain g s1 where g: "k_get k n s = (g, s1)" by (cases "k_get k n s")
  show ?case
  proof (cases g)
    case (Inl e)
    then have "s' = s1" using 7 g by (simp add: kube_executor_def kube_Alive_def)
    then show ?thesis using 7 k8s_lawfulD(5) [OF _ g] by blast
  next
    case (Inr j)
    obtain p s2 where p: "k_pods k (''job-name='' @ j) s1 = (p, s2)" by (cases "k_pods k (''job-name='' @ j) s1")
    then have "s' = s2" using 7 g Inr
      by (auto simp: kube_executor_def kube_Alive_def podFromJob_def split: sum.splits)
    then show ?thesis using 7 k8s_lawfulD(5) [OF _ g] k8s_lawfulD(6) [OF _ p] by blast
  qed
qed

text \<open>A closed watch crashes \<open>Wait\<close>, and makes \<open>Stop\<close> report a job that it deleted as not stopped.\<close>

lemma kube_Wait_closed_panics:
  "k_watch k (''job-name='' @ n) s = (Inr (WClosed # evs), s') \<Longrightarrow> \<exists>p. kube_Wait k n s = (Panicked p, s')"
  by (simp add: kube_Wait_def)

end
