(* ===== verification/Event_Repository.thy ===== *)
theory Event_Repository
  imports Execution_Space
begin

text \<open>
  \<open>internal/eventrepository/eventrepository.go\<close> and the sub suite lookup of
  \<open>pkg/executionspace/v1alpha/executor.go\<close>.  The HTTP client is the parameter \<open>fetch\<close> (URL
  and added query to status and body), and the types of the Eiffel SDK are known by what the
  sources use of them.
\<close>

subsection \<open>Queries\<close>

type_synonym 's fetcher =
  "string \<Rightarrow> (string \<times> string) list \<Rightarrow> 's \<Rightarrow> (gerror + int \<times> (gerror + bytes)) \<times> 's"

text \<open>\<open>ee_first\<close> is \<open>Links.FindFirst\<close>; \<open>ee_name\<close> is \<open>Data.Name\<close>.\<close>

record eiffel_event =
  ee_id :: string
  ee_name :: string
  ee_first :: "string \<Rightarrow> string"

record eiffel_sdk =
  sdk_environment :: "json \<Rightarrow> gerror + eiffel_event"
  sdk_suite :: "json \<Rightarrow> gerror + eiffel_event"
  sdk_activity :: "json \<Rightarrow> gerror + eiffel_event"

definition getEvents :: "'s fetcher \<Rightarrow> string \<Rightarrow> (string \<times> string) list \<Rightarrow> 's \<Rightarrow> (gerror + bytes) \<times> 's" where
  "getEvents fetch url query s =
     (case fetch url query s of
        (Inl err, s') \<Rightarrow> (Inl err, s')
      | (Inr (status, body), s') \<Rightarrow>
          (if status = 404 then Inl (Text ''event not found in event repository'') else body, s'))"

text \<open>The three response types have the one field \<open>items\<close>.\<close>

definition assign_items :: "(json \<Rightarrow> gerror + 'e) \<Rightarrow> string \<Rightarrow> json \<Rightarrow> 'e list option \<Rightarrow> gerror + 'e list option" where
  "assign_items dec k v old = (if fold_name k = ''items'' then dec_slice dec v else Inr old)"

definition first_item :: "(json \<Rightarrow> gerror + 'e) \<Rightarrow> string \<Rightarrow> (gerror + bytes) \<Rightarrow> gerror + 'e" where
  "first_item dec missing r =
     (case r of Inl err \<Rightarrow> Inl err
      | Inr body \<Rightarrow> (case json_unmarshal body of Inl err \<Rightarrow> Inl err
          | Inr doc \<Rightarrow> (case fill_struct (assign_items dec) doc None of Inl err \<Rightarrow> Inl err
              | Inr (Some (e # _)) \<Rightarrow> Inr e
              | Inr _ \<Rightarrow> Inl (Text missing))))"

definition ActivityTriggered :: "'s fetcher \<Rightarrow> eiffel_sdk \<Rightarrow> string \<Rightarrow> string \<Rightarrow> 's \<Rightarrow> (gerror + eiffel_event) \<times> 's" where
  "ActivityTriggered fetch sdk url uid s =
     (case getEvents fetch url [(''meta.id'', uid), (''meta.type'', ''EiffelActivityTriggeredEvent'')] s of
        (r, s') \<Rightarrow> (first_item (sdk_activity sdk) ''no sub suite found'' r, s'))"

definition MainSuiteStarted :: "'s fetcher \<Rightarrow> eiffel_sdk \<Rightarrow> string \<Rightarrow> string \<Rightarrow> 's \<Rightarrow> (gerror + eiffel_event) \<times> 's" where
  "MainSuiteStarted fetch sdk url uid s =
     (case ActivityTriggered fetch sdk url uid s of
        (Inl err, s') \<Rightarrow> (Inl err, s')
      | (Inr activity, s') \<Rightarrow>
          (let testSuiteID = ee_first activity ''CONTEXT''
           in case getEvents fetch url [(''meta.id'', testSuiteID), (''meta.type'', ''EiffelTestSuiteStartedEvent'')] s' of
                (r, s'') \<Rightarrow> (first_item (sdk_suite sdk) ''no sub suite found'' r, s'')))"

definition TestSuiteStarted :: "'s fetcher \<Rightarrow> eiffel_sdk \<Rightarrow> string \<Rightarrow> string \<Rightarrow> string \<Rightarrow> 's \<Rightarrow> (gerror + eiffel_event) \<times> 's" where
  "TestSuiteStarted fetch sdk url uid name s =
     (case getEvents fetch url [(''data.name'', name), (''links.target'', uid), (''meta.type'', ''EiffelTestSuiteStartedEvent'')] s of
        (r, s') \<Rightarrow> (first_item (sdk_suite sdk) ''no sub suite found'' r, s'))"

definition EnvironmentDefined :: "'s fetcher \<Rightarrow> eiffel_sdk \<Rightarrow> string \<Rightarrow> string \<Rightarrow> 's \<Rightarrow> (gerror + eiffel_event) \<times> 's" where
  "EnvironmentDefined fetch sdk url uid s =
     (case getEvents fetch url [(''meta.id'', uid), (''meta.type'', ''EiffelEnvironmentDefinedEvent'')] s of
        (r, s') \<Rightarrow> (first_item (sdk_environment sdk) ''no environment defined found'' r, s'))"

lemma first_item_Inr:
  "first_item dec missing r = Inr e \<Longrightarrow>
   \<exists>body doc es. r = Inr body \<and> json_unmarshal body = Inr doc
     \<and> fill_struct (assign_items dec) doc None = Inr (Some (e # es))"
  by (auto simp: first_item_def split: sum.splits option.splits list.splits)

subsection \<open>The sub suite lookup\<close>

text \<open>
  \<open>state\<close> keeps the environment and the main suite once they are found, so that a retry does
  not ask for them again.
\<close>

record suite_state =
  ss_spec :: executor_spec
  ss_environment :: "eiffel_event option"
  ss_mainSuite :: "eiffel_event option"

definition new_suite_state :: "executor_spec \<Rightarrow> suite_state" where
  "new_suite_state spec = \<lparr>ss_spec = spec, ss_environment = None, ss_mainSuite = None\<rparr>"

definition fetch_environment ::
  "'s fetcher \<Rightarrow> eiffel_sdk \<Rightarrow> string \<Rightarrow> suite_state \<Rightarrow> 's \<Rightarrow> (gerror option \<times> suite_state) \<times> 's" where
  "fetch_environment fetch sdk url st s =
     (if ss_environment st = None then
        (case EnvironmentDefined fetch sdk url
                (map_get (in_Environment (ex_Instructions (ss_spec st))) ''ENVIRONMENT_ID'') s of
           (Inl err, s') \<Rightarrow> ((Some err, st), s')
         | (Inr event, s') \<Rightarrow> ((None, st\<lparr>ss_environment := Some event\<rparr>), s'))
      else ((None, st), s))"

definition fetch_mainSuite ::
  "'s fetcher \<Rightarrow> eiffel_sdk \<Rightarrow> string \<Rightarrow> suite_state \<Rightarrow> 's \<Rightarrow> (gerror option \<times> suite_state) \<times> 's" where
  "fetch_mainSuite fetch sdk url st s =
     (case (ss_environment st, ss_mainSuite st) of
        (Some env, None) \<Rightarrow>
          (case MainSuiteStarted fetch sdk url (ee_first env ''CONTEXT'') s of
             (Inl err, s') \<Rightarrow> ((Some err, st), s')
           | (Inr event, s') \<Rightarrow> ((None, st\<lparr>ss_mainSuite := Some event\<rparr>), s'))
      | _ \<Rightarrow> ((None, st), s))"

definition getSubSuite ::
  "'s fetcher \<Rightarrow> eiffel_sdk \<Rightarrow> string \<Rightarrow> suite_state \<Rightarrow> 's \<Rightarrow> ((gerror + eiffel_event) \<times> suite_state) \<times> 's" where
  "getSubSuite fetch sdk url st s =
     (case fetch_environment fetch sdk url st s of
        ((Some err, st1), s1) \<Rightarrow> ((Inl err, st1), s1)
      | ((None, st1), s1) \<Rightarrow>
          (case fetch_mainSuite fetch sdk url st1 s1 of
             ((Some err, st2), s2) \<Rightarrow> ((Inl err, st2), s2)
           | ((None, st2), s2) \<Rightarrow>
               (case (ss_mainSuite st2, ss_environment st2) of
                  (Some main, Some env) \<Rightarrow>
                    (case TestSuiteStarted fetch sdk url (ee_id main) (ee_name env) s2 of
                       (r, s3) \<Rightarrow> ((r, st2), s3))
                | _ \<Rightarrow> ((Inl (Text ''sub suite not yet available''), st2), s2))))"

text \<open>
  \<open>waitStart\<close>: \<open>retry.Constant\<close> calls its function until it succeeds, fails for good, or the
  context ends, which leaves \<open>n\<close> attempts.
\<close>

fun waitStart ::
  "(string \<Rightarrow> 's \<Rightarrow> (gerror + bool) \<times> 's) \<Rightarrow> 's fetcher \<Rightarrow> eiffel_sdk \<Rightarrow> string \<Rightarrow> nat \<Rightarrow> suite_state \<Rightarrow> 's
   \<Rightarrow> gerror option \<times> 's" where
  "waitStart alive fetch sdk url 0 st s = (Some (Sentinel ''context deadline exceeded''), s)"
| "waitStart alive fetch sdk url (Suc n) st s =
     (case alive (ex_BuildID (ss_spec st)) s of
        (Inl err, s1) \<Rightarrow> waitStart alive fetch sdk url n st s1
      | (Inr False, s1) \<Rightarrow> (Some (Text ''test runner did not start properly''), s1)
      | (Inr True, s1) \<Rightarrow>
          (case getSubSuite fetch sdk url st s1 of
             ((Inl err, st'), s2) \<Rightarrow> waitStart alive fetch sdk url n st' s2
           | ((Inr event, st'), s2) \<Rightarrow> (None, s2)))"

subsection \<open>What the lookup keeps and finds\<close>

definition suite_state_ok :: "suite_state \<Rightarrow> bool" where
  "suite_state_ok st = (ss_mainSuite st \<noteq> None \<longrightarrow> ss_environment st \<noteq> None)"

lemma getSubSuite_state:
  assumes "suite_state_ok st" "getSubSuite fetch sdk url st s = ((r, st'), s')"
  shows "suite_state_ok st' \<and> ss_spec st' = ss_spec st
    \<and> (ss_environment st \<noteq> None \<longrightarrow> ss_environment st' = ss_environment st)
    \<and> (ss_mainSuite st \<noteq> None \<longrightarrow> ss_mainSuite st' = ss_mainSuite st)
    \<and> (is_ok r \<longrightarrow> ss_environment st' \<noteq> None \<and> ss_mainSuite st' \<noteq> None)"
  using assms
  by (auto simp: getSubSuite_def fetch_environment_def fetch_mainSuite_def suite_state_ok_def
      split: if_splits prod.splits sum.splits option.splits)

lemma getSubSuite_found:
  assumes "getSubSuite fetch sdk url st s = ((Inr e, st'), s')"
  shows "\<exists>env main s1 body doc es. ss_environment st' = Some env \<and> ss_mainSuite st' = Some main
    \<and> getEvents fetch url [(''data.name'', ee_name env), (''links.target'', ee_id main),
          (''meta.type'', ''EiffelTestSuiteStartedEvent'')] s1 = (Inr body, s')
    \<and> json_unmarshal body = Inr doc \<and> fill_struct (assign_items (sdk_suite sdk)) doc None = Inr (Some (e # es))"
proof -
  obtain env main s2 where st: "ss_environment st' = Some env" "ss_mainSuite st' = Some main"
    "TestSuiteStarted fetch sdk url (ee_id main) (ee_name env) s2 = (Inr e, s')"
    using assms by (auto simp: getSubSuite_def split: prod.splits option.splits)
  then obtain r where r: "getEvents fetch url [(''data.name'', ee_name env), (''links.target'', ee_id main),
          (''meta.type'', ''EiffelTestSuiteStartedEvent'')] s2 = (r, s')"
    "first_item (sdk_suite sdk) ''no sub suite found'' r = Inr e"
    unfolding TestSuiteStarted_def by (auto split: prod.splits)
  from first_item_Inr [OF r(2)] r(1) st(1,2) show ?thesis by blast
qed


text \<open>A start that is reported has seen the test runner alive and its sub suite in the repository.\<close>

lemma waitStart_started:
  assumes "waitStart alive fetch sdk url n st s = (None, s')" "suite_state_ok st"
  shows "\<exists>s1 s2 st1 st2 e. alive (ex_BuildID (ss_spec st)) s1 = (Inr True, s2)
    \<and> ss_spec st1 = ss_spec st \<and> getSubSuite fetch sdk url st1 s2 = ((Inr e, st2), s')"
  using assms
proof (induction n arbitrary: st s)
  case (Suc n)
  obtain a s1 where a: "alive (ex_BuildID (ss_spec st)) s = (a, s1)" by force
  show ?case
  proof (cases a)
    case (Inl err)
    with Suc a show ?thesis by simp
  next
    case (Inr up)
    then have up: "up = True" using Suc.prems(1) a by (cases up) auto
    obtain r st' s2 where g: "getSubSuite fetch sdk url st s1 = ((r, st'), s2)" by (metis prod.exhaust)
    show ?thesis
    proof (cases r)
      case (Inl err)
      then have "waitStart alive fetch sdk url n st' s2 = (None, s')"
        using Suc.prems(1) a Inr up g by simp
      from Suc.IH [OF this] getSubSuite_state [OF Suc.prems(2) g] show ?thesis by auto
    next
      case ok: (Inr e)
      then have "s' = s2" using Suc.prems(1) a Inr up g by simp
      with a Inr up g ok show ?thesis by blast
    qed
  qed
qed simp

end
