(* ===== verification/Provider_Service.thy ===== *)
theory Provider_Service
  imports Provider_Core Kube_Executor Event_Repository
begin

text \<open>
  \<open>pkg/executionspace/v1alpha\<close>: the HTTP service over a provider and its executor.  A handler
  takes the writer and the state of the world and may panic; \<open>panicRecovery\<close> turns a panic into
  a response.  Spans, logs and the group of running handlers are left out.  The package URL parser
  and the Eiffel types inside a start request are parameters.
\<close>

record 's service =
  sv_uuid :: uuid_lib
  sv_db :: "'s opener"
  sv_ex :: "'s executor"
  sv_fetch :: "'s fetcher"
  sv_sdk :: eiffel_sdk
  sv_goer :: string
  sv_expired :: "'s \<Rightarrow> bool"
  sv_attempts :: "'s \<Rightarrow> nat"

text \<open>
  \<open>sv_expired\<close> tells whether the request's context has ended, and \<open>sv_attempts\<close> how many
  attempts \<open>retry.Constant\<close> has before it does.
\<close>

type_synonym 's handler = "http_writer \<times> 's \<Rightarrow> unit outcome \<times> http_writer \<times> 's"

definition respond :: "(http_writer \<Rightarrow> http_writer) \<Rightarrow> http_writer \<Rightarrow> 's \<Rightarrow> unit outcome \<times> http_writer \<times> 's" where
  "respond f w s = (Returned (), f w, s)"

lemma respond_simps [simp]: "respond f w s = (Returned (), f w, s)"
  by (simp add: respond_def)

definition panicRecovery :: "string \<Rightarrow> 's handler \<Rightarrow> 's handler" where
  "panicRecovery identifier fn rs =
     (case fn rs of
        (Panicked p, w, s) \<Rightarrow>
          (Returned (),
           RespondWithError 500 (''unknown error: contact server admin with id '' @ [CHR 0x27] @ identifier @ [CHR 0x27]) w, s)
      | r \<Rightarrow> r)"

text \<open>The status texts of \<open>net/http\<close> that can be asked for here.\<close>

definition StatusText :: "int \<Rightarrow> string" where
  "StatusText code = (if code = 400 then ''Bad Request'' else [])"

definition sendError :: "http_or_error \<Rightarrow> http_writer \<Rightarrow> http_writer" where
  "sendError err w =
     (case err of
        PlainError e \<Rightarrow> RespondWithError 500 (''unknown error '' @ err_string e) w
      | HTTPError _ msg code \<Rightarrow> RespondWithError code msg w)"

subsection \<open>Start\<close>

record dataset =
  ds_ETRBranch :: string
  ds_ETRRepo :: string
  ds_DEV :: bool

record start_request =
  sr_MinimumAmount :: int
  sr_MaximumAmount :: int
  sr_TestRunner :: string
  sr_Environment :: "string gmap option"
  sr_ArtifactIdentity :: string
  sr_ArtifactID :: string
  sr_Dataset :: dataset
  sr_Context :: uuid

definition zero_start :: start_request where
  "zero_start =
     \<lparr>sr_MinimumAmount = 0, sr_MaximumAmount = 0, sr_TestRunner = [], sr_Environment = None,
      sr_ArtifactIdentity = [], sr_ArtifactID = [],
      sr_Dataset = \<lparr>ds_ETRBranch = [], ds_ETRRepo = [], ds_DEV = False\<rparr>, sr_Context = uuid_Nil\<rparr>"

definition assign_dataset :: "string \<Rightarrow> json \<Rightarrow> dataset \<Rightarrow> gerror + dataset" where
  "assign_dataset k v d =
     (let n = fold_name k in
      if n = ''etr_branch'' then dec_field (\<lambda>v. dec_string v (ds_ETRBranch d)) v (\<lambda>x. d\<lparr>ds_ETRBranch := x\<rparr>)
      else if n = ''etr_repo'' then dec_field (\<lambda>v. dec_string v (ds_ETRRepo d)) v (\<lambda>x. d\<lparr>ds_ETRRepo := x\<rparr>)
      else if n = ''dev'' then dec_field (\<lambda>v. dec_bool v (ds_DEV d)) v (\<lambda>x. d\<lparr>ds_DEV := x\<rparr>)
      else Inr d)"

text \<open>\<open>eiffel n v\<close> decodes the field \<open>n\<close> of an SDK type, whose value is not used.\<close>

definition assign_start ::
  "uuid_lib \<Rightarrow> (string \<Rightarrow> json \<Rightarrow> gerror option) \<Rightarrow> string \<Rightarrow> json \<Rightarrow> start_request \<Rightarrow> gerror + start_request" where
  "assign_start L eiffel k v r =
     (let n = fold_name k in
      if n = ''minimum_amount'' then dec_field (\<lambda>v. dec_int v (sr_MinimumAmount r)) v (\<lambda>x. r\<lparr>sr_MinimumAmount := x\<rparr>)
      else if n = ''maximum_amount'' then dec_field (\<lambda>v. dec_int v (sr_MaximumAmount r)) v (\<lambda>x. r\<lparr>sr_MaximumAmount := x\<rparr>)
      else if n = ''test_runner'' then dec_field (\<lambda>v. dec_string v (sr_TestRunner r)) v (\<lambda>x. r\<lparr>sr_TestRunner := x\<rparr>)
      else if n = ''environment'' then dec_field (\<lambda>v. dec_string_map v (sr_Environment r)) v (\<lambda>x. r\<lparr>sr_Environment := x\<rparr>)
      else if n = ''identity'' then dec_field (\<lambda>v. dec_string v (sr_ArtifactIdentity r)) v (\<lambda>x. r\<lparr>sr_ArtifactIdentity := x\<rparr>)
      else if n = ''artifact_id'' then dec_field (\<lambda>v. dec_string v (sr_ArtifactID r)) v (\<lambda>x. r\<lparr>sr_ArtifactID := x\<rparr>)
      else if n \<in> {''artifact_created'', ''artifact_published'', ''tercc''} then
        (case eiffel n v of Some err \<Rightarrow> Inl err | None \<Rightarrow> Inr r)
      else if n = ''dataset'' then dec_field (\<lambda>v. fill_struct assign_dataset v (sr_Dataset r)) v (\<lambda>x. r\<lparr>sr_Dataset := x\<rparr>)
      else if n = ''context'' then dec_field (\<lambda>v. dec_uuid L v (sr_Context r)) v (\<lambda>x. r\<lparr>sr_Context := x\<rparr>)
      else Inr r)"

definition verifyStartInput ::
  "uuid_lib \<Rightarrow> (string \<Rightarrow> json \<Rightarrow> gerror option) \<Rightarrow> (string \<Rightarrow> gerror option) \<Rightarrow> (gerror + bytes)
   \<Rightarrow> http_or_error + start_request" where
  "verifyStartInput L eiffel purl body =
     (let bad = (\<lambda>err. Inl (NewHTTPError (Text (''unable to decode post body - Reason: '' @ err_string err)) 400))
      in case body of Inl err \<Rightarrow> bad err
       | Inr b \<Rightarrow> (case json_decode b of Inl err \<Rightarrow> bad err
           | Inr doc \<Rightarrow> (case fill_struct (assign_start L eiffel) doc zero_start of Inl err \<Rightarrow> bad err
               | Inr request \<Rightarrow>
                   (case purl (sr_ArtifactIdentity request) of
                      Some err \<Rightarrow> Inl (NewHTTPError err 400)
                    | None \<Rightarrow> Inr request))))"

text \<open>
  \<open>Start\<close> answers with the new checkout's ID and leaves the checkout to a goroutine: the
  configuration it is started with is the first result.
\<close>

definition dataset_env :: "dataset \<Rightarrow> (string \<times> string) list" where
  "dataset_env d =
     (if ds_ETRBranch d \<noteq> [] then [(''ETR_BRANCH'', ds_ETRBranch d)] else [])
     @ (if ds_ETRRepo d \<noteq> [] then [(''ETR_REPOSITORY'', ds_ETRRepo d)] else [])
     @ (if ds_DEV d then [(''DEV'', ''true'')] else [])"

definition Start ::
  "uuid_lib \<Rightarrow> (string \<Rightarrow> json \<Rightarrow> gerror option) \<Rightarrow> (string \<Rightarrow> gerror option) \<Rightarrow> uuid \<Rightarrow> string \<Rightarrow> (gerror + bytes)
   \<Rightarrow> http_writer \<Rightarrow> exec_config option \<times> unit outcome \<times> http_writer" where
  "Start L eiffel purl checkoutId identifier body w =
     (case verifyStartInput L eiffel purl body of
        Inl err \<Rightarrow>
          (None, Returned (),
           sendError (PlainError (Text (''start input could not be verified: '' @ http_error_string StatusText err))) w)
      | Inr r \<Rightarrow>
          (let amount = (if sr_MaximumAmount r = 0 then sr_MinimumAmount r else sr_MaximumAmount r)
           in case set_all (dataset_env (sr_Dataset r)) (sr_Environment r) of
                Panicked p \<Rightarrow> (None, Panicked p, w)
              | Returned env \<Rightarrow>
                  (Some \<lparr>ec_Amount = amount, ec_TestRunner = sr_TestRunner r, ec_CheckoutID = checkoutId,
                     ec_ETOSIdentifier = identifier, ec_Environment = env\<rparr>,
                   Returned (), RespondWithJSON 200 (JObj [(''id'', JStr (u_string L checkoutId))]) w)))"

subsection \<open>Status\<close>

definition provider_Status :: "'s service \<Rightarrow> string \<Rightarrow> 's handler" where
  "provider_Status sv query rs =
     (case u_parse (sv_uuid sv) query of
        (_, Some err) \<Rightarrow>
          respond (sendError (NewHTTPError
            (Text (''Error parsing id parameter in status request - Reason: '' @ err_string err)) 400)) (fst rs) (snd rs)
      | (uid, None) \<Rightarrow>
          (case core_Status (sv_uuid sv) (sv_db sv) uid (snd rs) of
             ((es, Some err), s') \<Rightarrow> respond (RespondWithJSON 500 (enc_space (sv_uuid sv) es)) (fst rs) s'
           | ((es, None), s') \<Rightarrow> respond (RespondWithJSON 200 (enc_space (sv_uuid sv) es)) (fst rs) s'))"

subsection \<open>Stop\<close>

text \<open>Stopping the jobs of the listed executors, gathering the errors.\<close>

fun stop_jobs :: "'s service \<Rightarrow> executor_spec list \<Rightarrow> gerror option \<Rightarrow> 's \<Rightarrow> gerror option \<times> 's" where
  "stop_jobs sv [] err s = (err, s)"
| "stop_jobs sv (spec # specs) err s =
     (case core_Job (sv_uuid sv) (sv_db sv) (ex_ID spec) s of
        (Inl jobInitErr, s1) \<Rightarrow>
          (if errors_is jobInitErr io_EOF then stop_jobs sv specs err s1
           else stop_jobs sv specs (Some (errors_join err jobInitErr)) s1)
      | (Inr uid, s1) \<Rightarrow>
          (if uid = [] then stop_jobs sv specs err s1
           else (case e_Stop (sv_ex sv) uid s1 of
               (Some stopErr, s2) \<Rightarrow> stop_jobs sv specs (Some (errors_join err stopErr)) s2
             | (None, s2) \<Rightarrow> stop_jobs sv specs err s2)))"

text \<open>The last error response encodes an error value, which has no exported fields.\<close>

definition provider_Stop :: "'s service \<Rightarrow> (gerror + bytes) \<Rightarrow> 's handler" where
  "provider_Stop sv body rs =
     (case LoadExecutorSpecs (sv_uuid sv) body of
        Inl err \<Rightarrow>
          respond (sendError (NewHTTPError (Text (''failed to load executor spec: '' @ err_string err
            @ ''. Unable to decode post body: '' @ err_string err)) 400)) (fst rs) (snd rs)
      | Inr executors \<Rightarrow>
          (case stop_jobs sv executors None (snd rs) of
             (Some err, s1) \<Rightarrow> respond (RespondWithJSON 500 (JStr (err_string err))) (fst rs) s1
           | (None, s1) \<Rightarrow>
               (case core_Checkin (sv_db sv) executors s1 of
                  (Some err, s2) \<Rightarrow> respond (RespondWithJSON 500 (JObj [])) (fst rs) s2
                | (None, s2) \<Rightarrow> respond (RespondWithJSON 204 (JStr [])) (fst rs) s2)))"

subsection \<open>Starting an executor\<close>

definition timed :: "'s service \<Rightarrow> 's \<Rightarrow> string \<Rightarrow> int \<Rightarrow> string \<Rightarrow> http_writer \<Rightarrow> http_writer" where
  "timed sv s late code msg w =
     (if sv_expired sv s then RespondWithError 408 late w else RespondWithError code msg w)"

text \<open>From the saved build ID on: save the specification, then wait for the sub suite.\<close>

definition ExecutorStart_save ::
  "'s service \<Rightarrow> executor_spec \<Rightarrow> string \<Rightarrow> http_writer \<Rightarrow> 's \<Rightarrow> unit outcome \<times> http_writer \<times> 's" where
  "ExecutorStart_save sv spec buildID w s =
     (case core_SaveExecutor (sv_uuid sv) (sv_db sv) spec s of
        (Some err, s1) \<Rightarrow>
          (let s2 = snd (e_Stop (sv_ex sv) buildID s1)
           in respond (timed sv s2 ''Timed out when saving the test execution configuration'' 500
                ''Error when saving the test execution configuration'') w s2)
      | (None, s1) \<Rightarrow>
          (case waitStart (e_Alive (sv_ex sv)) (sv_fetch sv) (sv_sdk sv) (sv_goer sv) (sv_attempts sv s1)
                  (new_suite_state spec) s1 of
             (Some err, s2) \<Rightarrow>
               (let s3 = snd (e_Stop (sv_ex sv) buildID s2)
                in respond (timed sv s3
                     (''Timed out when waiting for the test execution job to initialize - Error: '' @ err_string err) 400
                     (''Error when waiting for the test execution job to initialize - Error: '' @ err_string err)) w s3)
           | (None, s2) \<Rightarrow> respond (\<lambda>w. write_body [] (write_header 204 w)) w s2))"

definition ExecutorStart_job ::
  "'s service \<Rightarrow> executor_spec \<Rightarrow> http_writer \<Rightarrow> 's \<Rightarrow> unit outcome \<times> http_writer \<times> 's" where
  "ExecutorStart_job sv spec w s =
     (case e_Start (sv_ex sv) spec s of
        (Inl err, s1) \<Rightarrow>
          respond (timed sv s1 ''Timed out when trying to start the test execution job'' 500
            (''Error trying to start the test execution job: '' @ err_string err)) w s1
      | (Inr uid, s1) \<Rightarrow>
          (case e_Wait (sv_ex sv) uid s1 of
             (Panicked p, s2) \<Rightarrow> (Panicked p, w, s2)
           | (Returned (Inl err), s2) \<Rightarrow>
               (let s3 = snd (e_Cancel (sv_ex sv) uid s2)
                in respond (timed sv s3
                     (''Timed out when waiting for the test execution job to start - Error: '' @ err_string err) 500
                     (''Error when waiting for the test execution job to start - Error: '' @ err_string err)) w s3)
           | (Returned (Inr (buildID, buildURL)), s2) \<Rightarrow>
               ExecutorStart_save sv (spec\<lparr>ex_BuildID := buildID\<rparr>) buildID w s2))"

definition ExecutorStart :: "'s service \<Rightarrow> (gerror + bytes) \<Rightarrow> 's handler" where
  "ExecutorStart sv body rs =
     (let bad = respond (RespondWithError 400 ''could not read ID from post body'') (fst rs) (snd rs);
          msg = ''Timed out when reading the '' @ e_Name (sv_ex sv) @ '' execution space configuration from database''
      in case body of Inl err \<Rightarrow> bad
       | Inr b \<Rightarrow> (case json_decode b of Inl err \<Rightarrow> bad
           | Inr doc \<Rightarrow> (case fill_struct (assign_data (sv_uuid sv)) doc uuid_Nil of Inl err \<Rightarrow> bad
               | Inr uid \<Rightarrow>
                   (case core_ExecutorSpec (sv_uuid sv) (sv_db sv) uid (snd rs) of
                      (Inl err, s1) \<Rightarrow> respond (timed sv s1 msg 400 msg) (fst rs) s1
                    | (Inr spec, s1) \<Rightarrow> ExecutorStart_job sv spec (fst rs) s1))))"

end
