(* ===== verification/Provider_Props.thy ===== *)
theory Provider_Props
  imports Provider_Core
begin

text \<open>
  Properties of the database and of the provider that keeps execution spaces in it, over any
  lawful etcd client and UUID library, with one concrete client and library for the witnesses.
\<close>

subsection \<open>A concrete client and library\<close>

definition ex_uuid :: uuid_lib where
  "ex_uuid =
     \<lparr>u_string = (\<lambda>u. nat_dec (unat u)),
      u_parse = (\<lambda>s. case dec_nat s of None \<Rightarrow> (0, Some (Text ''invalid UUID format'')) | Some n \<Rightarrow> (of_nat n, None))\<rparr>"

definition ex_client :: "(string \<Rightarrow> bytes option) etcd_client" where
  "ex_client =
     \<lparr>cl_put = (\<lambda>k v s. (None, s(k \<mapsto> v))),
      cl_get = (\<lambda>k s. (Inr (case s k of None \<Rightarrow> [] | Some v \<Rightarrow> [v]), s)),
      cl_del = (\<lambda>k s. (None, s(k := None))),
      cl_view = (\<lambda>s. s)\<rparr>"

lemma ex_uuid_lawful: "uuid_lawful ex_uuid"
proof -
  have "dec_nat (nat_dec n) = Some n" for n by (simp add: dec_nat_def dec_acc_nat_dec)
  then show ?thesis by (simp add: uuid_lawful_def ex_uuid_def)
qed

lemma ex_client_lawful: "etcd_lawful ex_client" "etcd_reliable ex_client"
  by (simp_all add: etcd_lawful_def etcd_reliable_def ex_client_def)

subsection \<open>The database\<close>

text \<open>
  Reading an opened key to the end gives the whole stored value and then end of file, however
  the reader chooses its buffers; an absent key gives end of file at once.
\<close>

theorem etcd_reads_whole_value:
  assumes "etcd_lawful c" "uid \<noteq> uuid_Nil" "\<forall>k. 0 < sizes k"
    and "cl_get c (''/'' @ u_string L uid) s = (Inr vs, s')"
    and "length (case cl_view c s (''/'' @ u_string L uid) of None \<Rightarrow> [] | Some v \<Rightarrow> v) < fuel"
  shows "etcd_read_loop L c sizes fuel (etcd_Open (etcd_New treePrefix) uid) s
    = (((case cl_view c s (''/'' @ u_string L uid) of None \<Rightarrow> [] | Some v \<Rightarrow> v), Some io_EOF), s')"
proof -
  have vs: "vs = (case cl_view c s (''/'' @ u_string L uid) of None \<Rightarrow> [] | Some v \<Rightarrow> [v])"
    using etcd_lawfulD(4) [OF assms(1,4)] .
  show ?thesis
  proof (cases "cl_view c s (''/'' @ u_string L uid)")
    case (Some v)
    then show ?thesis
      using etcd_read_whole [OF assms(2,3), of c L "etcd_New treePrefix" s v "[]" s' fuel] vs assms(4,5) by simp
  next
    case None
    obtain f where "fuel = Suc f" using assms(5) by (cases fuel) auto
    then show ?thesis
      using None vs assms(2,4) by (simp add: etcd_Read_def) (simp add: etcd_Open_def)
  qed
qed

lemma etcd_reads_whole_value_witness:
  "etcd_read_loop ex_uuid ex_client (\<lambda>_. 2) 9 (etcd_Open (etcd_New ''/environment'') 7) [''/7'' \<mapsto> ''hello''] = ((''hello'', Some io_EOF), [''/7'' \<mapsto> ''hello''])"
proof -
  have k: "''/'' @ u_string ex_uuid 7 = ''/7''" by code_simp
  show ?thesis
    using etcd_reads_whole_value [OF ex_client_lawful(1), of 7 "\<lambda>_. 2" ex_uuid "[''/7'' \<mapsto> ''hello'']" "[''hello'']"
        "[''/7'' \<mapsto> ''hello'']" 9 "''/environment''"] unfolding k
    by (simp add: ex_client_def)
qed

text \<open>
  \<open>Open\<close> does not copy the tree prefix, so stores made with different prefixes are one store.
\<close>

lemma etcd_prefix_dropped:
  "etcd_opener L c (etcd_New treePrefix) = etcd_opener L c (etcd_New treePrefix')"
proof -
  have "etcd_Open (etcd_New treePrefix) = etcd_Open (etcd_New treePrefix')"
    by (simp add: etcd_Open_def fun_eq_iff)
  show ?thesis unfolding etcd_opener_def etcd_fetch_def \<open>etcd_Open (etcd_New treePrefix) = etcd_Open (etcd_New treePrefix')\<close> by (rule refl)
qed

subsection \<open>Specifications survive storage\<close>



subsection \<open>Checkout\<close>


definition ex_ctx :: provider_ctx where
  "ex_ctx = \<lparr>px_uuid = ex_uuid, px_getenv = (\<lambda>_. []), px_carrier = [], px_url = ''http://h''\<rparr>"

definition ex_cfg :: exec_config where
  "ex_cfg = \<lparr>ec_Amount = 2, ec_TestRunner = ''img'', ec_CheckoutID = 1, ec_ETOSIdentifier = ''t'', ec_Environment = Some []\<rparr>"

definition ex_fresh :: "nat \<Rightarrow> uuid \<times> uuid" where
  "ex_fresh j = (if j = 0 then (2, 4) else (3, 5))"


text \<open>
  C4: Whatever requests to the database fail or time out during a checkout, the execution space
  stored under its ID is never done while an executor it refers to is missing.
\<close>

theorem checkout_done_means_stored:
  assumes "etcd_lawful c" "uuid_lawful (px_uuid px)" "\<forall>j. fst (fresh j) \<noteq> ec_CheckoutID cfg"
    and "core_Checkout px (etcd_opener (px_uuid px) c e0) fresh cfg s = (res, s')"
    and "etcd_contents (px_uuid px) c s (ec_CheckoutID cfg) = None"
    and "etcd_contents (px_uuid px) c s' (ec_CheckoutID cfg) = Some b" "Load (px_uuid px) (Inr b) = Inr es"
    and "es_Status es = status_Done"
    and "r \<in> set (case es_References es of None \<Rightarrow> [] | Some refs \<Rightarrow> refs)"
  shows "\<exists>ex. r = u_string (px_uuid px) (ex_ID ex)
    \<and> etcd_contents (px_uuid px) c s' (ex_ID ex) = Some (executor_bytes (px_uuid px) ex)"
  using etcd_store.checkout_done_stored [OF _ assms(4,3,2,5,6,7,8)] assms(1,2,9)
  by (auto simp: executors_stored_def)

definition ex_done :: execution_space where
  "ex_done = \<lparr>es_ID = 1, es_Executors = None, es_References = Some [''2'', ''3''], es_Status = status_Done,
     es_Description = ''Execution spaces checked out successfully''\<rparr>"

lemma checkout_done_means_stored_witness:
  "\<exists>ex. ''2'' = u_string ex_uuid (ex_ID ex)
    \<and> etcd_contents ex_uuid ex_client
        (snd (core_Checkout ex_ctx (etcd_opener ex_uuid ex_client (etcd_New [])) ex_fresh ex_cfg Map.empty)) (ex_ID ex)
      = Some (executor_bytes ex_uuid ex)"
proof -
  let ?run = "core_Checkout ex_ctx (etcd_opener (px_uuid ex_ctx) ex_client (etcd_New [])) ex_fresh ex_cfg Map.empty"
  have run: "?run = (fst ?run, snd ?run)" by simp
  have c: "etcd_contents (px_uuid ex_ctx) ex_client (snd ?run) (ec_CheckoutID ex_cfg) = Some (space_bytes ex_uuid ex_done)"
    by code_simp
  have e: "etcd_contents (px_uuid ex_ctx) ex_client Map.empty (ec_CheckoutID ex_cfg) = None"
    by (simp add: etcd_contents_def ex_client_def)
  have l: "Load (px_uuid ex_ctx) (Inr (space_bytes ex_uuid ex_done)) = Inr ex_done"
    using load_saved_space [OF ex_uuid_lawful, of ex_done] by (simp add: ex_ctx_def ex_done_def)
  have "uuid_lawful (px_uuid ex_ctx)" "\<forall>j. fst (ex_fresh j) \<noteq> ec_CheckoutID ex_cfg"
    by (simp_all add: ex_ctx_def ex_uuid_lawful ex_fresh_def ex_cfg_def)
  from checkout_done_means_stored [OF ex_client_lawful(1) this run e c l, of "''2''"] show ?thesis
    by (simp add: ex_done_def ex_ctx_def)
qed

subsection \<open>Checkin\<close>

text \<open>
  After a checkin that reported no error, looking up the job of any of its executors is end of
  file, which \<open>Stop\<close> takes as already checked in, or an error of the database; nothing else in
  the database has changed.
\<close>

theorem checked_in_executors_gone:
  assumes "etcd_lawful c" "uuid_lawful L"
    and "core_Checkin (etcd_opener L c e0) exs s = (None, s')" "ex \<in> set exs"
    and "core_Job L (etcd_opener L c e0) (ex_ID ex) s' = (r, s'')"
  shows "(r = Inl io_EOF \<or> (\<exists>e. r = Inl e \<and> \<not> etcd_reliable c))
    \<and> (\<forall>u. u \<notin> ex_ID ` set exs \<longrightarrow> etcd_contents L c s' u = etcd_contents L c s u)"
proof -
  have ok: "etcd_lawful c \<and> uuid_lawful L" using assms(1,2) by simp
  note fr = etcd_store.checkin_frame [OF ok assms(3)]
  let ?db = "etcd_opener L c e0"
  obtain q s1 where q: "db_read ?db (ex_ID ex) s' = (q, s1)" by (cases "db_read ?db (ex_ID ex) s'")
  have r: "r = (case LoadExecutorSpec L q of Inl e \<Rightarrow> Inl e | Inr x \<Rightarrow> Inr (ex_BuildID x))"
    using assms(5) q by (auto simp: core_Job_def core_ExecutorSpec_def split: sum.splits)
  show ?thesis
  proof (cases q)
    case (Inl e)
    have "ex_ID ex \<noteq> uuid_Nil \<Longrightarrow> \<not> etcd_reliable c"
      using etcd_reliable.read_works [of c L "ex_ID ex" e0 s'] q Inl ok by auto
    moreover have "ex_ID ex \<noteq> uuid_Nil"
      using assms(3,4)
    proof (induction exs arbitrary: s)
      case (Cons x xs)
      then show ?case
        by (cases "db_write ?db (ex_ID x) [] s"; cases "fst (db_write ?db (ex_ID x) [] s)")
           (auto simp: executor_Delete_def dest!: etcd_store.write_done [OF ok])
    qed simp
    ultimately show ?thesis using r Inl fr by (simp add: LoadExecutorSpec_def)
  next
    case (Inr b)
    then have "b = []" using etcd_store.read_done [OF ok q [unfolded Inr]] fr assms(4) by simp
    then show ?thesis using r Inr fr by (simp add: LoadExecutorSpec_def json_decode_def ws_def)
  qed
qed

lemma checked_in_executors_gone_witness:
  "fst (core_Job ex_uuid (etcd_opener ex_uuid ex_client (etcd_New [])) 3
     (snd (core_Checkin (etcd_opener ex_uuid ex_client (etcd_New [])) [zero_executor\<lparr>ex_ID := 3\<rparr>] Map.empty))) = Inl io_EOF"
proof -
  let ?db = "etcd_opener ex_uuid ex_client (etcd_New [])" and ?ex = "zero_executor\<lparr>ex_ID := 3\<rparr>"
  obtain s' where s': "core_Checkin ?db [?ex] Map.empty = (None, s')"
    by (simp add: executor_Delete_def etcd_opener_def etcd_Write_def etcd_Open_def ex_client_def)
  obtain r s'' where "core_Job ex_uuid ?db (ex_ID ?ex) s' = (r, s'')" by force
  with checked_in_executors_gone [OF ex_client_lawful(1) ex_uuid_lawful s' _ this] ex_client_lawful(2) s'
  show ?thesis by simp
qed

subsection \<open>Checkouts that crash\<close>

text \<open>
  A checkout runs in a goroutine of its own that nothing recovers.  It panics when the request
  brought no environment, and when the last save fails while recording the failure succeeds.
\<close>

lemma checkout_nil_environment_panics:
  assumes "space_Save (px_uuid px) (space_New (ec_CheckoutID cfg)) (db_write db (ec_CheckoutID cfg)) s = (None, s1)"
    and "0 < ec_Amount cfg" "ec_Environment cfg = None"
  shows "core_Checkout px db fresh cfg s = (Panicked ''assignment to entry in nil map'', s1)"
proof -
  obtain n where "nat (ec_Amount cfg) = Suc n" using assms(2) by (cases "nat (ec_Amount cfg)") auto
  then show ?thesis
    using assms(1,3) by (simp add: core_Checkout_def NewExecutorSpec_def Let_def set_all_nil)
qed

lemma checkout_recorded_failure_panics:
  assumes "space_Save (px_uuid px) (space_New (ec_CheckoutID cfg)) (db_write db (ec_CheckoutID cfg)) s = (None, s1)"
    and "ec_Amount cfg = 0"
    and "space_Save (px_uuid px) ((space_New (ec_CheckoutID cfg))\<lparr>es_Status := status_Done,
            es_Description := ''Execution spaces checked out successfully''\<rparr>) (db_write db (ec_CheckoutID cfg)) s1 = (Some err, s2)"
    and "space_Fail (px_uuid px) ((space_New (ec_CheckoutID cfg))\<lparr>es_Status := status_Done,
            es_Description := ''Execution spaces checked out successfully''\<rparr>) (db_write db (ec_CheckoutID cfg)) err s2 = (None, s3)"
  shows "core_Checkout px db fresh cfg s = (Panicked ''nil pointer dereference'', s3)"
  using assms by (simp add: core_Checkout_def Let_def)

end
