(* ===== verification/Provider_World.thy ===== *)
theory Provider_World
  imports Provider_Service Provider_Props
begin

text \<open>
  The execution space service with its database and its executor together.  The locale
  \<open>provider_world\<close> joins the two contracts on one state, where neither disturbs the other; it
  is interpreted on etcd and Kubernetes side by side.
\<close>

locale provider_world = byte_store db ok contents + job_runner ex runner_ok jobs
  for db :: "'s opener" and ok :: "'s \<Rightarrow> bool" and contents :: "'s \<Rightarrow> uuid \<Rightarrow> bytes option"
    and ex :: "'s executor" and runner_ok :: "'s \<Rightarrow> bool" and jobs :: "'s \<Rightarrow> string set" +
  assumes write_jobs: "db_write db u b s = (rw, s') \<Longrightarrow> runner_ok s' = runner_ok s \<and> jobs s' = jobs s"
    and read_jobs: "db_read db u s = (rr, s') \<Longrightarrow> runner_ok s' = runner_ok s \<and> jobs s' = jobs s"
    and read_not_EOF: "ok s \<Longrightarrow> db_read db u s = (Inl e, s') \<Longrightarrow> \<not> errors_is e io_EOF"
    and start_store: "e_Start ex spec s = (rs, s') \<Longrightarrow> ok s' = ok s \<and> contents s' = contents s"
    and wait_store: "e_Wait ex n s = (rv, s') \<Longrightarrow> ok s' = ok s \<and> contents s' = contents s"
    and cancel_store: "e_Cancel ex n s = (rc, s') \<Longrightarrow> ok s' = ok s \<and> contents s' = contents s"
    and stop_store: "e_Stop ex n s = (rc, s') \<Longrightarrow> ok s' = ok s \<and> contents s' = contents s"
    and alive_store: "e_Alive ex n s = (ra, s') \<Longrightarrow> ok s' = ok s \<and> contents s' = contents s"

subsection \<open>Side by side\<close>

definition fst_opener :: "'d opener \<Rightarrow> ('d \<times> 'k) opener" where
  "fst_opener db =
     \<lparr>db_write = (\<lambda>u b (d, k). case db_write db u b d of (r, d') \<Rightarrow> (r, (d', k))),
      db_read = (\<lambda>u (d, k). case db_read db u d of (r, d') \<Rightarrow> (r, (d', k))),
      db_delete = (\<lambda>u (d, k). case db_delete db u d of (r, d') \<Rightarrow> (r, (d', k)))\<rparr>"

definition snd_executor :: "'k executor \<Rightarrow> ('d \<times> 'k) executor" where
  "snd_executor ex =
     \<lparr>e_Name = e_Name ex,
      e_Start = (\<lambda>spec (d, k). case e_Start ex spec k of (r, k') \<Rightarrow> (r, (d, k'))),
      e_Wait = (\<lambda>n (d, k). case e_Wait ex n k of (r, k') \<Rightarrow> (r, (d, k'))),
      e_Cancel = (\<lambda>n (d, k). case e_Cancel ex n k of (r, k') \<Rightarrow> (r, (d, k'))),
      e_Stop = (\<lambda>n (d, k). case e_Stop ex n k of (r, k') \<Rightarrow> (r, (d, k'))),
      e_Alive = (\<lambda>n (d, k). case e_Alive ex n k of (r, k') \<Rightarrow> (r, (d, k')))\<rparr>"

lemma fst_opener_eqs:
  "db_write (fst_opener db) u b s = (r, s') \<longleftrightarrow> db_write db u b (fst s) = (r, fst s') \<and> snd s' = snd s"
  "db_read (fst_opener db) u s = (r2, s') \<longleftrightarrow> db_read db u (fst s) = (r2, fst s') \<and> snd s' = snd s"
  "db_delete (fst_opener db) u s = (r, s') \<longleftrightarrow> db_delete db u (fst s) = (r, fst s') \<and> snd s' = snd s"
  by (cases s; cases s'; auto simp: fst_opener_def split: prod.split)+

lemma snd_executor_eqs:
  "e_Start (snd_executor ex) spec s = (r1, s') \<longleftrightarrow> e_Start ex spec (snd s) = (r1, snd s') \<and> fst s' = fst s"
  "e_Wait (snd_executor ex) n s = (r2, s') \<longleftrightarrow> e_Wait ex n (snd s) = (r2, snd s') \<and> fst s' = fst s"
  "e_Cancel (snd_executor ex) n s = (r3, s') \<longleftrightarrow> e_Cancel ex n (snd s) = (r3, snd s') \<and> fst s' = fst s"
  "e_Stop (snd_executor ex) n s = (r3, s') \<longleftrightarrow> e_Stop ex n (snd s) = (r3, snd s') \<and> fst s' = fst s"
  "e_Alive (snd_executor ex) n s = (r4, s') \<longleftrightarrow> e_Alive ex n (snd s) = (r4, snd s') \<and> fst s' = fst s"
  by (cases s; cases s'; auto simp: snd_executor_def split: prod.split)+

text \<open>Errors of the etcd client are not end of file.\<close>

definition etcd_no_EOF :: "'s etcd_client \<Rightarrow> bool" where
  "etcd_no_EOF c = (\<forall>k s e s'. cl_get c k s = (Inl e, s') \<longrightarrow> \<not> errors_is e io_EOF)"

lemma etcd_read_not_EOF:
  "etcd_no_EOF c \<Longrightarrow> db_read (etcd_opener L c e0) u s = (Inl e, s') \<Longrightarrow> \<not> errors_is e io_EOF"
  by (auto simp: etcd_opener_def etcd_fetch_eq etcd_no_EOF_def split: if_splits prod.splits sum.splits)

definition world_ok :: "uuid_lib \<Rightarrow> 'd etcd_client \<Rightarrow> bool" where
  "world_ok L c = (etcd_lawful c \<and> uuid_lawful L \<and> etcd_no_EOF c)"

interpretation world: provider_world "fst_opener (etcd_opener L c e0)" "\<lambda>s. world_ok L c"
  "\<lambda>s. etcd_contents L c (fst s)" "snd_executor (kube_executor k secret L)" "\<lambda>s. k8s_lawful k" "\<lambda>s. k_jobs k (snd s)"
  for L c e0 k secret
proof (unfold_locales, goal_cases)
  case (1 s u b s') then show ?case
    using etcd_store.write_done [of c L e0 u b "fst s" "fst s'"] by (simp add: fst_opener_eqs world_ok_def)
next
  case (2 s u b e s') then show ?case
    using etcd_store.write_failed [of c L e0 u b "fst s" e "fst s'"] by (simp add: fst_opener_eqs world_ok_def)
next
  case (3 s u b s') then show ?case
    using etcd_store.read_done [of c L e0 u "fst s" b "fst s'"] by (simp add: fst_opener_eqs world_ok_def)
next
  case (4 s u e s') then show ?case
    using etcd_store.read_failed [of c L e0 u "fst s" e "fst s'"] by (simp add: fst_opener_eqs world_ok_def)
next
  case (5 s u s') then show ?case
    using etcd_store.delete_done [of c L e0 u "fst s" "fst s'"] by (simp add: fst_opener_eqs world_ok_def)
next
  case (6 s u e s') then show ?case
    using etcd_store.delete_failed [of c L e0 u "fst s" e "fst s'"] by (simp add: fst_opener_eqs world_ok_def)
next
  case (7 s spec n s') then show ?case using kube.start_done [of k secret L spec "snd s" n "snd s'"] by (simp add: snd_executor_eqs)
next
  case (8 s spec e s') then show ?case using kube.start_failed [of k secret L spec "snd s" e "snd s'"] by (simp add: snd_executor_eqs)
next
  case (9 s n r s') then show ?case using kube.wait_keeps [of k secret L n "snd s" r "snd s'"] by (simp add: snd_executor_eqs)
next
  case (10 s n b u s') then show ?case using kube.wait_name [of k secret L n "snd s" b u "snd s'"] by (simp add: snd_executor_eqs)
next
  case (11 s n r s') then show ?case using kube.cancel_done [of k secret L n "snd s" r "snd s'"] by (simp add: snd_executor_eqs)
next
  case (12 s n r s') then show ?case using kube.stop_done [of k secret L n "snd s" r "snd s'"] by (simp add: snd_executor_eqs)
next
  case (13 s n r s') then show ?case using kube.alive_keeps [of k secret L n "snd s" r "snd s'"] by (simp add: snd_executor_eqs)
next
  case (16 s u e s') then show ?case
    using etcd_read_not_EOF [of c L e0 u "fst s" e "fst s'"] by (simp add: fst_opener_eqs world_ok_def)
qed (simp_all add: fst_opener_eqs snd_executor_eqs)

subsection \<open>Stopping\<close>

lemma stop_jobs_error: "stop_jobs sv specs (Some e) s = (r, s') \<Longrightarrow> r \<noteq> None"
proof (induction specs arbitrary: e s)
  case (Cons spec specs)
  then show ?case by (auto split: prod.splits sum.splits option.splits if_splits)
qed auto

definition stored_job :: "uuid_lib \<Rightarrow> (uuid \<Rightarrow> bytes option) \<Rightarrow> uuid \<Rightarrow> string option" where
  "stored_job L con u =
     (case con u of None \<Rightarrow> None
      | Some b \<Rightarrow> (case LoadExecutorSpec L (Inr b) of Inl _ \<Rightarrow> None
          | Inr spec \<Rightarrow> if ex_BuildID spec = [] then None else Some (ex_BuildID spec)))"

context provider_world
begin

lemma Job_keeps:
  assumes "ok s" "core_Job L db u s = (r, s')"
  shows "ok s' \<and> contents s' = contents s \<and> runner_ok s' = runner_ok s \<and> jobs s' = jobs s"
proof -
  obtain q where "db_read db u s = (q, s')"
    using assms(2) by (auto simp: core_Job_def core_ExecutorSpec_def split: prod.splits sum.splits)
  from read_keeps [OF assms(1) this] read_jobs [OF this] show ?thesis by blast
qed

lemma Job_stored:
  assumes "ok s" "core_Job L db u s = (r, s')" "stored_job L (contents s) u = Some n"
  shows "(r = Inr n \<and> n \<noteq> []) \<or> (\<exists>e. r = Inl e \<and> \<not> errors_is e io_EOF)"
proof -
  obtain q where q: "db_read db u s = (q, s')"
    and r: "r = (case LoadExecutorSpec L q of Inl e \<Rightarrow> Inl e | Inr x \<Rightarrow> Inr (ex_BuildID x))"
    using assms(2) by (auto simp: core_Job_def core_ExecutorSpec_def split: prod.splits sum.splits)
  show ?thesis
  proof (cases q)
    case (Inl e)
    then show ?thesis using read_not_EOF [OF assms(1) q [unfolded Inl]] r by (simp add: LoadExecutorSpec_def)
  next
    case (Inr b)
    then show ?thesis using read_done [OF assms(1) q [unfolded Inr]] r assms(3)
      by (auto simp: stored_job_def split: option.splits sum.splits if_splits)
  qed
qed

lemma stop_jobs_done:
  assumes "ok s" "runner_ok s" "stop_jobs sv specs err s = (r, s')" "sv_db sv = db" "sv_ex sv = ex"
  shows "ok s' \<and> runner_ok s' \<and> contents s' = contents s \<and> jobs s' \<subseteq> jobs s
    \<and> (r = None \<longrightarrow> (\<forall>spec \<in> set specs. \<forall>n. stored_job (sv_uuid sv) (contents s) (ex_ID spec) = Some n \<longrightarrow> n \<notin> jobs s'))"
  using assms(1-3)
proof (induction specs arbitrary: err s)
  case (Cons spec specs)
  obtain j s1 where j: "core_Job (sv_uuid sv) db (ex_ID spec) s = (j, s1)" by force
  note k1 = Job_keeps [OF Cons.prems(1) j]
  have ok1: "ok s1" "runner_ok s1" using k1 Cons.prems(2) by simp_all
  have eq: "stop_jobs sv (spec # specs) err s = (case j of
      Inl e \<Rightarrow> stop_jobs sv specs (if errors_is e io_EOF then err else Some (errors_join err e)) s1
    | Inr u \<Rightarrow> if u = [] then stop_jobs sv specs err s1
        else (case e_Stop ex u s1 of (Some e, s2) \<Rightarrow> stop_jobs sv specs (Some (errors_join err e)) s2
              | (None, s2) \<Rightarrow> stop_jobs sv specs err s2))"
    using j assms(4,5) by (simp split: sum.split)
  show ?case
  proof (cases "\<exists>u. j = Inr u \<and> u \<noteq> []")
    case True
    then obtain u where u: "j = Inr u" "u \<noteq> []" by blast
    obtain p s2 where st: "e_Stop ex u s1 = (p, s2)" by force
    note k2 = stop_done [OF ok1(2) st] and k3 = stop_store [OF st]
    have ok2: "ok s2" "runner_ok s2" using k2 k3 ok1 by simp_all
    obtain err' where rec: "stop_jobs sv specs err' s2 = (r, s')" and e': "p \<noteq> None \<longrightarrow> err' \<noteq> None"
      using Cons.prems(3) unfolding eq using u st by (cases p) auto
    note ih = Cons.IH [OF ok2 rec]
    have "n \<notin> jobs s'" if "r = None" "stored_job (sv_uuid sv) (contents s) (ex_ID spec) = Some n" for n
    proof -
      have "u = n" using Job_stored [OF Cons.prems(1) j that(2)] u by auto
      moreover have "p = None" using stop_jobs_error rec e' that(1) by (metis not_None_eq)
      ultimately show ?thesis using k2 ih by blast
    qed
    then show ?thesis using ih k1 k2 k3 by auto
  next
    case False
    then obtain err' where rec: "stop_jobs sv specs err' s1 = (r, s')"
      and e': "\<forall>e. j = Inl e \<longrightarrow> \<not> errors_is e io_EOF \<longrightarrow> err' \<noteq> None"
      using Cons.prems(3) unfolding eq by (cases j) auto
    note ih = Cons.IH [OF ok1 rec]
    have "stored_job (sv_uuid sv) (contents s) (ex_ID spec) \<noteq> Some n" if "r = None" for n
      using Job_stored [OF Cons.prems(1) j, of n] False stop_jobs_error rec e' that by (metis not_None_eq)
    then show ?thesis using ih k1 by auto
  qed
qed simp

lemma checkin_jobs: "core_Checkin db specs s = (r, s') \<Longrightarrow> jobs s' = jobs s \<and> runner_ok s' = runner_ok s"
proof (induction specs arbitrary: s)
  case (Cons spec specs)
  obtain p s1 where p: "db_write db (ex_ID spec) [] s = (p, s1)" by force
  then show ?case
    using Cons write_jobs [OF p] by (cases p) (auto simp: executor_Delete_def)
qed simp

text \<open>A stop that is answered with no content has stopped the jobs and removed the executors.\<close>

lemma stop_no_content:
  assumes "ok s" "runner_ok s" "sv_db sv = db" "sv_ex sv = ex" "w_status w = None"
    and "provider_Stop sv body (w, s) = (res, w', s')" "w_status w' = Some 204"
  shows "\<exists>specs. LoadExecutorSpecs (sv_uuid sv) body = Inr specs \<and> jobs s' \<subseteq> jobs s
    \<and> (\<forall>spec \<in> set specs. contents s' (ex_ID spec) = Some []
        \<and> (\<forall>n. stored_job (sv_uuid sv) (contents s) (ex_ID spec) = Some n \<longrightarrow> n \<notin> jobs s'))
    \<and> (\<forall>u. u \<notin> ex_ID ` set specs \<longrightarrow> contents s' u = contents s u)"
proof -
  obtain specs where specs: "LoadExecutorSpecs (sv_uuid sv) body = Inr specs"
    using assms(5-7) by (auto simp: provider_Stop_def sendError_def NewHTTPError_def split: sum.splits)
  obtain e s1 where st: "stop_jobs sv specs None s = (e, s1)" by force
  have "e = None" using assms(5-7) specs st by (cases e) (auto simp: provider_Stop_def)
  note a = stop_jobs_done [OF assms(1,2) st assms(3,4), unfolded this, simplified]
  obtain f s2 where ci: "core_Checkin db specs s1 = (f, s2)" by force
  have "f = None" "s' = s2"
    using assms(3,5-7) specs st \<open>e = None\<close> ci by (cases f; auto simp: provider_Stop_def)+
  then show ?thesis
    using a specs checkin_frame [of s1 specs f s2] ci checkin_jobs [OF ci] by auto
qed

end

subsection \<open>Starting an executor\<close>

text \<open>Queries to the event repository do not change the world.\<close>

definition pure_fetch :: "'s fetcher \<Rightarrow> bool" where
  "pure_fetch fetch = (\<forall>url q s. snd (fetch url q s) = s)"

lemma getEvents_pure: "pure_fetch fetch \<Longrightarrow> getEvents fetch url q s = (r, s') \<Longrightarrow> s' = s"
  unfolding pure_fetch_def getEvents_def
  by (cases "fetch url q s") (auto split: sum.splits dest!: spec [of _ url] spec [of _ q] spec [of _ s])

lemma getSubSuite_pure:
  assumes "pure_fetch fetch" "getSubSuite fetch sdk url st s = (r, s')"
  shows "s' = s"
proof -
  note g = getEvents_pure [OF assms(1)]
  have env: "EnvironmentDefined fetch sdk url u s = (x, s1) \<Longrightarrow> s1 = s" for u x s1 s
    by (auto simp: EnvironmentDefined_def split: prod.splits dest: g)
  have act: "ActivityTriggered fetch sdk url u s = (x, s1) \<Longrightarrow> s1 = s" for u x s1 s
    by (auto simp: ActivityTriggered_def split: prod.splits dest: g)
  have main: "MainSuiteStarted fetch sdk url u s = (x, s1) \<Longrightarrow> s1 = s" for u x s1 s
    by (auto simp: MainSuiteStarted_def Let_def split: prod.splits sum.splits dest: g act)
  have suite: "TestSuiteStarted fetch sdk url u n s = (x, s1) \<Longrightarrow> s1 = s" for u n x s1 s
    by (auto simp: TestSuiteStarted_def split: prod.splits dest: g)
  have fe: "fetch_environment fetch sdk url st s = (x, s1) \<Longrightarrow> s1 = s" for st x s1 s
    by (auto simp: fetch_environment_def split: if_splits prod.splits sum.splits dest: env)
  have fm: "fetch_mainSuite fetch sdk url st s = (x, s1) \<Longrightarrow> s1 = s" for st x s1 s
    by (auto simp: fetch_mainSuite_def split: option.splits prod.splits sum.splits dest: main)
  show ?thesis using assms(2)
    by (auto simp: getSubSuite_def split: prod.splits option.splits dest: fe fm suite)
qed

lemma timed_status [simp]:
  "w_status w = None \<Longrightarrow> w_status (timed sv s late code msg w) = Some (if sv_expired sv s then 408 else code)"
  by (simp add: timed_def)

context provider_world
begin

lemma waitStart_keeps:
  assumes "pure_fetch fetch" "runner_ok s" "waitStart (e_Alive ex) fetch sdk url n st s = (r, s')"
  shows "ok s' = ok s \<and> runner_ok s' \<and> contents s' = contents s \<and> jobs s' = jobs s"
  using assms(2,3)
proof (induction n arbitrary: st s)
  case (Suc n)
  obtain a s1 where a: "e_Alive ex (ex_BuildID (ss_spec st)) s = (a, s1)" by force
  note k = alive_keeps [OF Suc.prems(1) a] alive_store [OF a]
  obtain q st' s2 where g: "getSubSuite fetch sdk url st s1 = ((q, st'), s2)" by (metis prod.exhaust)
  have s2: "s2 = s1" using getSubSuite_pure [OF assms(1) g] .
  consider (stop) "s' = s1" | (go) st'' where "waitStart (e_Alive ex) fetch sdk url n st'' s1 = (r, s')"
    using Suc.prems(2) a g s2 by (cases a; cases q) (auto split: bool.splits)
  then show ?case
  proof cases
    case stop
    then show ?thesis using k by simp
  next
    case go
    from Suc.IH [OF _ go] k show ?thesis by simp
  qed
qed simp

lemma ExecutorStart_save_result:
  assumes "ok s" "runner_ok s" "w_status w = None" "sv_db sv = db" "sv_ex sv = ex" "pure_fetch (sv_fetch sv)"
    and "\<forall>s r s'. runner_ok s \<longrightarrow> e_Stop ex n s = (r, s') \<longrightarrow> n \<notin> jobs s'"
    and "ex_BuildID spec = n" "jobs s = insert n J"
    and "ExecutorStart_save sv spec n w s = (res, w', s')"
  shows "res = Returned () \<and> ok s' \<and> runner_ok s'
    \<and> (if w_status w' = Some 204 then contents s' (ex_ID spec) = Some (executor_bytes (sv_uuid sv) spec) \<and> n \<in> jobs s'
       else w_status w' \<in> {Some 400, Some 408, Some 500} \<and> jobs s' \<subseteq> J)"
proof -
  let ?L = "sv_uuid sv"
  obtain p s1 where p: "db_write db (ex_ID spec) (executor_bytes ?L spec) s = (p, s1)" by force
  note kj = write_jobs [OF p] and kf = write_frame [OF assms(1) p]
  have stop: "\<exists>r s3. e_Stop ex n s2 = (r, s3) \<and> ok s3 \<and> runner_ok s3 \<and> jobs s3 \<subseteq> J"
    if "ok s2" "runner_ok s2" "jobs s2 = insert n J" for s2
  proof -
    obtain r s3 where s3: "e_Stop ex n s2 = (r, s3)" by force
    then have "n \<notin> jobs s3" using assms(7) that(2) by blast
    then show ?thesis using stop_done [OF that(2) s3] stop_store [OF s3] that s3 by auto
  qed
  show ?thesis
  proof (cases p)
    case (Some e)
    obtain r s3 where "e_Stop ex n s1 = (r, s3)" "ok s3" "runner_ok s3" "jobs s3 \<subseteq> J"
      using stop [of s1] kj kf assms(2,9) by auto
    moreover have "core_SaveExecutor ?L db spec s = (Some (errors_join (Some (Text ''failed to write executor to database'')) e), s1)"
      using p Some by (simp add: core_SaveExecutor_def executor_Save_def)
    ultimately show ?thesis
      using assms(3,4,5,10) by (auto simp: ExecutorStart_save_def split: if_splits)
  next
    case None
    have sv: "core_SaveExecutor ?L db spec s = (None, s1)"
      using p None by (simp add: core_SaveExecutor_def executor_Save_def)
    note d = write_done [OF assms(1) p [unfolded None]]
    obtain q s2 where q: "waitStart (e_Alive ex) (sv_fetch sv) (sv_sdk sv) (sv_goer sv) (sv_attempts sv s1)
        (new_suite_state spec) s1 = (q, s2)" by force
    have ks: "ok s2" "runner_ok s2" "contents s2 = contents s1" "jobs s2 = insert n J"
      using waitStart_keeps [OF assms(6) _ q] kj d assms(2,9) by simp_all
    show ?thesis
    proof (cases q)
      case None
      then show ?thesis
        using assms(3,4,5,10) sv q ks d by (auto simp: ExecutorStart_save_def split: if_splits)
    next
      case (Some e)
      obtain r s3 where "e_Stop ex n s2 = (r, s3)" "ok s3" "runner_ok s3" "jobs s3 \<subseteq> J"
        using stop [OF ks(1,2,4)] by blast
      then show ?thesis
        using assms(3,4,5,10) sv q Some by (auto simp: ExecutorStart_save_def split: if_splits)
    qed
  qed
qed

lemma ExecutorStart_result:
  assumes "ok s" "runner_ok s" "w_status w = None" "sv_db sv = db" "sv_ex sv = ex" "pure_fetch (sv_fetch sv)"
    and "\<forall>n s r s'. runner_ok s \<longrightarrow> e_Stop ex n s = (r, s') \<or> e_Cancel ex n s = (r, s') \<longrightarrow> n \<notin> jobs s'"
    and "\<forall>spec s e s'. e_Start ex spec s = (Inl e, s') \<longrightarrow> jobs s' = jobs s"
    and "ExecutorStart sv body (w, s) = (Returned (), w', s')"
  shows "if w_status w' = Some 204
    then \<exists>spec. contents s' (ex_ID spec) = Some (executor_bytes (sv_uuid sv) spec) \<and> ex_BuildID spec \<in> jobs s'
    else w_status w' \<in> {Some 400, Some 408, Some 500} \<and> jobs s' \<subseteq> jobs s"
proof (cases "\<exists>b doc uid. body = Inr b \<and> json_decode b = Inr doc
    \<and> fill_struct (assign_data (sv_uuid sv)) doc uuid_Nil = Inr uid")
  case False
  then have "w' = RespondWithError 400 ''could not read ID from post body'' w" "s' = s"
    using assms(9) by (auto simp: ExecutorStart_def Let_def split: sum.splits)
  then show ?thesis using assms(3) by simp
next
  case True
  then obtain b doc uid where b: "body = Inr b" "json_decode b = Inr doc"
    "fill_struct (assign_data (sv_uuid sv)) doc uuid_Nil = Inr uid" by blast
  let ?msg = "''Timed out when reading the '' @ e_Name ex @ '' execution space configuration from database''"
  obtain q s1 where q: "db_read db uid s = (q, s1)" by force
  have k1: "ok s1" "runner_ok s1" "jobs s1 = jobs s"
    using read_keeps [OF assms(1) q] read_jobs [OF q] assms(2) by simp_all
  have run: "(case LoadExecutorSpec (sv_uuid sv) q of
      Inl err \<Rightarrow> respond (timed sv s1 ?msg 400 ?msg) w s1
    | Inr spec \<Rightarrow> ExecutorStart_job sv spec w s1) = (Returned (), w', s')"
    using assms(9) unfolding ExecutorStart_def Let_def core_ExecutorSpec_def
    by (simp only: b q assms(4,5) fst_conv snd_conv sum.case prod.case)
  show ?thesis
  proof (cases "LoadExecutorSpec (sv_uuid sv) q")
    case (Inl err)
    have "respond (timed sv s1 ?msg 400 ?msg) w s1 = (Returned (), w', s')"
      using run unfolding Inl by (simp only: sum.case)
    then have "timed sv s1 ?msg 400 ?msg w = w'" "s1 = s'" unfolding respond_def by (auto simp only: prod.inject)
    then have "w_status w' = Some (if sv_expired sv s1 then 408 else 400)" "s' = s1"
      using timed_status [OF assms(3), of sv s1 ?msg 400 ?msg] by simp_all
    then show ?thesis using k1 by auto
  next
    case spec: (Inr spec)
    obtain p s2 where p: "e_Start ex spec s1 = (p, s2)" by force
    show ?thesis
    proof (cases p)
      case (Inl err)
      then have "jobs s2 = jobs s1" using assms(8) p by blast
      then show ?thesis
        using run spec p Inl assms(3,5) k1
        by (auto simp: ExecutorStart_job_def split: if_splits)
    next
      case n: (Inr n)
      note st = start_done [OF k1(2) p [unfolded n]] start_store [OF p]
      obtain v s3 where v: "e_Wait ex n s2 = (v, s3)" by force
      have k3: "ok s3" "runner_ok s3" "jobs s3 = insert n (jobs s)"
        using wait_keeps [OF _ v] wait_store [OF v] st k1 by simp_all
      show ?thesis
      proof (cases v)
        case (Panicked e)
        then show ?thesis using run spec p n v assms(5) by (simp add: ExecutorStart_job_def)
      next
        case ret: (Returned vr)
        show ?thesis
        proof (cases vr)
          case (Inl err)
          obtain r s4 where s4: "e_Cancel ex n s3 = (r, s4)" by force
          then have "n \<notin> jobs s4" using assms(7) k3(2) by blast
          then have "jobs s4 \<subseteq> jobs s" using cancel_done [OF k3(2) s4] k3(3) by auto
          then show ?thesis
            using run spec p n v ret Inl s4 assms(3,5)
            by (auto simp: ExecutorStart_job_def split: if_splits)
        next
          case (Inr bu)
          obtain bid url where bu: "bu = (bid, url)" by force
          have "bid = n" using wait_name [of s2 n bid url s3] st v ret Inr bu by simp
          then have sv: "ExecutorStart_save sv (spec\<lparr>ex_BuildID := n\<rparr>) n w s3 = (Returned (), w', s')"
            using run spec p n v ret Inr bu assms(5) by (simp add: ExecutorStart_job_def)
          have "\<forall>s r s'. runner_ok s \<longrightarrow> e_Stop ex n s = (r, s') \<longrightarrow> n \<notin> jobs s'" using assms(7) by blast
          from ExecutorStart_save_result [OF k3(1,2) assms(3-6) this _ k3(3) sv]
          show ?thesis
            by (auto split: if_splits intro!: exI [of _ "spec\<lparr>ex_BuildID := n\<rparr>"])
        qed
      qed
    qed
  qed
qed

end

end
