(* ===== verification/Service_Props.thy ===== *)
theory Service_Props
  imports Provider_World
begin

text \<open>
  Properties of the execution space service over etcd and Kubernetes, from the request a handler
  reads to the response it writes, and of the checkouts it leaves running.
\<close>

subsection \<open>A concrete service\<close>

definition ex_pod :: pod where "ex_pod = \<lparr>pod_conditions = [(''Ready'', ''True'')]\<rparr>"

definition ex_k8s :: "(string set) k8s" where
  "ex_k8s =
     \<lparr>k_create = (\<lambda>j s. (Inr (job_name j), insert (job_name j) s)),
      k_delete = (\<lambda>n s. (if n \<in> s then None else Some (Text ''not found''), s - {n})),
      k_get = (\<lambda>n s. (if n \<in> s then Inr n else Inl (Text ''not found''), s)),
      k_pods = (\<lambda>l s. (Inr [ex_pod], s)),
      k_watch = (\<lambda>l s. (Inr [WPod ''MODIFIED'' ex_pod, WPod ''DELETED'' ex_pod], s)),
      k_notFound = (\<lambda>e. e = Text ''not found''),
      k_probableEOF = (\<lambda>e. False),
      k_jobs = (\<lambda>s. s)\<rparr>"

lemma ex_k8s_lawful: "k8s_lawful ex_k8s"
  by (auto simp: k8s_lawful_def ex_k8s_def)

definition ex_sdk :: eiffel_sdk where
  "ex_sdk =
     (let dec = (\<lambda>v. Inr \<lparr>ee_id = ''e1'', ee_name = ''env'', ee_first = (\<lambda>_. ''c1'')\<rparr>)
      in \<lparr>sdk_environment = dec, sdk_suite = dec, sdk_activity = dec\<rparr>)"

definition ex_items :: bytes where "ex_items = json_enc (JObj [(''items'', JArr [JObj []])])"

type_synonym ex_world = "(string \<Rightarrow> bytes option) \<times> string set"

definition ex_service :: "ex_world service" where
  "ex_service =
     \<lparr>sv_uuid = ex_uuid, sv_db = fst_opener (etcd_opener ex_uuid ex_client (etcd_New [])),
      sv_ex = snd_executor (kube_executor ex_k8s ''secret'' ex_uuid),
      sv_fetch = (\<lambda>url q s. (Inr (200, Inr ex_items), s)), sv_sdk = ex_sdk, sv_goer = ''http://goer'',
      sv_expired = (\<lambda>s. False), sv_attempts = (\<lambda>s. 3)\<rparr>"

lemma ex_world_ok: "world_ok ex_uuid ex_client"
  by (simp add: world_ok_def ex_client_lawful ex_uuid_lawful etcd_no_EOF_def) (simp add: ex_client_def)

subsection \<open>Stopping executors\<close>

text \<open>
  C19: When a stop request is answered with no content, every executor it named that had a job
  has no job left and reads as empty, no job was started, and no other key has changed.
\<close>

theorem stop_removes_executors:
  assumes "world_ok (sv_uuid sv) c" "k8s_lawful k"
    and "sv_db sv = fst_opener (etcd_opener (sv_uuid sv) c e0)"
    and "sv_ex sv = snd_executor (kube_executor k secret (sv_uuid sv))"
    and "w_status w = None"
    and "provider_Stop sv body (w, (d, t)) = (res, w', (d', t'))" "w_status w' = Some 204"
  shows "\<exists>specs. LoadExecutorSpecs (sv_uuid sv) body = Inr specs \<and> k_jobs k t' \<subseteq> k_jobs k t
    \<and> (\<forall>spec \<in> set specs. etcd_contents (sv_uuid sv) c d' (ex_ID spec) = Some []
        \<and> (\<forall>n. stored_job (sv_uuid sv) (etcd_contents (sv_uuid sv) c d) (ex_ID spec) = Some n \<longrightarrow> n \<notin> k_jobs k t'))
    \<and> (\<forall>u. u \<notin> ex_ID ` set specs \<longrightarrow> etcd_contents (sv_uuid sv) c d' u = etcd_contents (sv_uuid sv) c d u)"
  using world.stop_no_content [OF assms(1,2) assms(3-7)] by simp

definition ex_running :: executor_spec where
  "ex_running = zero_executor\<lparr>ex_ID := 3, ex_BuildID := ''etr-3''\<rparr>"

definition ex_stop_body :: bytes where
  "ex_stop_body = json_enc (JArr [enc_executor ex_uuid ex_running])"

definition ex_before_stop :: ex_world where
  "ex_before_stop = ([''/3'' \<mapsto> executor_bytes ex_uuid ex_running], {''etr-3''})"

lemma stop_removes_executors_witness:
  "(case provider_Stop ex_service (Inr ex_stop_body) (new_writer, ex_before_stop) of
      (_, w', (d', t')) \<Rightarrow> w_status w' = Some 204 \<and> etcd_contents ex_uuid ex_client d' 3 = Some [] \<and> ''etr-3'' \<notin> t')"
proof -
  obtain d t where b: "ex_before_stop = (d, t)" by force
  obtain res w' d' t' where r: "provider_Stop ex_service (Inr ex_stop_body) (new_writer, (d, t)) = (res, w', (d', t'))"
    by (metis prod.exhaust)
  have st: "w_status (fst (snd (provider_Stop ex_service (Inr ex_stop_body) (new_writer, ex_before_stop)))) = Some 204"
    by code_simp
  then have w: "w_status w' = Some 204" using r b by simp
  have sv: "sv_uuid ex_service = ex_uuid" "sv_db ex_service = fst_opener (etcd_opener ex_uuid ex_client (etcd_New []))"
    "sv_ex ex_service = snd_executor (kube_executor ex_k8s ''secret'' ex_uuid)"
    by (simp_all add: ex_service_def)
  have ld: "LoadExecutorSpecs ex_uuid (Inr ex_stop_body) = Inr [ex_running]" by code_simp
  have "stored_job ex_uuid (etcd_contents ex_uuid ex_client (fst ex_before_stop)) 3 = Some ''etr-3''" by code_simp
  then have j: "stored_job ex_uuid (etcd_contents ex_uuid ex_client d) 3 = Some ''etr-3''" unfolding b fst_conv .
  have "w_status new_writer = None" by (simp add: new_writer_def)
  from stop_removes_executors [of ex_service, unfolded sv, OF ex_world_ok ex_k8s_lawful refl refl this r w]
  have "etcd_contents ex_uuid ex_client d' 3 = Some [] \<and> ''etr-3'' \<notin> t'"
    using j by (simp add: ld ex_running_def) (simp add: ex_k8s_def)
  with r b w show ?thesis by simp
qed

subsection \<open>Starting executors\<close>

text \<open>
  Kubernetes requests that do not fail half way: a delete fails only for a job that is gone, and a
  create that fails has created nothing.
\<close>

definition k8s_healthy :: "'s k8s \<Rightarrow> bool" where
  "k8s_healthy k =
     ((\<forall>n s e s'. k_delete k n s = (Some e, s') \<longrightarrow> k_notFound k e)
      \<and> (\<forall>j s e s'. k_create k j s = (Inl e, s') \<longrightarrow> k_jobs k s' = k_jobs k s))"

lemma kube_Stop_healthy:
  assumes "k8s_lawful k" "k8s_healthy k" "kube_Stop k n s = (r, s')"
  shows "n \<notin> k_jobs k s'"
proof -
  obtain d s1 where d: "k_delete k n s = (d, s1)" by force
  have gone: "n \<notin> k_jobs k s1"
  proof (cases d)
    case None
    then show ?thesis using k8s_lawfulD(3) [OF assms(1) d [unfolded None]] by simp
  next
    case (Some e)
    then have "k_notFound k e" using assms(2) d by (auto simp: k8s_healthy_def)
    then show ?thesis using k8s_lawfulD(4) [OF assms(1) d [unfolded Some]] by simp
  qed
  show ?thesis
  proof (cases d)
    case None
    obtain w s2 where w: "k_watch k (''job-name='' @ n) s1 = (w, s2)" by force
    then have "s' = s2" using assms(3) d None by (auto simp: kube_Stop_def split: sum.splits)
    then show ?thesis using k8s_lawfulD(7) [OF assms(1) w] gone by simp
  next
    case (Some e)
    then show ?thesis using gone assms(3) d by (simp add: kube_Stop_def)
  qed
qed



text \<open>
  C39: When the watch on a new job's pods closes, \<open>Wait\<close> panics: the client is told of an
  unknown error, and the job that was created for it is left running and is not recorded anywhere.
\<close>

theorem closed_watch_leaks_job:
  assumes "k8s_lawful k" "sv_db sv = fst_opener db" "sv_ex sv = snd_executor (kube_executor k secret (sv_uuid sv))"
    and "body = Inr b" "json_decode b = Inr doc" "fill_struct (assign_data (sv_uuid sv)) doc uuid_Nil = Inr uid"
    and "core_ExecutorSpec (sv_uuid sv) db uid d = (Inr spec, d1)"
    and "k_create k (executor_job secret (sv_uuid sv) spec) t = (Inr n, t1)"
    and "k_watch k (''job-name='' @ n) t1 = (Inr (WClosed # evs), t2)"
    and "w_status w = None"
  shows "\<exists>w'. panicRecovery identifier (ExecutorStart sv body) (w, (d, t)) = (Returned (), w', (d1, t2))
    \<and> w_status w' = Some 500 \<and> n \<in> k_jobs k t2"
proof -
  have read: "core_ExecutorSpec (sv_uuid sv) (sv_db sv) uid (d, t) = (Inr spec, (d1, t))"
    using assms(2,7) by (auto simp: core_ExecutorSpec_def fst_opener_def split: prod.splits)
  have start: "e_Start (sv_ex sv) spec (d1, t) = (Inr n, (d1, t1))"
    using assms(8) by (simp add: assms(3) snd_executor_eqs kube_executor_def kube_Start_def)
  obtain p where wait: "e_Wait (sv_ex sv) n (d1, t1) = (Panicked p, (d1, t2))"
    using kube_Wait_closed_panics [OF assms(9)] by (auto simp: assms(3) snd_executor_eqs kube_executor_def)
  have "ExecutorStart sv body (w, (d, t)) = (Panicked p, w, (d1, t2))"
    by (simp add: ExecutorStart_def assms(4-6) read ExecutorStart_job_def start wait)
  then have "panicRecovery identifier (ExecutorStart sv body) (w, (d, t))
      = (Returned (), RespondWithError 500 (''unknown error: contact server admin with id '' @ [CHR 0x27] @ identifier @ [CHR 0x27]) w, (d1, t2))"
    by (simp add: panicRecovery_def)
  moreover have "n \<in> k_jobs k t2"
    using k8s_lawfulD(1) [OF assms(1) assms(8)] k8s_lawfulD(7) [OF assms(1) assms(9)] by simp
  ultimately show ?thesis using assms(10) by simp
qed

definition ex_closing :: "(string set) k8s" where
  "ex_closing = ex_k8s\<lparr>k_watch := (\<lambda>l s. (Inr [WClosed], s))\<rparr>"

definition ex_closing_service :: "ex_world service" where
  "ex_closing_service = ex_service\<lparr>sv_ex := snd_executor (kube_executor ex_closing ''secret'' ex_uuid)\<rparr>"

lemma closed_watch_leaks_job_witness:
  "(case panicRecovery ''t'' (ExecutorStart ex_closing_service (Inr ''{\"id\": \"3\"}''))
          (new_writer, ([''/3'' \<mapsto> executor_bytes ex_uuid (zero_executor\<lparr>ex_ID := 3\<rparr>)], {})) of
      (r, w', (d', t')) \<Rightarrow> w_status w' = Some 500 \<and> ''etr-3'' \<in> t')"
proof -
  let ?d = "[''/3'' \<mapsto> executor_bytes ex_uuid (zero_executor\<lparr>ex_ID := 3\<rparr>)]"
  let ?db = "etcd_opener ex_uuid ex_client (etcd_New [])"
  have law: "k8s_lawful ex_closing" by (auto simp: k8s_lawful_def ex_k8s_def ex_closing_def)
  have sv: "sv_uuid ex_closing_service = ex_uuid" "sv_db ex_closing_service = fst_opener ?db"
    "sv_ex ex_closing_service = snd_executor (kube_executor ex_closing ''secret'' ex_uuid)"
    by (simp_all add: ex_service_def ex_closing_service_def)
  have j: "json_decode ''{\"id\": \"3\"}'' = Inr (JObj [(''id'', JStr ''3'')])" by code_simp
  have f: "fill_struct (assign_data ex_uuid) (JObj [(''id'', JStr ''3'')]) uuid_Nil = Inr 3" by code_simp
  have rd: "core_ExecutorSpec ex_uuid ?db 3 ?d = (Inr (zero_executor\<lparr>ex_ID := 3\<rparr>), ?d)"
  proof -
    have u: "u_string ex_uuid 3 = ''3''" by code_simp
    have "db_read ?db 3 ?d = (Inr (executor_bytes ex_uuid (zero_executor\<lparr>ex_ID := 3\<rparr>)), ?d)"
      by (simp add: etcd_opener_def etcd_fetch_eq u) (simp add: ex_client_def)
    moreover have "executor_ok (zero_executor\<lparr>ex_ID := 3\<rparr>)"
      by (simp add: executor_ok_def zero_executor_def maps_ok_def int64_min_def int64_max_def)
    ultimately show ?thesis
      using load_saved_executor [OF ex_uuid_lawful] by (simp add: core_ExecutorSpec_def)
  qed
  have nm: "job_name (executor_job ''secret'' ex_uuid (zero_executor\<lparr>ex_ID := 3\<rparr>)) = ''etr-3''" by code_simp
  have cr: "k_create ex_closing (executor_job ''secret'' ex_uuid (zero_executor\<lparr>ex_ID := 3\<rparr>)) {} = (Inr ''etr-3'', {''etr-3''})"
    using nm by (simp add: ex_closing_def ex_k8s_def)
  have wa: "k_watch ex_closing (''job-name='' @ ''etr-3'') {''etr-3''} = (Inr (WClosed # []), {''etr-3''})"
    by (simp add: ex_closing_def)
  have nw: "w_status new_writer = None" by (simp add: new_writer_def)
  from closed_watch_leaks_job [of ex_closing ex_closing_service, unfolded sv, OF law refl refl refl j f rd cr wa nw, of "''t''"]
  show ?thesis by (auto simp: ex_closing_def ex_k8s_def)
qed

subsection \<open>Checking out over HTTP\<close>

lemma fill_struct_inv:
  assumes "\<And>k v s s'. P s \<Longrightarrow> assign k v s = Inr s' \<Longrightarrow> P s'" "P s" "fill_struct assign j s = Inr s'"
  shows "P s'"
  using assms(2,3) by (auto simp: fill_struct_def split: json.splits intro: fill_members_inv [of assign P] assms(1))

lemma fill_string_map_ok: "gm_ok m \<Longrightarrow> fill_string_map ms m = Inr m' \<Longrightarrow> gm_ok m'"
  by (induction ms m rule: fill_string_map.induct) (auto split: sum.splits)

lemma dec_string_map_ok: "maps_ok old \<Longrightarrow> dec_string_map j old = Inr m \<Longrightarrow> maps_ok m"
  by (auto simp: dec_string_map_def maps_ok_def split: json.splits sum.splits option.splits
      dest!: fill_string_map_ok [rotated])

lemma dec_field_Inr: "dec_field dec v upd = Inr y \<longleftrightarrow> (\<exists>x. dec v = Inr x \<and> y = upd x)"
  by (auto simp: dec_field_def split: sum.splits)

lemma assign_start_env:
  "maps_ok (sr_Environment r) \<Longrightarrow> assign_start L eiffel k v r = Inr r' \<Longrightarrow> maps_ok (sr_Environment r')"
  by (auto simp: assign_start_def Let_def dec_field_Inr split: if_splits option.splits intro: dec_string_map_ok)

lemma verified_environment:
  assumes "verifyStartInput L eiffel purl body = Inr r"
  shows "maps_ok (sr_Environment r)"
proof -
  obtain doc where "fill_struct (assign_start L eiffel) doc zero_start = Inr r"
    using assms by (auto simp: verifyStartInput_def Let_def split: sum.splits option.splits)
  moreover have "maps_ok (sr_Environment zero_start)" by (simp add: zero_start_def maps_ok_def)
  ultimately show ?thesis
    using fill_struct_inv [of "\<lambda>r. maps_ok (sr_Environment r)" "assign_start L eiffel"] assign_start_env by blast
qed

text \<open>
  C18: A verified start request with an environment is answered 200 with the ID of a checkout;
  when that checkout has run against a database that serves its requests, a status request with
  the ID is answered 200 with a done execution space of the maximum amount of executors, or the
  minimum amount when no maximum was given, with the requested test runner.
\<close>

theorem start_then_status:
  assumes "etcd_lawful c" "etcd_reliable c" "uuid_lawful (sv_uuid sv)" "px_uuid px = sv_uuid sv"
    and "sv_db sv = etcd_opener (sv_uuid sv) c e0"
    and "verifyStartInput (sv_uuid sv) eiffel purl body = Inr r" "sr_Environment r \<noteq> None"
    and "amount = nat (if sr_MaximumAmount r = 0 then sr_MinimumAmount r else sr_MaximumAmount r)"
    and "checkoutId \<noteq> uuid_Nil"
    and "\<forall>j < amount. fst (fresh j) \<noteq> uuid_Nil \<and> fst (fresh j) \<noteq> checkoutId"
    and "inj_on (\<lambda>j. fst (fresh j)) {..<amount}"
    and "w_status w = None" "w_status wr = None"
  shows "\<exists>cfg w1 s1 s2 es w2. Start (sv_uuid sv) eiffel purl checkoutId identifier body w = (Some cfg, Returned (), w1)
    \<and> w_status w1 = Some 200
    \<and> w_body w1 = w_body w @ json_enc (JObj [(''id'', JStr (u_string (sv_uuid sv) checkoutId))])
    \<and> core_Checkout px (sv_db sv) fresh cfg s = (Returned (), s1)
    \<and> provider_Status sv (u_string (sv_uuid sv) checkoutId) (wr, s1) = (Returned (), w2, s2)
    \<and> w_status w2 = Some 200 \<and> w_body w2 = w_body wr @ json_enc (enc_space (sv_uuid sv) es)
    \<and> es_ID es = checkoutId \<and> es_Status es = status_Done
    \<and> map (\<lambda>ex. (ex_ID ex, in_Image (ex_Instructions ex))) (case es_Executors es of None \<Rightarrow> [] | Some xs \<Rightarrow> xs)
        = map (\<lambda>j. (fst (fresh j), sr_TestRunner r)) [0..<amount]"
proof -
  let ?L = "sv_uuid sv"
  obtain g where g: "sr_Environment r = Some g" "gm_ok g"
    using assms(7) verified_environment [OF assms(6)] by (auto simp: maps_ok_def)
  obtain g' where g': "set_all (dataset_env (sr_Dataset r)) (Some g) = Returned (Some g')" "gm_ok g'"
    using set_all_Returned [OF g(2)] by blast
  define cfg where "cfg = \<lparr>ec_Amount = (if sr_MaximumAmount r = 0 then sr_MinimumAmount r else sr_MaximumAmount r),
      ec_TestRunner = sr_TestRunner r, ec_CheckoutID = checkoutId, ec_ETOSIdentifier = identifier,
      ec_Environment = Some g'\<rparr>"
  have st: "Start ?L eiffel purl checkoutId identifier body w
      = (Some cfg, Returned (), RespondWithJSON 200 (JObj [(''id'', JStr (u_string ?L checkoutId))]) w)"
    by (simp add: Start_def assms(6) g(1) g'(1) cfg_def)
  have amt: "nat (ec_Amount cfg) = amount" "ec_CheckoutID cfg = checkoutId" "ec_Environment cfg = Some g'"
    "ec_TestRunner cfg = sr_TestRunner r"
    by (simp_all add: cfg_def assms(8))
  have pre: "etcd_lawful c \<and> uuid_lawful ?L \<and> etcd_reliable c" using assms(1-3) by simp
  obtain s1 s2 es exs where run: "core_Checkout px (etcd_opener ?L c e0) fresh cfg s = (Returned (), s1)"
    "core_Status ?L (etcd_opener ?L c e0) checkoutId s1 = ((es, None), s2)"
    "es_ID es = checkoutId" "es_Status es = status_Done"
    "(case es_Executors es of None \<Rightarrow> [] | Some xs \<Rightarrow> xs) = exs"
    "list_all2 (made_for px cfg) (map fresh [0..<amount]) exs"
    using etcd_reliable.checkout_status [of c "px_uuid px" px cfg g' fresh e0 s] assms(1-4,9-11) g'(2)
    by (auto simp: amt)
  have q: "provider_Status sv (u_string ?L checkoutId) (wr, s1)
      = (Returned (), RespondWithJSON 200 (enc_space ?L es) wr, s2)"
    using run(2) by (simp add: provider_Status_def uuid_lawfulD(1) [OF assms(3)] assms(5))
  have len: "length exs = amount" using list_all2_lengthD [OF run(6)] by simp
  have ids: "map (\<lambda>ex. (ex_ID ex, in_Image (ex_Instructions ex))) exs = map (\<lambda>j. (fst (fresh j), sr_TestRunner r)) [0..<amount]"
    using run(6) by (intro nth_equalityI) (auto simp: len made_for_def amt list_all2_conv_all_nth)
  have b200: "body_allowed 200" by (simp add: body_allowed_def)
  show ?thesis
    using st run q ids RespondWithJSON_fresh [OF assms(12) b200] RespondWithJSON_fresh [OF assms(13) b200]
    unfolding assms(5) by blast
qed

definition ex_no_executor :: "'s executor" where
  "ex_no_executor =
     (let bad = Text ''unavailable''
      in \<lparr>e_Name = ''none'', e_Start = (\<lambda>_ s. (Inl bad, s)), e_Wait = (\<lambda>_ s. (Returned (Inl bad), s)),
          e_Cancel = (\<lambda>_ s. (None, s)), e_Stop = (\<lambda>_ s. (None, s)), e_Alive = (\<lambda>_ s. (Inl bad, s))\<rparr>)"

definition ex_db_service :: "(string \<Rightarrow> bytes option) service" where
  "ex_db_service =
     \<lparr>sv_uuid = ex_uuid, sv_db = etcd_opener ex_uuid ex_client (etcd_New []), sv_ex = ex_no_executor,
      sv_fetch = (\<lambda>url q s. (Inr (200, Inr ex_items), s)), sv_sdk = ex_sdk, sv_goer = ''http://goer'',
      sv_expired = (\<lambda>s. False), sv_attempts = (\<lambda>s. 3)\<rparr>"

definition ex_start_body :: bytes where
  "ex_start_body = ''{\"minimum_amount\": 2, \"test_runner\": \"img\", \"environment\": {}, \"dataset\": {\"dev\": true}}''"

definition ex_start_request :: start_request where
  "ex_start_request = zero_start\<lparr>sr_MinimumAmount := 2, sr_TestRunner := ''img'', sr_Environment := Some [],
     sr_Dataset := (sr_Dataset zero_start)\<lparr>ds_DEV := True\<rparr>\<rparr>"

lemma ex_start_verified:
  "verifyStartInput ex_uuid (\<lambda>_ _. None) (\<lambda>_. None) (Inr ex_start_body) = Inr ex_start_request"
  by code_simp

lemma start_then_status_witness:
  "\<exists>cfg w1 s1 s2 es w2.
      Start ex_uuid (\<lambda>_ _. None) (\<lambda>_. None) 1 ''t'' (Inr ex_start_body) new_writer = (Some cfg, Returned (), w1)
    \<and> core_Checkout ex_ctx (sv_db ex_db_service) ex_fresh cfg Map.empty = (Returned (), s1)
    \<and> provider_Status ex_db_service (u_string ex_uuid 1) (new_writer, s1) = (Returned (), w2, s2)
    \<and> w_status w1 = Some 200 \<and> w_status w2 = Some 200 \<and> es_Status (es :: execution_space) = status_Done
    \<and> map (\<lambda>ex. (ex_ID ex, in_Image (ex_Instructions ex))) (case es_Executors es of None \<Rightarrow> [] | Some xs \<Rightarrow> xs)
        = [(2, ''img''), (3, ''img'')]"
proof -
  have sv: "sv_uuid ex_db_service = ex_uuid" "sv_db ex_db_service = etcd_opener ex_uuid ex_client (etcd_New [])"
    by (simp_all add: ex_db_service_def)
  have px: "px_uuid ex_ctx = ex_uuid" by (simp add: ex_ctx_def)
  have r: "sr_Environment ex_start_request \<noteq> None" "sr_TestRunner ex_start_request = ''img''"
    "2 = nat (if sr_MaximumAmount ex_start_request = 0 then sr_MinimumAmount ex_start_request
        else sr_MaximumAmount ex_start_request)"
    by (simp_all add: ex_start_request_def zero_start_def)
  have ids: "\<forall>j < 2. fst (ex_fresh j) \<noteq> uuid_Nil \<and> fst (ex_fresh j) \<noteq> 1" "inj_on (\<lambda>j. fst (ex_fresh j)) {..<2}"
    "(1 :: uuid) \<noteq> uuid_Nil"
    by (auto simp: inj_on_def ex_fresh_def split: if_splits)
  have m: "map (\<lambda>j. (fst (ex_fresh j), ''img'')) [0..<2] = [(2, ''img''), (3, ''img'')]"
    by (simp add: ex_fresh_def upt_rec)
  have n: "w_status new_writer = None" by (simp add: new_writer_def)
  from start_then_status [of ex_client ex_db_service, unfolded sv, OF ex_client_lawful ex_uuid_lawful px refl
      ex_start_verified r(1) r(3) ids(3) ids(1) ids(2) n n, of "''t''" Map.empty]
  show ?thesis unfolding r(2) m sv by (elim exE conjE) (intro exI conjI; (assumption | simp))
qed

text \<open>
  A verified start request without an environment map is lost: with a dataset the handler
  panics and answers 500; without one it answers 200 with a checkout ID, and the checkout panics
  in its goroutine, with the execution space left pending for ever.
\<close>

theorem start_without_environment:
  assumes "verifyStartInput (sv_uuid sv) eiffel purl body = Inr r" "sr_Environment r = None"
    and "0 < (if sr_MaximumAmount r = 0 then sr_MinimumAmount r else sr_MaximumAmount r)"
    and "etcd_lawful c" "etcd_reliable c" "uuid_lawful (sv_uuid sv)" "px_uuid px = sv_uuid sv"
    and "checkoutId \<noteq> uuid_Nil" "w_status w = None"
  shows "if dataset_env (sr_Dataset r) \<noteq> []
    then (\<exists>p w'. Start (sv_uuid sv) eiffel purl checkoutId identifier body w = (None, Panicked p, w)
      \<and> panicRecovery identifier (\<lambda>(w, s). (Panicked p, w, s)) (w, s) = (Returned (), w', s) \<and> w_status w' = Some 500)
    else (\<exists>cfg w' p s'. Start (sv_uuid sv) eiffel purl checkoutId identifier body w = (Some cfg, Returned (), w')
      \<and> w_status w' = Some 200
      \<and> core_Checkout px (etcd_opener (sv_uuid sv) c e0) fresh cfg s = (Panicked p, s')
      \<and> etcd_contents (sv_uuid sv) c s' checkoutId = Some (space_bytes (sv_uuid sv) (space_New checkoutId))
      \<and> es_Status (space_New checkoutId) = status_Pending)"
proof (cases "dataset_env (sr_Dataset r) = []")
  case False
  then show ?thesis
    using assms(9) by (simp add: Start_def assms(1,2) set_all_nil panicRecovery_def)
next
  case True
  let ?L = "sv_uuid sv" and ?db = "etcd_opener (sv_uuid sv) c e0"
  define cfg where "cfg = \<lparr>ec_Amount = (if sr_MaximumAmount r = 0 then sr_MinimumAmount r else sr_MaximumAmount r),
      ec_TestRunner = sr_TestRunner r, ec_CheckoutID = checkoutId, ec_ETOSIdentifier = identifier,
      ec_Environment = None\<rparr>"
  have "set_all [] None = Returned None" by (simp add: set_all_def)
  then have st: "Start ?L eiffel purl checkoutId identifier body w
      = (Some cfg, Returned (), RespondWithJSON 200 (JObj [(''id'', JStr (u_string ?L checkoutId))]) w)"
    by (simp add: Start_def assms(1,2) True cfg_def)
  have ok: "etcd_lawful c \<and> uuid_lawful ?L \<and> etcd_reliable c" "etcd_lawful c \<and> uuid_lawful ?L" using assms(4-6) by simp_all
  obtain s1 where s1: "db_write ?db checkoutId (space_bytes ?L (space_New checkoutId)) s = (None, s1)"
    using etcd_reliable.write_works [OF ok(1) assms(8)] by (metis prod.collapse)
  have sv: "space_Save ?L (space_New checkoutId) (db_write ?db checkoutId) s = (None, s1)"
    using s1 by (simp add: space_Save_def)
  have "core_Checkout px ?db fresh cfg s = (Panicked ''assignment to entry in nil map'', s1)"
    using sv assms(3) by (intro checkout_nil_environment_panics) (simp_all add: cfg_def assms(7))
  moreover have "etcd_contents ?L c s1 checkoutId = Some (space_bytes ?L (space_New checkoutId))"
    using etcd_store.write_done [OF ok(2) s1] by simp
  moreover have "es_Status (space_New checkoutId) = status_Pending" by (simp add: space_New_def)
  ultimately show ?thesis using True st assms(9) by simp
qed

lemma start_without_environment_witness:
  "\<exists>cfg w' p s'. Start ex_uuid (\<lambda>_ _. None) (\<lambda>_. None) 1 ''t'' (Inr ''{\"minimum_amount\": 1}'') new_writer = (Some cfg, Returned (), w')
    \<and> w_status w' = Some 200
    \<and> core_Checkout ex_ctx (etcd_opener ex_uuid ex_client (etcd_New [])) ex_fresh cfg Map.empty = (Panicked p, s')"
proof -
  let ?r = "zero_start\<lparr>sr_MinimumAmount := 1\<rparr>"
  have v: "verifyStartInput ex_uuid (\<lambda>_ _. None) (\<lambda>_. None) (Inr ''{\"minimum_amount\": 1}'') = Inr ?r" by code_simp
  have sv: "sv_uuid ex_db_service = ex_uuid" by (simp add: ex_db_service_def)
  have px: "px_uuid ex_ctx = ex_uuid" by (simp add: ex_ctx_def)
  have r: "sr_Environment ?r = None" "0 < (if sr_MaximumAmount ?r = 0 then sr_MinimumAmount ?r else sr_MaximumAmount ?r)"
    "dataset_env (sr_Dataset ?r) = []" "(1 :: uuid) \<noteq> uuid_Nil" "w_status new_writer = None"
    by (simp_all add: zero_start_def dataset_env_def new_writer_def)
  from start_without_environment [of ex_db_service, unfolded sv, OF v r(1,2) ex_client_lawful ex_uuid_lawful px r(4,5),
      of "''t''" Map.empty "etcd_New []" ex_fresh]
  show ?thesis unfolding r(3) by simp blast
qed

text \<open>
  Bad input has a different status at each handler: \<open>Start\<close> answers 500, because it wraps
  the 400 in a plain error, while \<open>Status\<close> and \<open>Stop\<close> answer 400; none of them reads or writes
  anything.
\<close>

theorem bad_input_statuses:
  assumes "w_status w = None"
  shows "(verifyStartInput L eiffel purl body = Inl err \<longrightarrow>
        (\<exists>w'. Start L eiffel purl checkoutId identifier body w = (None, Returned (), w') \<and> w_status w' = Some 500
          \<and> (\<exists>e msg. err = HTTPError e msg 400)))
    \<and> (u_parse (sv_uuid sv) query = (uid, Some perr) \<longrightarrow>
        (\<exists>w'. provider_Status sv query (w, s) = (Returned (), w', s) \<and> w_status w' = Some 400))
    \<and> (LoadExecutorSpecs (sv_uuid sv) body = Inl lerr \<longrightarrow>
        (\<exists>w'. provider_Stop sv body (w, s) = (Returned (), w', s) \<and> w_status w' = Some 400))"
  using assms
  by (auto simp: Start_def provider_Status_def provider_Stop_def sendError_def NewHTTPError_def
      verifyStartInput_def Let_def split: sum.splits option.splits)

lemma bad_input_statuses_witness:
  "\<exists>w'. Start ex_uuid (\<lambda>_ _. None) (\<lambda>_. None) 1 ''t'' (Inr ''x'') new_writer = (None, Returned (), w') \<and> w_status w' = Some 500"
proof -
  have n: "w_status new_writer = None" by (simp add: new_writer_def)
  have "\<not> is_ok (verifyStartInput ex_uuid (\<lambda>_ _. None) (\<lambda>_. None) (Inr ''x''))" by code_simp
  then obtain err where "verifyStartInput ex_uuid (\<lambda>_ _. None) (\<lambda>_. None) (Inr ''x'') = Inl err"
    by (cases "verifyStartInput ex_uuid (\<lambda>_ _. None) (\<lambda>_. None) (Inr ''x'')") simp_all
  from bad_input_statuses [OF n, THEN conjunct1, rule_format, OF this, of 1 "''t''"] show ?thesis by blast
qed

subsection \<open>Every request is answered\<close>

lemma panicRecovery_answers:
  assumes "\<And>w' s'. fn rs = (Returned (), w', s') \<Longrightarrow> w_status w' \<noteq> None"
  shows "\<exists>w' s'. panicRecovery identifier fn rs = (Returned (), w', s') \<and> w_status w' \<noteq> None"
proof (cases "fn rs")
  case (fields r w s)
  then show ?thesis using assms by (cases r) (auto simp: panicRecovery_def split: option.splits)
qed

text \<open>
  Under \<open>panicRecovery\<close> every status, stop and executor start request ends with a response,
  whatever the database, Kubernetes and the event repository do.
\<close>

theorem every_request_answered:
  assumes "w_status w = None" "h \<in> {provider_Status sv query, provider_Stop sv body, ExecutorStart sv body}"
  shows "\<exists>w' s'. panicRecovery identifier h (w, s) = (Returned (), w', s') \<and> w_status w' \<noteq> None"
proof (rule panicRecovery_answers)
  fix w' s' assume r: "h (w, s) = (Returned (), w', s')"
  consider "h = provider_Status sv query" | "h = provider_Stop sv body" | "h = ExecutorStart sv body"
    using assms(2) by blast
  then show "w_status w' \<noteq> None"
  proof cases
    case 1
    then show ?thesis using r assms(1)
      by (auto simp: provider_Status_def sendError_def NewHTTPError_def split: prod.splits option.splits)
  next
    case 2
    then show ?thesis using r assms(1)
      by (auto simp: provider_Stop_def sendError_def NewHTTPError_def split: sum.splits prod.splits option.splits)
  next
    case 3
    have save: "w_status w'' \<noteq> None" if "ExecutorStart_save sv spec b w s1 = (Returned (), w'', s2)" for spec b s1 w'' s2
      using that assms(1)
      by (auto simp: ExecutorStart_save_def Let_def split: prod.splits option.splits)
    have job: "w_status w'' \<noteq> None" if "ExecutorStart_job sv spec w s1 = (Returned (), w'', s2)" for spec s1 w'' s2
      using that assms(1)
      by (auto simp: ExecutorStart_job_def Let_def split: prod.splits sum.splits outcome.splits dest: save)
    show ?thesis using r assms(1) unfolding 3
      by (auto simp: ExecutorStart_def Let_def split: sum.splits prod.splits dest: job)
  qed
qed

lemma every_request_answered_witness:
  "\<exists>w' s'. panicRecovery ''t'' (provider_Stop ex_service (Inr ''[]'')) (new_writer, (Map.empty, {})) = (Returned (), w', s')
    \<and> w_status w' \<noteq> None"
  by (rule every_request_answered [where sv = ex_service and body = "Inr ''[]''"]) (simp_all add: new_writer_def)

end
