(* ===== verification/Checkout_Frame.thy ===== *)
theory Checkout_Frame
  imports Service_Props
begin

text \<open>
  What a checkout changes in the database, however it ends: only its own key and those of its new
  executors, and what it writes there names no job.  A status request changes nothing.
\<close>

lemma stored_job_cong: "con u = con' u \<Longrightarrow> stored_job L con u = stored_job L con' u"
  by (simp add: stored_job_def)

lemma stored_job_empty: "con u = Some [] \<Longrightarrow> stored_job L con u = None"
  by (simp add: stored_job_def LoadExecutorSpec_def json_decode_def ws_def)

lemma stored_job_saved:
  "uuid_lawful L \<Longrightarrow> executor_ok ex \<Longrightarrow> con u = Some (executor_bytes L ex) \<Longrightarrow>
   stored_job L con u = (if ex_BuildID ex = [] then None else Some (ex_BuildID ex))"
  by (simp add: stored_job_def load_saved_executor)

text \<open>An execution space reads as an executor without a build ID.\<close>

lemma stored_job_space:
  assumes "uuid_lawful L" "con u = Some (space_bytes L e)"
  shows "stored_job L con u = None"
proof -
  let ?j = "enc_space L (e\<lparr>es_Executors := None\<rparr>)"
  have "json_wf ?j" by (auto simp: enc_space_def enc_slice_def split: option.split)
  then have "json_decode (space_bytes L e) = Inr ?j"
    unfolding space_bytes_def by (rule json_decode_enc) (simp add: is_num_char_def char_digit_def)
  moreover have "fill_struct (assign_executor L) ?j zero_executor = Inr (zero_executor\<lparr>ex_ID := es_ID e\<rparr>)"
    by (simp add: fill_struct_def enc_space_def assign_executor_def fold_name_consts dec_uuid_string [OF assms(1)])
  ultimately have "LoadExecutorSpec L (Inr (space_bytes L e)) = Inr (zero_executor\<lparr>ex_ID := es_ID e\<rparr>)"
    by (simp add: LoadExecutorSpec_def dec_executor_def)
  then show ?thesis using assms(2) by (simp add: stored_job_def zero_executor_def)
qed

definition keys_only :: "uuid_lib \<Rightarrow> uuid set \<Rightarrow> (uuid \<Rightarrow> bytes option) \<Rightarrow> (uuid \<Rightarrow> bytes option) \<Rightarrow> bool" where
  "keys_only L U con con' = (\<forall>u. con' u = con u \<or> u \<in> U \<and> stored_job L con' u = None)"

lemma keys_only_refl [simp]: "keys_only L U con con" by (simp add: keys_only_def)

lemma keys_only_trans: "keys_only L U a b \<Longrightarrow> keys_only L U b c \<Longrightarrow> keys_only L U a c"
  unfolding keys_only_def using stored_job_cong by metis

lemma NewExecutorSpec_ok:
  assumes "maps_ok env" "NewExecutorSpec (px_uuid px) (px_getenv px) (px_carrier px) ids (px_url px)
      (ec_ETOSIdentifier cfg) (ec_TestRunner cfg) env = Returned (ex, env')"
  shows "made_for px cfg ids ex \<and> maps_ok env'"
proof (cases env)
  case None
  then have False using assms(2) by (auto simp: NewExecutorSpec_def Let_def set_all_nil split: outcome.splits)
  then show ?thesis ..
next
  case (Some g)
  then have "gm_ok g" using assms(1) by (simp add: maps_ok_def)
  from NewExecutorSpec_made [OF this, of px ids cfg] obtain ex1 g' where
    "NewExecutorSpec (px_uuid px) (px_getenv px) (px_carrier px) ids (px_url px)
      (ec_ETOSIdentifier cfg) (ec_TestRunner cfg) (Some g) = Returned (ex1, Some g')" "gm_ok g'" "made_for px cfg ids ex1"
    by metis
  then show ?thesis using assms(2) Some by (auto simp: maps_ok_def)
qed

context provider_world
begin

lemma write_frame_keys:
  assumes "ok s" "db_write db u b s = (r, s')" "u \<in> U" "\<And>con. con u = Some b \<Longrightarrow> stored_job L con u = None"
  shows "ok s' \<and> runner_ok s' = runner_ok s \<and> jobs s' = jobs s \<and> keys_only L U (contents s) (contents s')"
proof -
  have "contents s' = contents s \<or> contents s' = (contents s)(u \<mapsto> b)"
    using write_done [OF assms(1)] write_failed [OF assms(1)] assms(2) by (cases r) blast+
  then have "keys_only L U (contents s) (contents s')"
    using assms(3) assms(4) [of "contents s'"] by (auto simp: keys_only_def split: if_splits)
  then show ?thesis using write_jobs [OF assms(2)] write_frame [OF assms(1,2)] by simp
qed

lemma space_Save_frame:
  assumes "ok s" "space_Save L es (db_write db u) s = (r, s')" "u \<in> U" "uuid_lawful L"
  shows "ok s' \<and> runner_ok s' = runner_ok s \<and> jobs s' = jobs s \<and> keys_only L U (contents s) (contents s')"
proof -
  obtain q where "db_write db u (space_bytes L es) s = (q, s')"
    using assms(2) by (auto simp: space_Save_def split: prod.splits option.splits)
  from write_frame_keys [OF assms(1) this assms(3)] show ?thesis using stored_job_space [OF assms(4)] by blast
qed

lemma SaveExecutor_frame:
  assumes "ok s" "core_SaveExecutor L db spec s = (r, s')" "ex_ID spec \<in> U" "uuid_lawful L" "executor_ok spec" "ex_BuildID spec = []"
  shows "ok s' \<and> runner_ok s' = runner_ok s \<and> jobs s' = jobs s \<and> keys_only L U (contents s) (contents s')"
proof -
  obtain q where "db_write db (ex_ID spec) (executor_bytes L spec) s = (q, s')"
    using assms(2) by (auto simp: core_SaveExecutor_def executor_Save_def split: prod.splits option.splits)
  from write_frame_keys [OF assms(1) this assms(3), of L] show ?thesis using stored_job_saved [OF assms(4,5)] assms(6) by simp
qed

lemma checkout_loop_frame:
  assumes "ok s" "checkout_loop px db fresh cfg n i env space s = (res, s')" "maps_ok env" "uuid_lawful (px_uuid px)"
    and "ec_CheckoutID cfg \<in> U" "\<And>j. j < n \<Longrightarrow> fst (fresh (i + j)) \<in> U"
  shows "ok s' \<and> runner_ok s' = runner_ok s \<and> jobs s' = jobs s \<and> keys_only (px_uuid px) U (contents s) (contents s')"
  using assms(1-3,6)
proof (induction n arbitrary: i env space s)
  case (Suc n)
  let ?L = "px_uuid px"
  let ?new = "NewExecutorSpec ?L (px_getenv px) (px_carrier px) (fresh i) (px_url px)
      (ec_ETOSIdentifier cfg) (ec_TestRunner cfg) env"
  show ?case
  proof (cases ?new)
    case (Panicked p)
    then show ?thesis using Suc.prems by simp
  next
    case (Returned ee)
    then obtain spec env' where ex: "?new = Returned (spec, env')" by (cases ee) simp
    note m = NewExecutorSpec_ok [OF Suc.prems(3) ex]
    obtain r s1 where w: "core_SaveExecutor ?L db spec s = (r, s1)" by force
    have k1: "ok s1 \<and> runner_ok s1 = runner_ok s \<and> jobs s1 = jobs s \<and> keys_only ?L U (contents s) (contents s1)"
      by (rule SaveExecutor_frame [OF Suc.prems(1) w _ assms(4)])
        (use m Suc.prems(4) [of 0] in \<open>auto simp: made_for_def\<close>)
    show ?thesis
    proof (cases r)
      case (Some err)
      obtain q s2 where f: "space_Fail ?L (space_Add ?L spec space) (db_write db (ec_CheckoutID cfg)) err s1 = (q, s2)" by force
      then have "s' = s2" using Suc.prems(2) ex w Some by (simp add: Let_def)
      moreover have "ok s2 \<and> runner_ok s2 = runner_ok s1 \<and> jobs s2 = jobs s1 \<and> keys_only ?L U (contents s1) (contents s2)"
        using k1 f assms(4,5) unfolding space_Fail_def by (intro space_Save_frame) auto
      ultimately show ?thesis using k1 keys_only_trans by metis
    next
      case None
      have "checkout_loop px db fresh cfg n (Suc i) env' (space_Add ?L spec space) s1 = (res, s')"
        using Suc.prems(2) ex w None by (simp add: Let_def)
      then have "ok s' \<and> runner_ok s' = runner_ok s1 \<and> jobs s' = jobs s1 \<and> keys_only ?L U (contents s1) (contents s')"
        by (rule Suc.IH [rotated]) (use k1 m Suc.prems(4) [of "Suc _"] in auto)
      then show ?thesis using k1 keys_only_trans by metis
    qed
  qed
qed simp

lemma Checkout_frame:
  assumes "ok s" "core_Checkout px db fresh cfg s = (res, s')" "maps_ok (ec_Environment cfg)" "uuid_lawful (px_uuid px)"
    and "U = insert (ec_CheckoutID cfg) ((\<lambda>j. fst (fresh j)) ` {..<nat (ec_Amount cfg)})"
  shows "ok s' \<and> runner_ok s' = runner_ok s \<and> jobs s' = jobs s \<and> keys_only (px_uuid px) U (contents s) (contents s')"
proof -
  let ?L = "px_uuid px" and ?w = "db_write db (ec_CheckoutID cfg)" and ?n = "nat (ec_Amount cfg)"
  have cid: "ec_CheckoutID cfg \<in> U" using assms(5) by simp
  note save = space_Save_frame [OF _ _ cid assms(4)]
  obtain r s1 where a: "space_Save ?L (space_New (ec_CheckoutID cfg)) ?w s = (r, s1)" by force
  note ka = save [OF assms(1) a]
  show ?thesis
  proof (cases r)
    case (Some e)
    then have "s' = s1" using assms(2) a by (simp add: core_Checkout_def Let_def)
    then show ?thesis using ka by simp
  next
    case None
    obtain q s2 where b: "checkout_loop px db fresh cfg ?n 0 (ec_Environment cfg) (space_New (ec_CheckoutID cfg)) s1 = (q, s2)"
      by force
    have kb: "ok s2 \<and> runner_ok s2 = runner_ok s1 \<and> jobs s2 = jobs s1 \<and> keys_only ?L U (contents s1) (contents s2)"
      by (rule checkout_loop_frame [OF _ b assms(3,4) cid]) (use ka assms(5) in auto)
    have k2: "ok s2 \<and> runner_ok s2 = runner_ok s \<and> jobs s2 = jobs s \<and> keys_only ?L U (contents s) (contents s2)"
      using ka kb keys_only_trans by metis
    show ?thesis
    proof (cases "\<exists>space2. q = Returned (Some space2)")
      case False
      then have "s' = s2"
        using assms(2) a None b by (cases q) (auto simp: core_Checkout_def Let_def split: option.splits)
      then show ?thesis using k2 by simp
    next
      case True
      then obtain space2 where q: "q = Returned (Some space2)" by blast
      let ?sp = "space2\<lparr>es_Status := status_Done, es_Description := ''Execution spaces checked out successfully''\<rparr>"
      obtain r3 s3 where c: "space_Save ?L ?sp ?w s2 = (r3, s3)" by force
      have k3: "ok s3 \<and> runner_ok s3 = runner_ok s \<and> jobs s3 = jobs s \<and> keys_only ?L U (contents s) (contents s3)"
        using k2 save [OF _ c] keys_only_trans by metis
      show ?thesis
      proof (cases r3)
        case None
        then have "s' = s3" using assms(2) a \<open>r = None\<close> b q c by (simp add: core_Checkout_def Let_def)
        then show ?thesis using k3 by simp
      next
        case (Some err)
        obtain r4 s4 where d: "space_Fail ?L ?sp ?w err s3 = (r4, s4)" by force
        have "s' = s4"
          using assms(2) a \<open>r = None\<close> b q c Some d by (cases r4) (simp_all add: core_Checkout_def Let_def)
        moreover have "ok s4 \<and> runner_ok s4 = runner_ok s3 \<and> jobs s4 = jobs s3 \<and> keys_only ?L U (contents s3) (contents s4)"
          using k3 d unfolding space_Fail_def by (intro save) auto
        ultimately show ?thesis using k3 keys_only_trans by metis
      qed
    qed
  qed
qed

lemma read_keeps_all:
  "ok s \<Longrightarrow> db_read db u s = (r, s') \<Longrightarrow> ok s' \<and> runner_ok s' = runner_ok s \<and> jobs s' = jobs s \<and> contents s' = contents s"
  using read_keeps read_jobs by metis

lemma status_executors_frame:
  "ok s \<Longrightarrow> status_executors L db refs es s = (r, s') \<Longrightarrow>
   ok s' \<and> runner_ok s' = runner_ok s \<and> jobs s' = jobs s \<and> contents s' = contents s"
proof (induction refs arbitrary: es s)
  case (Cons reference refs)
  obtain uid e where p: "u_parse L reference = (uid, e)" by force
  obtain q s1 where d: "db_read db uid s = (q, s1)" by force
  note k = read_keeps_all [OF Cons.prems(1) d]
  show ?case
  proof (cases "e = None \<and> is_ok (LoadExecutorSpec L q)")
    case True
    then show ?thesis
      using Cons.prems(2) p d k Cons.IH [of s1] by (auto simp: core_ExecutorSpec_def split: sum.splits)
  next
    case False
    then show ?thesis
      using Cons.prems p d k by (auto simp: core_ExecutorSpec_def split: sum.splits option.splits)
  qed
qed simp

lemma Status_frame:
  assumes "ok s" "sv_db sv = db" "provider_Status sv query (w, s) = (r, w', s')"
  shows "ok s' \<and> runner_ok s' = runner_ok s \<and> jobs s' = jobs s \<and> contents s' = contents s"
proof -
  obtain uid e where p: "u_parse (sv_uuid sv) query = (uid, e)" by force
  obtain q s1 where d: "db_read db uid s = (q, s1)" by force
  note k = read_keeps_all [OF assms(1) d]
  obtain x s2 where st: "core_Status (sv_uuid sv) db uid s = (x, s2)" by (metis prod.exhaust)
  have "ok s2 \<and> runner_ok s2 = runner_ok s \<and> jobs s2 = jobs s \<and> contents s2 = contents s"
    using st d k status_executors_frame [of s1]
    by (auto simp: core_Status_def core_ExecutionSpace_def split: sum.splits)
  then show ?thesis
    using assms p st by (cases x) (auto simp: provider_Status_def respond_def split: option.splits)
qed

end

end
