(* ===== verification/Service_Runs.thy ===== *)
theory Service_Runs
  imports Checkout_Frame
begin

text \<open>
  The execution space service over many requests: executors are checked out, started and stopped in
  any order, with every answer of the database and of the event repository, and no job that
  the service started is ever lost track of.
\<close>

subsection \<open>What the database knows of jobs\<close>

text \<open>Every executor that has a job is stored under the ID that the job is named after.\<close>

definition jobs_named :: "(uuid \<Rightarrow> string) \<Rightarrow> uuid_lib \<Rightarrow> (uuid \<Rightarrow> bytes option) \<Rightarrow> bool" where
  "jobs_named job L con = (\<forall>u n. stored_job L con u = Some n \<longrightarrow> n = job u)"

definition jobs_recorded :: "uuid_lib \<Rightarrow> (uuid \<Rightarrow> bytes option) \<Rightarrow> string set \<Rightarrow> string set \<Rightarrow> bool" where
  "jobs_recorded L con J0 J = (\<forall>n \<in> J. n \<in> J0 \<or> (\<exists>u. stored_job L con u = Some n))"

subsection \<open>Loaded specifications can be saved again\<close>

lemma dec_int_range:
  assumes "int64_min \<le> old" "old \<le> int64_max" "dec_int j old = Inr n"
  shows "int64_min \<le> n \<and> n \<le> int64_max"
proof (cases j)
  case (JNum l)
  then have "parse_int64 l = (n, None)" using assms(3) by (auto simp: dec_int_def split: prod.splits option.splits)
  then show ?thesis using parse_int64_bounds [of l] by simp
qed (use assms in \<open>auto simp: dec_int_def\<close>)

definition request_ok :: "exec_request \<Rightarrow> bool" where
  "request_ok r = (maps_ok (rq_Headers r) \<and> int64_min \<le> rq_Timeout r \<and> rq_Timeout r \<le> int64_max)"

definition instructions_ok :: "instructions \<Rightarrow> bool" where
  "instructions_ok i = (maps_ok (in_Environment i) \<and> maps_ok (in_Parameters i))"

lemma executor_ok_parts: "executor_ok e = (request_ok (ex_Request e) \<and> instructions_ok (ex_Instructions e))"
  by (auto simp: executor_ok_def request_ok_def instructions_ok_def)

lemma assign_request_ok: "request_ok r \<Longrightarrow> assign_request L k v r = Inr r' \<Longrightarrow> request_ok r'"
  by (auto simp: assign_request_def request_ok_def Let_def dec_field_Inr split: if_splits
      dest: dec_string_map_ok dec_int_range)

lemma assign_instructions_ok: "instructions_ok i \<Longrightarrow> assign_instructions L k v i = Inr i' \<Longrightarrow> instructions_ok i'"
  by (auto simp: assign_instructions_def instructions_ok_def Let_def dec_field_Inr split: if_splits
      dest: dec_string_map_ok)

lemma fill_request_ok: "request_ok r \<Longrightarrow> fill_struct (assign_request L) v r = Inr r' \<Longrightarrow> request_ok r'"
  by (rule fill_struct_inv [of request_ok "assign_request L"]) (rule assign_request_ok)

lemma fill_instructions_ok:
  "instructions_ok i \<Longrightarrow> fill_struct (assign_instructions L) v i = Inr i' \<Longrightarrow> instructions_ok i'"
  by (rule fill_struct_inv [of instructions_ok "assign_instructions L"]) (rule assign_instructions_ok)

lemma assign_executor_ok: "executor_ok e \<Longrightarrow> assign_executor L k v e = Inr e' \<Longrightarrow> executor_ok e'"
  unfolding executor_ok_parts assign_executor_def Let_def
  by (simp add: dec_field_Inr split: if_splits) (auto dest: fill_request_ok fill_instructions_ok)

lemma LoadExecutorSpec_ok:
  assumes "LoadExecutorSpec L r = Inr spec"
  shows "executor_ok spec"
proof -
  obtain j where "fill_struct (assign_executor L) j zero_executor = Inr spec"
    using assms by (auto simp: LoadExecutorSpec_def dec_executor_def split: sum.splits)
  moreover have "executor_ok zero_executor"
    by (simp add: executor_ok_def maps_ok_def zero_executor_def int64_min_def int64_max_def)
  ultimately show ?thesis using fill_struct_inv [of executor_ok "assign_executor L"] assign_executor_ok by blast
qed

subsection \<open>What starting an executor changes\<close>

text \<open>
  Nothing but jobs that are gone again, or one executor with the name of its job, and at most that job.
\<close>

definition start_effect ::
  "(uuid \<Rightarrow> string) \<Rightarrow> uuid_lib \<Rightarrow> (uuid \<Rightarrow> bytes option) \<Rightarrow> string set \<Rightarrow> (uuid \<Rightarrow> bytes option) \<Rightarrow> string set \<Rightarrow> bool" where
  "start_effect job L con J con' J' =
     (con' = con \<and> J' \<subseteq> J
      \<or> (\<exists>spec. executor_ok spec \<and> ex_BuildID spec = job (ex_ID spec)
           \<and> con' = con(ex_ID spec \<mapsto> executor_bytes L spec) \<and> J' \<subseteq> insert (ex_BuildID spec) J))"

lemma start_effect_recorded:
  assumes "start_effect job L con J con' J'" "uuid_lawful L" "\<And>u. job u \<noteq> []"
    and "jobs_named job L con" "jobs_recorded L con J0 J"
  shows "jobs_named job L con' \<and> jobs_recorded L con' J0 J'"
  using assms(1) unfolding start_effect_def
proof (elim disjE exE conjE)
  fix spec
  assume e: "executor_ok spec" "ex_BuildID spec = job (ex_ID spec)"
    "con' = con(ex_ID spec \<mapsto> executor_bytes L spec)" "J' \<subseteq> insert (ex_BuildID spec) J"
  have new: "stored_job L con' (ex_ID spec) = Some (job (ex_ID spec))"
    using stored_job_saved [OF assms(2) e(1), of con' "ex_ID spec"] e(2,3) assms(3) by simp
  have old: "stored_job L con' u = stored_job L con u" if "u \<noteq> ex_ID spec" for u
    using that e(3) by (intro stored_job_cong) simp
  have named: "stored_job L con u = Some n \<Longrightarrow> n = job u" for u n using assms(4) unfolding jobs_named_def by blast
  have "n = job u" if "stored_job L con' u = Some n" for u n
  proof (cases "u = ex_ID spec")
    case False
    then show ?thesis using that old [OF False] by (intro named) simp
  qed (use that new in simp)
  then have "jobs_named job L con'" unfolding jobs_named_def by blast
  moreover have kept: "\<exists>u. stored_job L con' u = Some n" if "stored_job L con u = Some n" for u n
  proof (cases "u = ex_ID spec")
    case True
    then show ?thesis using new named [OF that] by blast
  next
    case False
    then show ?thesis using that old [OF False] by (intro exI [of _ u]) simp
  qed
  moreover have "n \<in> J0 \<or> (\<exists>u. stored_job L con' u = Some n)" if "n \<in> J'" for n
  proof (cases "n = ex_BuildID spec")
    case True
    then show ?thesis using new e(2) by (intro disjI2 exI [of _ "ex_ID spec"]) simp
  next
    case False
    then have "n \<in> J" using e(4) that by blast
    then show ?thesis using assms(5) kept unfolding jobs_recorded_def by blast
  qed
  ultimately show ?thesis unfolding jobs_recorded_def by blast
qed (use assms(4,5) in \<open>auto simp: jobs_recorded_def\<close>)

text \<open>What holds of every executor here: its jobs are named, and what it stops is gone.\<close>

definition tidy :: "'s executor \<Rightarrow> ('s \<Rightarrow> bool) \<Rightarrow> ('s \<Rightarrow> string set) \<Rightarrow> (uuid \<Rightarrow> string) \<Rightarrow> bool" where
  "tidy ex runner_ok jobs job =
     ((\<forall>n s r s'. runner_ok s \<longrightarrow> e_Stop ex n s = (r, s') \<or> e_Cancel ex n s = (r, s') \<longrightarrow> n \<notin> jobs s')
      \<and> (\<forall>spec s e s'. e_Start ex spec s = (Inl e, s') \<longrightarrow> jobs s' = jobs s)
      \<and> (\<forall>spec s n s'. e_Start ex spec s = (Inr n, s') \<longrightarrow> n = job (ex_ID spec)))"

context provider_world
begin

lemma tidy_stop:
  assumes "tidy ex runner_ok jobs job" "ok s" "runner_ok s" "jobs s \<subseteq> insert n J"
    and "e_Stop ex n s = (r, s') \<or> e_Cancel ex n s = (r, s')"
  shows "ok s' \<and> runner_ok s' \<and> contents s' = contents s \<and> jobs s' \<subseteq> J"
proof -
  have "n \<notin> jobs s'" using assms(1,3,5) unfolding tidy_def by blast
  moreover have "runner_ok s' \<and> jobs s' \<subseteq> jobs s"
    using assms(5) stop_done [OF assms(3)] cancel_done [OF assms(3)] by blast
  moreover have "ok s' = ok s \<and> contents s' = contents s" using assms(5) stop_store cancel_store by blast
  ultimately show ?thesis using assms(2,4) by auto
qed

lemma save_effect:
  assumes "ok s" "runner_ok s" "sv_db sv = db" "sv_ex sv = ex" "pure_fetch (sv_fetch sv)" "tidy ex runner_ok jobs job"
    and "executor_ok spec" "ex_BuildID spec = n" "n = job (ex_ID spec)" "jobs s \<subseteq> insert n J"
    and "ExecutorStart_save sv spec n w s = (res, w', s')"
  shows "ok s' \<and> runner_ok s' \<and> start_effect job (sv_uuid sv) (contents s) J (contents s') (jobs s')"
proof -
  let ?L = "sv_uuid sv"
  obtain p s1 where p: "db_write db (ex_ID spec) (executor_bytes ?L spec) s = (p, s1)" by force
  have k1: "ok s1" "runner_ok s1" "jobs s1 \<subseteq> insert n J"
    using write_jobs [OF p] write_frame [OF assms(1) p] assms(2,10) by simp_all
  show ?thesis
  proof (cases p)
    case (Some e)
    have "core_SaveExecutor ?L db spec s = (Some (errors_join (Some (Text ''failed to write executor to database'')) e), s1)"
      using p Some by (simp add: core_SaveExecutor_def executor_Save_def)
    then obtain r where "e_Stop ex n s1 = (r, s')"
      using assms(3,4,11) by (cases "e_Stop ex n s1") (auto simp: ExecutorStart_save_def Let_def respond_def)
    then have s': "ok s'" "runner_ok s'" "contents s' = contents s1" "jobs s' \<subseteq> J"
      using tidy_stop [OF assms(6) k1 disjI1] by blast+
    then have "jobs s' \<subseteq> insert n J" by auto
    then show ?thesis
      using s' write_failed [OF assms(1) p [unfolded Some]] assms(7-9) unfolding start_effect_def by metis
  next
    case None
    have sv: "core_SaveExecutor ?L db spec s = (None, s1)"
      using p None by (simp add: core_SaveExecutor_def executor_Save_def)
    note d = write_done [OF assms(1) p [unfolded None]]
    obtain q s2 where q: "waitStart (e_Alive ex) (sv_fetch sv) (sv_sdk sv) (sv_goer sv) (sv_attempts sv s1)
        (new_suite_state spec) s1 = (q, s2)" by force
    have k2: "ok s2" "runner_ok s2" "contents s2 = contents s1" "jobs s2 \<subseteq> insert n J"
      using waitStart_keeps [OF assms(5) k1(2) q] k1 by simp_all
    have "ok s' \<and> runner_ok s' \<and> contents s' = contents s1 \<and> jobs s' \<subseteq> insert n J"
    proof (cases q)
      case None
      then have "s' = s2" using assms(3,4,11) sv q by (simp add: ExecutorStart_save_def respond_def)
      then show ?thesis using k2 by simp
    next
      case (Some e)
      then obtain r where "e_Stop ex n s2 = (r, s')"
        using assms(3,4,11) sv q by (cases "e_Stop ex n s2") (auto simp: ExecutorStart_save_def Let_def respond_def)
      then show ?thesis using tidy_stop [OF assms(6) k2(1,2,4) disjI1] k2(3) by auto
    qed
    then show ?thesis using d assms(7-9) by (auto simp: start_effect_def)
  qed
qed

lemma ExecutorStart_effect:
  assumes "ok s" "runner_ok s" "sv_db sv = db" "sv_ex sv = ex" "pure_fetch (sv_fetch sv)" "tidy ex runner_ok jobs job"
    and "ExecutorStart sv body (w, s) = (Returned (), w', s')"
  shows "ok s' \<and> runner_ok s' \<and> start_effect job (sv_uuid sv) (contents s) (jobs s) (contents s') (jobs s')"
proof (cases "\<exists>b doc uid. body = Inr b \<and> json_decode b = Inr doc
    \<and> fill_struct (assign_data (sv_uuid sv)) doc uuid_Nil = Inr uid")
  case False
  then have "s' = s" using assms(7) by (auto simp: ExecutorStart_def respond_def Let_def split: sum.splits)
  then show ?thesis using assms(1,2) by (simp add: start_effect_def)
next
  case True
  then obtain b doc uid where b: "body = Inr b" "json_decode b = Inr doc"
    "fill_struct (assign_data (sv_uuid sv)) doc uuid_Nil = Inr uid" by blast
  obtain q s1 where q: "db_read db uid s = (q, s1)" by force
  have k1: "ok s1" "runner_ok s1" "jobs s1 = jobs s" "contents s1 = contents s"
    using read_keeps [OF assms(1) q] read_jobs [OF q] assms(2) by simp_all
  have none: "s' = s1 \<Longrightarrow> ?thesis" using k1 by (simp add: start_effect_def)
  show ?thesis
  proof (cases "LoadExecutorSpec (sv_uuid sv) q")
    case (Inl err)
    then show ?thesis
      using assms(7) q by (intro none) (simp add: ExecutorStart_def Let_def b core_ExecutorSpec_def assms(3) respond_def)
  next
    case spec: (Inr spec)
    have run: "ExecutorStart_job sv spec w s1 = (Returned (), w', s')"
      using assms(7) q spec by (simp add: ExecutorStart_def Let_def b core_ExecutorSpec_def assms(3))
    obtain p s2 where p: "e_Start ex spec s1 = (p, s2)" by force
    show ?thesis
    proof (cases p)
      case (Inl err)
      then have "s' = s2" using run p assms(4) by (simp add: ExecutorStart_job_def respond_def)
      moreover have "jobs s2 = jobs s1" using assms(6) p [unfolded Inl] unfolding tidy_def by blast
      ultimately show ?thesis
        using start_failed [OF k1(2) p [unfolded Inl]] start_store [OF p] k1 by (simp add: start_effect_def)
    next
      case n: (Inr n)
      have name: "n = job (ex_ID spec)" using assms(6) p [unfolded n] unfolding tidy_def by blast
      note st = start_done [OF k1(2) p [unfolded n]] start_store [OF p]
      obtain v s3 where v: "e_Wait ex n s2 = (v, s3)" by force
      have k3: "ok s3" "runner_ok s3" "jobs s3 \<subseteq> insert n (jobs s)" "contents s3 = contents s"
        using wait_keeps [OF _ v] wait_store [OF v] st k1 by simp_all
      have run3: "(case v of Panicked p \<Rightarrow> (Panicked p, w, s3)
          | Returned (Inl err) \<Rightarrow> ExecutorStart_job sv spec w s1
          | Returned (Inr (buildID, url)) \<Rightarrow> ExecutorStart_save sv (spec\<lparr>ex_BuildID := buildID\<rparr>) buildID w s3)
          = (Returned (), w', s')"
        using run p n v assms(4) by (simp add: ExecutorStart_job_def split: outcome.splits sum.splits prod.splits)
      show ?thesis
      proof (cases v)
        case (Panicked e)
        then show ?thesis using run3 by simp
      next
        case ret: (Returned vr)
        show ?thesis
        proof (cases vr)
          case (Inl err)
          then obtain r where "e_Cancel ex n s3 = (r, s')"
            using run p n v ret assms(4) by (cases "e_Cancel ex n s3") (auto simp: ExecutorStart_job_def Let_def respond_def)
          then show ?thesis
            using tidy_stop [OF assms(6) k3(1-3) disjI2] k3(4) by (auto simp: start_effect_def)
        next
          case (Inr bu)
          obtain bid url where bu: "bu = (bid, url)" by force
          have "bid = n" using wait_name [of s2 n bid url s3] st v ret Inr bu by simp
          then have sv: "ExecutorStart_save sv (spec\<lparr>ex_BuildID := n\<rparr>) n w s3 = (Returned (), w', s')"
            using run3 ret Inr bu by simp
          have "executor_ok (spec\<lparr>ex_BuildID := n\<rparr>)"
            using LoadExecutorSpec_ok [OF spec] by (simp add: executor_ok_def)
          from save_effect [OF k3(1,2) assms(3-6) this _ _ k3(3) sv] name k3(4) show ?thesis by simp
        qed
      qed
    qed
  qed
qed

text \<open>A stop, however it is answered, takes away jobs and then only executors whose jobs are gone.\<close>

lemma Stop_effect:
  assumes "ok s" "runner_ok s" "sv_db sv = db" "sv_ex sv = ex"
    and "provider_Stop sv body (w, s) = (res, w', s')"
  shows "ok s' \<and> runner_ok s' \<and> jobs s' \<subseteq> jobs s
    \<and> (\<forall>u. contents s' u = contents s u
        \<or> contents s' u = Some [] \<and> (\<forall>n. stored_job (sv_uuid sv) (contents s) u = Some n \<longrightarrow> n \<notin> jobs s'))"
proof (cases "LoadExecutorSpecs (sv_uuid sv) body")
  case (Inl err)
  then have "s' = s" using assms(5) by (simp add: provider_Stop_def respond_def)
  then show ?thesis using assms(1,2) by simp
next
  case specs: (Inr specs)
  obtain e s1 where st: "stop_jobs sv specs None s = (e, s1)" by force
  note a = stop_jobs_done [OF assms(1,2) st assms(3,4)]
  show ?thesis
  proof (cases e)
    case (Some err)
    then have "s' = s1" using assms(5) specs st by (simp add: provider_Stop_def respond_def)
    then show ?thesis using a by simp
  next
    case None
    obtain f where ci: "core_Checkin db specs s1 = (f, s')"
      using assms(3,5) specs st None
      by (cases "core_Checkin db specs s1") (auto simp: provider_Stop_def respond_def split: option.splits)
    have ok1: "ok s1" using a by simp
    show ?thesis
    proof (intro conjI allI)
      fix u
      show "contents s' u = contents s u
        \<or> contents s' u = Some [] \<and> (\<forall>n. stored_job (sv_uuid sv) (contents s) u = Some n \<longrightarrow> n \<notin> jobs s')"
        using checkin_frame [OF ok1 ci] checkin_jobs [OF ci] a None by (cases "u \<in> ex_ID ` set specs") auto
    qed (use checkin_frame [OF ok1 ci] checkin_jobs [OF ci] a in auto)
  qed
qed

end

subsection \<open>Many requests\<close>

text \<open>
  A start request comes with the UUIDs that are drawn for it and its identifier; the checkout that it begins
  runs before the next request is served.
\<close>

datatype service_request =
    StartRequest uuid "nat \<Rightarrow> uuid \<times> uuid" string "gerror + bytes"
  | StatusRequest string
  | StartExecutor "gerror + bytes"
  | StopExecutors "gerror + bytes"

text \<open>What the start request handler is given beside the service: the trace context, the schema and package URL parsers.\<close>

type_synonym front = "provider_ctx \<times> (string \<Rightarrow> json \<Rightarrow> gerror option) \<times> (string \<Rightarrow> gerror option)"

fun start_config :: "'s service \<Rightarrow> front \<Rightarrow> service_request \<Rightarrow> exec_config option" where
  "start_config sv (px, eiffel, purl) (StartRequest checkoutId fresh identifier body) =
     fst (Start (sv_uuid sv) eiffel purl checkoutId identifier body new_writer)"
| "start_config sv f r = None"

fun serve :: "'s service \<Rightarrow> front \<Rightarrow> service_request \<Rightarrow> 's handler" where
  "serve sv (px, eiffel, purl) (StartRequest checkoutId fresh identifier body) rs =
     (case Start (sv_uuid sv) eiffel purl checkoutId identifier body (fst rs) of
        (None, r, w) \<Rightarrow> (r, w, snd rs)
      | (Some cfg, r, w) \<Rightarrow>
          (case core_Checkout px (sv_db sv) fresh cfg (snd rs) of (r', s') \<Rightarrow> (r', w, s')))"
| "serve sv f (StatusRequest query) rs = provider_Status sv query rs"
| "serve sv f (StartExecutor body) rs = ExecutorStart sv body rs"
| "serve sv f (StopExecutors body) rs = provider_Stop sv body rs"

text \<open>The status of each answer and the world in the end, or \<open>None\<close> when a handler or a checkout panics.\<close>

fun serve_all :: "'s service \<Rightarrow> front \<Rightarrow> service_request list \<Rightarrow> 's \<Rightarrow> (int option list \<times> 's) option" where
  "serve_all sv f [] s = Some ([], s)"
| "serve_all sv f (r # rs) s =
     (case serve sv f r (new_writer, s) of
        (Panicked p, w', s') \<Rightarrow> None
      | (Returned _, w', s') \<Rightarrow>
          (case serve_all sv f rs s' of None \<Rightarrow> None | Some (sts, s'') \<Rightarrow> Some (w_status w' # sts, s'')))"

text \<open>The keys of a checkout, and that no UUID is drawn that already is the key of an executor with a job.\<close>

fun start_keys :: "'s service \<Rightarrow> front \<Rightarrow> service_request \<Rightarrow> uuid list" where
  "start_keys sv f (StartRequest checkoutId fresh identifier body) =
     (case start_config sv f (StartRequest checkoutId fresh identifier body) of
        None \<Rightarrow> []
      | Some cfg \<Rightarrow> ec_CheckoutID cfg # map (\<lambda>j. fst (fresh j)) [0..<nat (ec_Amount cfg)])"
| "start_keys sv f r = []"

fun ids_fresh :: "('s \<Rightarrow> uuid \<Rightarrow> bytes option) \<Rightarrow> 's service \<Rightarrow> front \<Rightarrow> service_request list \<Rightarrow> 's \<Rightarrow> bool" where
  "ids_fresh con sv f [] s = True"
| "ids_fresh con sv f (r # rs) s =
     (list_all (\<lambda>u. stored_job (sv_uuid sv) (con s) u = None) (start_keys sv f r)
      \<and> ids_fresh con sv f rs (snd (snd (serve sv f r (new_writer, s)))))"

lemma Start_writer:
  "Start L eiffel purl checkoutId identifier body w = (c, r, w') \<Longrightarrow>
   fst (Start L eiffel purl checkoutId identifier body v) = c"
  by (auto simp: Start_def Let_def split: sum.splits outcome.splits)

lemma Start_environment:
  assumes "Start L eiffel purl checkoutId identifier body w = (Some cfg, r, w')"
  shows "maps_ok (ec_Environment cfg)"
proof -
  obtain req env where v: "verifyStartInput L eiffel purl body = Inr req"
    "set_all (dataset_env (sr_Dataset req)) (sr_Environment req) = Returned env" "ec_Environment cfg = env"
    using assms by (auto simp: Start_def Let_def split: sum.splits outcome.splits)
  show ?thesis
  proof (cases "sr_Environment req")
    case None
    then have "dataset_env (sr_Dataset req) = []" using v(2) set_all_nil by fastforce
    then show ?thesis using v(2,3) None by (simp add: set_all_def maps_ok_def)
  next
    case (Some g)
    then have "gm_ok g" using verified_environment [OF v(1)] by (simp add: maps_ok_def)
    then show ?thesis using set_all_Returned [of g "dataset_env (sr_Dataset req)"] v(2,3) Some by (auto simp: maps_ok_def)
  qed
qed

lemma keys_only_recorded:
  assumes "keys_only L U con con'" "\<forall>u \<in> U. stored_job L con u = None"
    and "jobs_named job L con" "jobs_recorded L con J0 J"
  shows "jobs_named job L con' \<and> jobs_recorded L con' J0 J"
proof -
  have "stored_job L con' u = stored_job L con u" for u
    using assms(1,2) stored_job_cong [of con' u con] unfolding keys_only_def by metis
  then show ?thesis using assms(3,4) by (simp add: jobs_named_def jobs_recorded_def)
qed

text \<open>What holds between requests.\<close>

definition runs_ok ::
  "('s \<Rightarrow> bool) \<Rightarrow> ('s \<Rightarrow> bool) \<Rightarrow> ('s \<Rightarrow> uuid \<Rightarrow> bytes option) \<Rightarrow> ('s \<Rightarrow> string set) \<Rightarrow> (uuid \<Rightarrow> string) \<Rightarrow> uuid_lib
   \<Rightarrow> string set \<Rightarrow> 's \<Rightarrow> bool" where
  "runs_ok ok runner_ok contents jobs job L J0 s =
     (ok s \<and> runner_ok s \<and> jobs_named job L (contents s) \<and> jobs_recorded L (contents s) J0 (jobs s))"

context provider_world
begin

lemma serve_stop_recorded:
  assumes "runs_ok ok runner_ok contents jobs job (sv_uuid sv) J0 s" "sv_db sv = db" "sv_ex sv = ex"
    and "provider_Stop sv body (w, s) = (res, w', s')"
  shows "runs_ok ok runner_ok contents jobs job (sv_uuid sv) J0 s'"
proof -
  have k: "ok s" "runner_ok s" using assms(1) by (simp_all add: runs_ok_def)
  note e = Stop_effect [OF k assms(2-4)]
  have keep: "stored_job (sv_uuid sv) (contents s') u = stored_job (sv_uuid sv) (contents s) u
      \<or> stored_job (sv_uuid sv) (contents s') u = None
        \<and> (\<forall>n. stored_job (sv_uuid sv) (contents s) u = Some n \<longrightarrow> n \<notin> jobs s')" for u
    using e stored_job_cong [of "contents s'" u "contents s"] stored_job_empty [of "contents s'" u] by metis
  have "jobs_named job (sv_uuid sv) (contents s')"
    using assms(1) keep unfolding jobs_named_def runs_ok_def by (metis option.distinct(1))
  moreover have "jobs_recorded (sv_uuid sv) (contents s') J0 (jobs s')"
    using assms(1) keep e unfolding jobs_recorded_def runs_ok_def by (metis subset_iff)
  ultimately show ?thesis using e by (simp add: runs_ok_def)
qed

lemma serve_start_recorded:
  assumes "runs_ok ok runner_ok contents jobs job (sv_uuid sv) J0 s" "sv_db sv = db" "uuid_lawful (sv_uuid sv)" "px_uuid px = sv_uuid sv"
    and "r = StartRequest checkoutId fresh identifier body"
    and "serve sv (px, eiffel, purl) r (w, s) = (res, w', s')"
    and "list_all (\<lambda>u. stored_job (sv_uuid sv) (contents s) u = None) (start_keys sv (px, eiffel, purl) r)"
  shows "runs_ok ok runner_ok contents jobs job (sv_uuid sv) J0 s'"
proof -
  obtain c o1 w1 where st: "Start (sv_uuid sv) eiffel purl checkoutId identifier body w = (c, o1, w1)" by (metis prod.exhaust)
  show ?thesis
  proof (cases c)
    case None
    then show ?thesis using assms(1,5,6) st by simp
  next
    case (Some cfg)
    obtain o2 where ck: "core_Checkout px db fresh cfg s = (o2, s')"
      using assms(2,5,6) st Some by (auto split: prod.splits)
    let ?U = "insert (ec_CheckoutID cfg) ((\<lambda>j. fst (fresh j)) ` {..<nat (ec_Amount cfg)})"
    have "fst (Start (sv_uuid sv) eiffel purl checkoutId identifier body new_writer) = Some cfg"
      using Start_writer [OF st] Some by simp
    then have free: "\<forall>u \<in> ?U. stored_job (sv_uuid sv) (contents s) u = None"
      using assms(5,7) by (auto simp: list_all_iff)
    have "ok s" using assms(1) by (simp add: runs_ok_def)
    from Checkout_frame [OF this ck Start_environment [OF st [unfolded Some]] _ refl] assms(3,4)
    have k: "ok s' \<and> runner_ok s' = runner_ok s \<and> jobs s' = jobs s \<and> keys_only (sv_uuid sv) ?U (contents s) (contents s')" by simp
    moreover have "jobs_named job (sv_uuid sv) (contents s') \<and> jobs_recorded (sv_uuid sv) (contents s') J0 (jobs s)"
      by (rule keys_only_recorded [OF _ free]) (use assms(1) k in \<open>auto simp: runs_ok_def\<close>)
    ultimately show ?thesis using assms(1) by (simp add: runs_ok_def)
  qed
qed

lemma serve_recorded:
  assumes "runs_ok ok runner_ok contents jobs job (sv_uuid sv) J0 s" "sv_db sv = db" "sv_ex sv = ex" "pure_fetch (sv_fetch sv)" "tidy ex runner_ok jobs job"
    and "uuid_lawful (sv_uuid sv)" "\<And>u. job u \<noteq> []" "px_uuid px = sv_uuid sv"
    and "serve sv (px, eiffel, purl) r (w, s) = (Returned (), w', s')"
    and "list_all (\<lambda>u. stored_job (sv_uuid sv) (contents s) u = None) (start_keys sv (px, eiffel, purl) r)"
  shows "runs_ok ok runner_ok contents jobs job (sv_uuid sv) J0 s'"
proof (cases r)
  case (StartRequest checkoutId fresh ident body)
  then show ?thesis using serve_start_recorded [OF assms(1,2,6,8) _ assms(9,10)] by blast
next
  case (StatusRequest query)
  then have "provider_Status sv query (w, s) = (Returned (), w', s')" using assms(9) by simp
  then show ?thesis using assms(1,2) Status_frame [of s sv query w] by (auto simp: runs_ok_def)
next
  case (StartExecutor body)
  then have run: "ExecutorStart sv body (w, s) = (Returned (), w', s')" using assms(9) by simp
  have k: "ok s" "runner_ok s" "jobs_named job (sv_uuid sv) (contents s)"
    "jobs_recorded (sv_uuid sv) (contents s) J0 (jobs s)" using assms(1) by (simp_all add: runs_ok_def)
  note e = ExecutorStart_effect [OF k(1,2) assms(2-5) run]
  show ?thesis using e start_effect_recorded [OF _ assms(6,7) k(3,4)] unfolding runs_ok_def by blast
next
  case (StopExecutors body)
  then have "provider_Stop sv body (w, s) = (Returned (), w', s')" using assms(9) by simp
  then show ?thesis by (rule serve_stop_recorded [OF assms(1-3)])
qed

lemma serve_all_recorded:
  assumes "sv_db sv = db" "sv_ex sv = ex" "pure_fetch (sv_fetch sv)" "tidy ex runner_ok jobs job"
    and "uuid_lawful (sv_uuid sv)" "\<And>u. job u \<noteq> []" "px_uuid px = sv_uuid sv"
    and "serve_all sv (px, eiffel, purl) rs s = Some (sts, s')" "runs_ok ok runner_ok contents jobs job (sv_uuid sv) J0 s"
    and "ids_fresh contents sv (px, eiffel, purl) rs s"
  shows "runs_ok ok runner_ok contents jobs job (sv_uuid sv) J0 s'"
  using assms(8-10)
proof (induction rs arbitrary: s sts)
  case (Cons r rs)
  obtain w1 s1 sts1 where r: "serve sv (px, eiffel, purl) r (new_writer, s) = (Returned (), w1, s1)"
    "serve_all sv (px, eiffel, purl) rs s1 = Some (sts1, s')"
    using Cons.prems(1) by (auto split: prod.splits outcome.splits option.splits)
  have "runs_ok ok runner_ok contents jobs job (sv_uuid sv) J0 s1"
    using serve_recorded [OF Cons.prems(2) assms(1-7) r(1)] Cons.prems(3) by simp
  then show ?case using Cons.IH [OF r(2)] Cons.prems(3) r(1) by simp
qed simp

end

definition etr_job :: "uuid_lib \<Rightarrow> uuid \<Rightarrow> string" where
  "etr_job L u = ''etr-'' @ u_string L u"

lemma kube_tidy:
  assumes "k8s_lawful k" "k8s_healthy k"
  shows "tidy (snd_executor (kube_executor k secret L)) (\<lambda>s. k8s_lawful k) (\<lambda>s. k_jobs k (snd s)) (etr_job L)"
proof -
  have "n = etr_job L (ex_ID spec)" if "k_create k (executor_job secret L spec) s = (Inr n, s')" for spec s n s'
    using k8s_lawfulD(1) [OF assms(1) that] by (simp add: executor_job_def etr_job_def)
  moreover have "k_jobs k s' = k_jobs k s" if "k_create k j s = (Inl e, s')" for j s e s'
    using that assms(2) by (simp add: k8s_healthy_def)
  moreover have "n \<notin> k_jobs k s'" if "kube_Stop k n s = (r, s')" for n s r s'
    using kube_Stop_healthy [OF assms that] .
  ultimately show ?thesis
    unfolding tidy_def by (auto simp: snd_executor_eqs kube_executor_def kube_Start_def kube_Cancel_def)
qed


definition ex_ids :: "nat \<Rightarrow> uuid \<times> uuid" where
  "ex_ids j = (if j = 0 then (5, 7) else (6, 8))"

definition ex_requests :: "service_request list" where
  "ex_requests =
     [StartRequest 1 ex_ids ''t'' (Inr ex_start_body), StatusRequest ''x'',
      StartExecutor (Inr (json_enc (JObj [(''id'', JStr ''3'')]))), StartExecutor (Inr (json_enc (JObj [(''id'', JStr ''4'')]))),
      StopExecutors (Inr ex_stop_body)]"

definition ex_front :: front where
  "ex_front = (ex_ctx, \<lambda>_ _. None, \<lambda>_. None)"

definition ex_checked_out :: ex_world where
  "ex_checked_out =
     ([''/3'' \<mapsto> executor_bytes ex_uuid (zero_executor\<lparr>ex_ID := 3\<rparr>),
       ''/4'' \<mapsto> executor_bytes ex_uuid (zero_executor\<lparr>ex_ID := 4\<rparr>)], {})"

lemma ex_checked_out_no_jobs: "stored_job ex_uuid (etcd_contents ex_uuid ex_client (fst ex_checked_out)) u = None"
proof -
  have load: "LoadExecutorSpec ex_uuid (Inr (executor_bytes ex_uuid (zero_executor\<lparr>ex_ID := i\<rparr>)))
      = Inr (zero_executor\<lparr>ex_ID := i\<rparr>)" for i
    by (rule load_saved_executor [OF ex_uuid_lawful])
      (simp add: executor_ok_def maps_ok_def zero_executor_def int64_min_def int64_max_def)
  have build: "ex_BuildID (zero_executor\<lparr>ex_ID := i\<rparr>) = []" for i by (simp add: zero_executor_def)
  have "etcd_contents ex_uuid ex_client (fst ex_checked_out) u
      \<in> {None, Some (executor_bytes ex_uuid (zero_executor\<lparr>ex_ID := 3\<rparr>)),
          Some (executor_bytes ex_uuid (zero_executor\<lparr>ex_ID := 4\<rparr>))}"
    by (auto simp: ex_checked_out_def etcd_contents_def ex_client_def fun_upd_def split: if_splits)
  then show ?thesis using load build by (auto simp: stored_job_def)
qed


text \<open>
  Requests that overlap are another matter.  A stop that comes when the job of a start is running but
  not saved finds no build ID: it is answered with no content and deletes the executor; the start then
  saves it again and is answered with no content too, and the job runs on.
\<close>

definition ex_started :: executor_spec where
  "ex_started = zero_executor\<lparr>ex_ID := 3\<rparr>"

definition ex_stop_started :: bytes where
  "ex_stop_started = json_enc (JArr [enc_executor ex_uuid ex_started])"

lemma stop_during_start_lost:
  "(case e_Start (sv_ex ex_service) ex_started (([''/3'' \<mapsto> executor_bytes ex_uuid ex_started], {}) :: ex_world) of
      (Inr n, s1) \<Rightarrow>
        (case provider_Stop ex_service (Inr ex_stop_started) (new_writer, s1) of
           (_, w2, s2) \<Rightarrow>
             (case ExecutorStart_save ex_service (ex_started\<lparr>ex_BuildID := n\<rparr>) n new_writer s2 of
                (_, w3, (d3, t3)) \<Rightarrow> w_status w2 = Some 204 \<and> w_status w3 = Some 204 \<and> n \<in> t3))
    | _ \<Rightarrow> False)"
  by code_simp

end
