(* ===== verification/Service_Conc.thy ===== *)
theory Service_Conc
  imports Service_Runs
begin

text \<open>
  Requests of the execution space service that overlap: executor starts and stops
  (\<open>pkg/executionspace/v1alpha\<close>) and the checkouts that start requests leave behind
  (\<open>internal/executionspace/provider\<close>), as goroutines that take turns after each request to the database
  or to Kubernetes.  \<open>Service_Runs\<close> has the requests one after the other; \<open>stages_sequential\<close> relates both.
\<close>

subsection \<open>The stages of a request\<close>

text \<open>
  What a goroutine does next.  A start reads its executor, creates the job, waits for it, and cancels it or
  saves the executor with its build ID; then it waits for the sub suite, and answers or stops the job.  A stop
  looks its executors up, those in the first list are done, and kills the jobs it finds; then it deletes them.
  A start that panics leaves its job behind.  A checkout saves the pending space, then its executors, of which
  \<open>n\<close> are to come, then the space that is done, or records a failure.
\<close>

datatype stage =
    StartRead "gerror + bytes"
  | StartCreate executor_spec
  | StartWait executor_spec string
  | StartCancel string gerror
  | StartSave executor_spec string
  | StartUndo string
  | StartSubSuite executor_spec string
  | StartAbort string gerror
  | StopLoad "gerror + bytes"
  | StopLook "executor_spec list" "executor_spec list" "gerror option"
  | StopKill "executor_spec list" executor_spec string "executor_spec list" "gerror option"
  | StopDelete "executor_spec list"
  | CheckoutBegin provider_ctx "nat \<Rightarrow> uuid \<times> uuid" exec_config
  | CheckoutNext provider_ctx "nat \<Rightarrow> uuid \<times> uuid" exec_config nat nat "string gmap option" execution_space
  | CheckoutFail provider_ctx exec_config execution_space gerror
  | CheckoutDone provider_ctx exec_config execution_space
  | CheckoutLast provider_ctx exec_config execution_space gerror
  | Answered http_writer
  | Crashed string string
  | Ended "unit outcome"

fun finished :: "stage \<Rightarrow> bool" where
  "finished (Answered w) = True"
| "finished (Crashed p n) = True"
| "finished (Ended r) = True"
| "finished _ = False"

text \<open>
  One stage in the world \<open>s\<close>.  Waiting takes time, in which others may change what it sees: the answer
  of a wait is that of any world \<open>seen\<close>.
\<close>

fun start_next :: "'s service \<Rightarrow> 's \<Rightarrow> stage \<Rightarrow> 's \<Rightarrow> stage \<times> 's" where
  "start_next sv seen (StartRead body) s =
     (let bad = (Answered (RespondWithError 400 ''could not read ID from post body'' new_writer), s);
          msg = ''Timed out when reading the '' @ e_Name (sv_ex sv) @ '' execution space configuration from database''
      in case body of Inl err \<Rightarrow> bad
       | Inr b \<Rightarrow> (case json_decode b of Inl err \<Rightarrow> bad
           | Inr doc \<Rightarrow> (case fill_struct (assign_data (sv_uuid sv)) doc uuid_Nil of Inl err \<Rightarrow> bad
               | Inr uid \<Rightarrow>
                   (case core_ExecutorSpec (sv_uuid sv) (sv_db sv) uid s of
                      (Inl err, s1) \<Rightarrow> (Answered (timed sv s1 msg 400 msg new_writer), s1)
                    | (Inr spec, s1) \<Rightarrow> (StartCreate spec, s1)))))"
| "start_next sv seen (StartCreate spec) s =
     (case e_Start (sv_ex sv) spec s of
        (Inl err, s1) \<Rightarrow>
          (Answered (timed sv s1 ''Timed out when trying to start the test execution job'' 500
            (''Error trying to start the test execution job: '' @ err_string err) new_writer), s1)
      | (Inr uid, s1) \<Rightarrow> (StartWait spec uid, s1))"
| "start_next sv seen (StartWait spec uid) s =
     (let s1 = snd (e_Wait (sv_ex sv) uid s)
      in case fst (e_Wait (sv_ex sv) uid seen) of
           Panicked p \<Rightarrow> (Crashed p uid, s1)
         | Returned (Inl err) \<Rightarrow> (StartCancel uid err, s1)
         | Returned (Inr (buildID, buildURL)) \<Rightarrow> (StartSave (spec\<lparr>ex_BuildID := buildID\<rparr>) buildID, s1))"
| "start_next sv seen (StartCancel uid err) s =
     (let s1 = snd (e_Cancel (sv_ex sv) uid s)
      in (Answered (timed sv s1
            (''Timed out when waiting for the test execution job to start - Error: '' @ err_string err) 500
            (''Error when waiting for the test execution job to start - Error: '' @ err_string err) new_writer), s1))"
| "start_next sv seen (StartSave spec buildID) s =
     (case core_SaveExecutor (sv_uuid sv) (sv_db sv) spec s of
        (Some err, s1) \<Rightarrow> (StartUndo buildID, s1)
      | (None, s1) \<Rightarrow> (StartSubSuite spec buildID, s1))"
| "start_next sv seen (StartUndo buildID) s =
     (let s1 = snd (e_Stop (sv_ex sv) buildID s)
      in (Answered (timed sv s1 ''Timed out when saving the test execution configuration'' 500
            ''Error when saving the test execution configuration'' new_writer), s1))"
| "start_next sv seen (StartSubSuite spec buildID) s =
     (let wait = waitStart (e_Alive (sv_ex sv)) (sv_fetch sv) (sv_sdk sv) (sv_goer sv) (sv_attempts sv s)
            (new_suite_state spec);
          s1 = snd (wait s)
      in case fst (wait seen) of
           Some err \<Rightarrow> (StartAbort buildID err, s1)
         | None \<Rightarrow> (Answered (write_body [] (write_header 204 new_writer)), s1))"
| "start_next sv seen (StartAbort buildID err) s =
     (let s1 = snd (e_Stop (sv_ex sv) buildID s)
      in (Answered (timed sv s1
            (''Timed out when waiting for the test execution job to initialize - Error: '' @ err_string err) 400
            (''Error when waiting for the test execution job to initialize - Error: '' @ err_string err) new_writer), s1))"
| "start_next sv seen t s = (t, s)"

fun stop_next :: "'s service \<Rightarrow> stage \<Rightarrow> 's \<Rightarrow> stage \<times> 's" where
  "stop_next sv (StopLoad body) s =
     (case LoadExecutorSpecs (sv_uuid sv) body of
        Inl err \<Rightarrow>
          (Answered (sendError (NewHTTPError (Text (''failed to load executor spec: '' @ err_string err
            @ ''. Unable to decode post body: '' @ err_string err)) 400) new_writer), s)
      | Inr executors \<Rightarrow> (StopLook [] executors None, s))"
| "stop_next sv (StopLook looked [] err) s =
     (case err of
        Some e \<Rightarrow> (Answered (RespondWithJSON 500 (JStr (err_string e)) new_writer), s)
      | None \<Rightarrow> (StopDelete looked, s))"
| "stop_next sv (StopLook looked (spec # specs) err) s =
     (case core_Job (sv_uuid sv) (sv_db sv) (ex_ID spec) s of
        (Inl jobInitErr, s1) \<Rightarrow>
          (if errors_is jobInitErr io_EOF then (StopLook (looked @ [spec]) specs err, s1)
           else (StopLook (looked @ [spec]) specs (Some (errors_join err jobInitErr)), s1))
      | (Inr uid, s1) \<Rightarrow>
          (if uid = [] then (StopLook (looked @ [spec]) specs err, s1)
           else (StopKill looked spec uid specs err, s1)))"
| "stop_next sv (StopKill looked spec uid specs err) s =
     (case e_Stop (sv_ex sv) uid s of
        (Some stopErr, s1) \<Rightarrow> (StopLook (looked @ [spec]) specs (Some (errors_join err stopErr)), s1)
      | (None, s1) \<Rightarrow> (StopLook (looked @ [spec]) specs err, s1))"
| "stop_next sv (StopDelete []) s = (Answered (RespondWithJSON 204 (JStr []) new_writer), s)"
| "stop_next sv (StopDelete (spec # specs)) s =
     (case executor_Delete (db_write (sv_db sv) (ex_ID spec)) s of
        (Some err, s1) \<Rightarrow> (Answered (RespondWithJSON 500 (JObj []) new_writer), s1)
      | (None, s1) \<Rightarrow> (StopDelete specs, s1))"
| "stop_next sv t s = (t, s)"

text \<open>The goroutine that draws the \<open>i\<close>-th pair of UUIDs \<open>fresh i\<close>.\<close>

fun checkout_next :: "'s service \<Rightarrow> stage \<Rightarrow> 's \<Rightarrow> stage \<times> 's" where
  "checkout_next sv (CheckoutBegin px fresh cfg) s =
     (let space = space_New (ec_CheckoutID cfg)
      in case space_Save (px_uuid px) space (db_write (sv_db sv) (ec_CheckoutID cfg)) s of
           (Some err, s1) \<Rightarrow> (Ended (Returned ()), s1)
         | (None, s1) \<Rightarrow> (CheckoutNext px fresh cfg (nat (ec_Amount cfg)) 0 (ec_Environment cfg) space, s1))"
| "checkout_next sv (CheckoutNext px fresh cfg 0 i env space) s =
     (CheckoutDone px cfg (space\<lparr>es_Status := status_Done,
        es_Description := ''Execution spaces checked out successfully''\<rparr>), s)"
| "checkout_next sv (CheckoutNext px fresh cfg (Suc n) i env space) s =
     (case NewExecutorSpec (px_uuid px) (px_getenv px) (px_carrier px) (fresh i) (px_url px)
             (ec_ETOSIdentifier cfg) (ec_TestRunner cfg) env of
        Panicked p \<Rightarrow> (Ended (Panicked p), s)
      | Returned (executor, env') \<Rightarrow>
          (let space' = space_Add (px_uuid px) executor space
           in case core_SaveExecutor (px_uuid px) (sv_db sv) executor s of
                (Some err, s1) \<Rightarrow> (CheckoutFail px cfg space' err, s1)
              | (None, s1) \<Rightarrow> (CheckoutNext px fresh cfg n (Suc i) env' space', s1)))"
| "checkout_next sv (CheckoutFail px cfg space err) s =
     (Ended (Returned ()), snd (space_Fail (px_uuid px) space (db_write (sv_db sv) (ec_CheckoutID cfg)) err s))"
| "checkout_next sv (CheckoutDone px cfg space) s =
     (case space_Save (px_uuid px) space (db_write (sv_db sv) (ec_CheckoutID cfg)) s of
        (None, s1) \<Rightarrow> (Ended (Returned ()), s1)
      | (Some err, s1) \<Rightarrow> (CheckoutLast px cfg space err, s1))"
| "checkout_next sv (CheckoutLast px cfg space err) s =
     (case space_Fail (px_uuid px) space (db_write (sv_db sv) (ec_CheckoutID cfg)) err s of
        (Some failErr, s1) \<Rightarrow> (Ended (Returned ()), s1)
      | (None, s1) \<Rightarrow> (Ended (Panicked ''nil pointer dereference''), s1))"
| "checkout_next sv t s = (t, s)"

datatype request_kind = Starting | Stopping | CheckingOut

fun request_of :: "stage \<Rightarrow> request_kind" where
  "request_of (StopLoad body) = Stopping"
| "request_of (StopLook looked specs err) = Stopping"
| "request_of (StopKill looked spec n specs err) = Stopping"
| "request_of (StopDelete specs) = Stopping"
| "request_of (CheckoutBegin px fresh cfg) = CheckingOut"
| "request_of (CheckoutNext px fresh cfg n i env space) = CheckingOut"
| "request_of (CheckoutFail px cfg space err) = CheckingOut"
| "request_of (CheckoutDone px cfg space) = CheckingOut"
| "request_of (CheckoutLast px cfg space err) = CheckingOut"
| "request_of _ = Starting"

definition stage_next :: "'s service \<Rightarrow> 's \<Rightarrow> stage \<Rightarrow> 's \<Rightarrow> stage \<times> 's" where
  "stage_next sv seen t s =
     (case request_of t of
        Starting \<Rightarrow> start_next sv seen t s | Stopping \<Rightarrow> stop_next sv t s | CheckingOut \<Rightarrow> checkout_next sv t s)"

lemma stage_next_simps [simp]:
  "request_of t = Starting \<Longrightarrow> stage_next sv seen t s = start_next sv seen t s"
  "request_of t = Stopping \<Longrightarrow> stage_next sv seen t s = stop_next sv t s"
  "request_of t = CheckingOut \<Longrightarrow> stage_next sv seen t s = checkout_next sv t s"
  by (simp_all add: stage_next_def)

subsection \<open>One request after the other\<close>

fun stage_run :: "'s service \<Rightarrow> nat \<Rightarrow> stage \<Rightarrow> 's \<Rightarrow> stage \<times> 's" where
  "stage_run sv 0 t s = (t, s)"
| "stage_run sv (Suc n) t s = (case stage_next sv s t s of (t', s') \<Rightarrow> stage_run sv n t' s')"

fun stage_result :: "stage \<Rightarrow> (unit outcome \<times> http_writer) option" where
  "stage_result (Answered w) = Some (Returned (), w)"
| "stage_result (Crashed p n) = Some (Panicked p, new_writer)"
| "stage_result (Ended r) = Some (r, new_writer)"
| "stage_result _ = None"

definition comes_to :: "'s service \<Rightarrow> stage \<Rightarrow> 's \<Rightarrow> unit outcome \<times> http_writer \<times> 's \<Rightarrow> bool" where
  "comes_to sv t s res =
     (\<exists>n t' s'. stage_run sv n t s = (t', s') \<and> stage_result t' = Some (fst res, fst (snd res)) \<and> s' = snd (snd res))"

lemma comes_to_next: "stage_next sv s t s = (t', s') \<Longrightarrow> comes_to sv t' s' res \<Longrightarrow> comes_to sv t s res"
  unfolding comes_to_def by (metis (no_types, lifting) old.prod.case stage_run.simps(2))

lemma comes_to_answered [simp]: "comes_to sv (Answered w) s (Returned (), w, s)"
  unfolding comes_to_def by (rule exI [of _ 0]) simp

lemma comes_to_crashed [simp]: "comes_to sv (Crashed p n) s (Panicked p, new_writer, s)"
  unfolding comes_to_def by (rule exI [of _ 0]) simp

lemma comes_to_ended [simp]: "comes_to sv (Ended r) s (r, new_writer, s)"
  unfolding comes_to_def by (rule exI [of _ 0]) simp

lemma comes_to_step:
  "comes_to sv (fst (stage_next sv s t s)) (snd (stage_next sv s t s)) res \<Longrightarrow> comes_to sv t s res"
  by (rule comes_to_next [OF prod.collapse [symmetric]])

lemma save_stages: "comes_to sv (StartSave spec n) s (ExecutorStart_save sv spec n new_writer s)"
proof -
  have undo: "comes_to sv (StartUndo n) s1 (respond (timed sv (snd (e_Stop (sv_ex sv) n s1))
      ''Timed out when saving the test execution configuration'' 500
      ''Error when saving the test execution configuration'') new_writer (snd (e_Stop (sv_ex sv) n s1)))" for s1
    by (rule comes_to_step) (simp add: Let_def)
  have abort: "comes_to sv (StartAbort n err) s2 (respond (timed sv (snd (e_Stop (sv_ex sv) n s2))
      (''Timed out when waiting for the test execution job to initialize - Error: '' @ err_string err) 400
      (''Error when waiting for the test execution job to initialize - Error: '' @ err_string err)) new_writer
      (snd (e_Stop (sv_ex sv) n s2)))" for s2 err
    by (rule comes_to_step) (simp add: Let_def)
  show ?thesis
    by (rule comes_to_step)
      (auto simp: ExecutorStart_save_def Let_def undo [simplified] split: prod.split option.split
        intro!: comes_to_step [of sv _ "StartSubSuite spec n"] abort [simplified])
qed

lemma start_stages: "comes_to sv (StartRead body) s (ExecutorStart sv body (new_writer, s))"
proof -
  have cancel: "comes_to sv (StartCancel uid err) s2 (respond (timed sv (snd (e_Cancel (sv_ex sv) uid s2))
      (''Timed out when waiting for the test execution job to start - Error: '' @ err_string err) 500
      (''Error when waiting for the test execution job to start - Error: '' @ err_string err)) new_writer
      (snd (e_Cancel (sv_ex sv) uid s2)))" for s2 uid err
    by (rule comes_to_step) (simp add: Let_def)
  let ?wait = "\<lambda>spec uid s1. case e_Wait (sv_ex sv) uid s1 of
      (Panicked p, s2) \<Rightarrow> (Panicked p, new_writer, s2)
    | (Returned (Inl err), s2) \<Rightarrow> respond (timed sv (snd (e_Cancel (sv_ex sv) uid s2))
        (''Timed out when waiting for the test execution job to start - Error: '' @ err_string err) 500
        (''Error when waiting for the test execution job to start - Error: '' @ err_string err)) new_writer
        (snd (e_Cancel (sv_ex sv) uid s2))
    | (Returned (Inr (buildID, buildURL)), s2) \<Rightarrow>
        ExecutorStart_save sv (spec\<lparr>ex_BuildID := buildID\<rparr>) buildID new_writer s2"
  have wait: "comes_to sv (StartWait spec uid) s1 (?wait spec uid s1)" for spec uid s1
    by (rule comes_to_step) (auto simp: Let_def save_stages cancel [simplified] split: prod.split outcome.split sum.split)
  have create: "comes_to sv (StartCreate spec) s1 (ExecutorStart_job sv spec new_writer s1)" for spec s1
  proof -
    obtain p s2 where p: "e_Start (sv_ex sv) spec s1 = (p, s2)" by force
    show ?thesis
    proof (cases p)
      case (Inl err)
      then show ?thesis by - (rule comes_to_step, simp add: ExecutorStart_job_def p)
    next
      case (Inr uid)
      have eq: "ExecutorStart_job sv spec new_writer s1 = ?wait spec uid s2"
        unfolding ExecutorStart_job_def Let_def p Inr by simp
      show ?thesis unfolding eq by (rule comes_to_next [OF _ wait]) (simp add: p Inr)
    qed
  qed
  show ?thesis
    by (rule comes_to_step) (auto simp: ExecutorStart_def Let_def create split: prod.split sum.split)
qed

lemma delete_stages:
  "comes_to sv (StopDelete specs) s (case core_Checkin (sv_db sv) specs s of
      (Some err, s1) \<Rightarrow> (Returned (), RespondWithJSON 500 (JObj []) new_writer, s1)
    | (None, s1) \<Rightarrow> (Returned (), RespondWithJSON 204 (JStr []) new_writer, s1))"
proof (induction specs arbitrary: s)
  case Nil
  show ?case by (rule comes_to_step) simp
next
  case (Cons spec specs)
  obtain p s1 where p: "executor_Delete (db_write (sv_db sv) (ex_ID spec)) s = (p, s1)" by force
  show ?case
  proof (cases p)
    case None
    then show ?thesis using Cons.IH [of s1] p by (intro comes_to_next [of sv s _ "StopDelete specs" s1]) simp_all
  next
    case (Some e)
    then show ?thesis
      using p by (intro comes_to_next [of sv s _ "Answered (RespondWithJSON 500 (JObj []) new_writer)" s1]) simp_all
  qed
qed

lemma look_stages:
  "comes_to sv (StopLook looked specs err) s (case stop_jobs sv specs err s of
      (Some e, s1) \<Rightarrow> (Returned (), RespondWithJSON 500 (JStr (err_string e)) new_writer, s1)
    | (None, s1) \<Rightarrow> (case core_Checkin (sv_db sv) (looked @ specs) s1 of
          (Some err, s2) \<Rightarrow> (Returned (), RespondWithJSON 500 (JObj []) new_writer, s2)
        | (None, s2) \<Rightarrow> (Returned (), RespondWithJSON 204 (JStr []) new_writer, s2)))"
proof (induction specs arbitrary: looked err s)
  case Nil
  show ?case by (rule comes_to_step) (auto simp: delete_stages split: option.split)
next
  case (Cons spec specs)
  let ?res = "\<lambda>q. case q of
      (Some e, s1) \<Rightarrow> (Returned (), RespondWithJSON 500 (JStr (err_string e)) new_writer, s1)
    | (None, s1) \<Rightarrow> (case core_Checkin (sv_db sv) (looked @ spec # specs) s1 of
          (Some err, s2) \<Rightarrow> (Returned (), RespondWithJSON 500 (JObj []) new_writer, s2)
        | (None, s2) \<Rightarrow> (Returned (), RespondWithJSON 204 (JStr []) new_writer, s2))"
  have ih: "comes_to sv (StopLook (looked @ [spec]) specs err') s1 (?res (stop_jobs sv specs err' s1))" for err' s1
    using Cons.IH [of "looked @ [spec]" err' s1] unfolding append_assoc append_Cons append_Nil .
  have kill: "comes_to sv (StopKill looked spec uid specs err) s1 (?res (case e_Stop (sv_ex sv) uid s1 of
        (Some stopErr, s2) \<Rightarrow> stop_jobs sv specs (Some (errors_join err stopErr)) s2
      | (None, s2) \<Rightarrow> stop_jobs sv specs err s2))" for uid s1
  proof -
    obtain p s2 where p: "e_Stop (sv_ex sv) uid s1 = (p, s2)" by force
    let ?err = "case p of None \<Rightarrow> err | Some e \<Rightarrow> Some (errors_join err e)"
    show ?thesis
      by (rule comes_to_next [of sv s1 _ "StopLook (looked @ [spec]) specs ?err" s2])
        (use p ih [of ?err s2] in \<open>simp_all split: option.splits\<close>)
  qed
  obtain q s1 where q: "core_Job (sv_uuid sv) (sv_db sv) (ex_ID spec) s = (q, s1)" by force
  show ?case
  proof (cases "\<exists>uid. q = Inr uid \<and> uid \<noteq> []")
    case True
    then obtain uid where "q = Inr uid" "uid \<noteq> []" by blast
    then show ?thesis
      using kill [of uid s1] q by (intro comes_to_next [of sv s _ "StopKill looked spec uid specs err" s1]) simp_all
  next
    case False
    let ?err = "case q of Inl e \<Rightarrow> if errors_is e io_EOF then err else Some (errors_join err e) | Inr uid \<Rightarrow> err"
    show ?thesis
      by (rule comes_to_next [of sv s _ "StopLook (looked @ [spec]) specs ?err" s1])
        (use False q ih [of ?err s1] in \<open>auto split: sum.splits\<close>)
  qed
qed

text \<open>A checkout ends with no answer of its own.\<close>

definition no_answer :: "unit outcome \<times> 's \<Rightarrow> unit outcome \<times> http_writer \<times> 's" where
  "no_answer res = (fst res, new_writer, snd res)"

lemma checkout_done_stages:
  "comes_to sv (CheckoutDone px cfg space) s (no_answer
     (case space_Save (px_uuid px) space (db_write (sv_db sv) (ec_CheckoutID cfg)) s of
        (None, s1) \<Rightarrow> (Returned (), s1)
      | (Some err, s1) \<Rightarrow>
          (case space_Fail (px_uuid px) space (db_write (sv_db sv) (ec_CheckoutID cfg)) err s1 of
             (Some failErr, s2) \<Rightarrow> (Returned (), s2)
           | (None, s2) \<Rightarrow> (Panicked ''nil pointer dereference'', s2))))"
proof -
  let ?w = "db_write (sv_db sv) (ec_CheckoutID cfg)"
  obtain r s1 where r: "space_Save (px_uuid px) space ?w s = (r, s1)" by force
  show ?thesis
  proof (cases r)
    case None
    then show ?thesis using r by - (rule comes_to_step, simp add: no_answer_def)
  next
    case (Some err)
    obtain q s2 where q: "space_Fail (px_uuid px) space ?w err s1 = (q, s2)" by force
    have "comes_to sv (CheckoutLast px cfg space err) s1 (no_answer
        (case q of Some failErr \<Rightarrow> (Returned (), s2) | None \<Rightarrow> (Panicked ''nil pointer dereference'', s2)))"
      by (rule comes_to_step) (simp add: q no_answer_def split: option.split)
    then show ?thesis using r q Some by - (rule comes_to_step, simp)
  qed
qed

lemma checkout_loop_stages:
  "comes_to sv (CheckoutNext px fresh cfg n i env space) s (no_answer
     (case checkout_loop px (sv_db sv) fresh cfg n i env space s of
        (Panicked p, s2) \<Rightarrow> (Panicked p, s2)
      | (Returned None, s2) \<Rightarrow> (Returned (), s2)
      | (Returned (Some space2), s2) \<Rightarrow>
          (let space3 = space2\<lparr>es_Status := status_Done,
                 es_Description := ''Execution spaces checked out successfully''\<rparr>
           in case space_Save (px_uuid px) space3 (db_write (sv_db sv) (ec_CheckoutID cfg)) s2 of
                (None, s3) \<Rightarrow> (Returned (), s3)
              | (Some err, s3) \<Rightarrow>
                  (case space_Fail (px_uuid px) space3 (db_write (sv_db sv) (ec_CheckoutID cfg)) err s3 of
                     (Some failErr, s4) \<Rightarrow> (Returned (), s4)
                   | (None, s4) \<Rightarrow> (Panicked ''nil pointer dereference'', s4)))))"
proof (induction n arbitrary: i env space s)
  case 0
  show ?case by (rule comes_to_step) (simp add: Let_def checkout_done_stages)
next
  case (Suc n)
  let ?new = "NewExecutorSpec (px_uuid px) (px_getenv px) (px_carrier px) (fresh i) (px_url px)
      (ec_ETOSIdentifier cfg) (ec_TestRunner cfg) env"
  show ?case
  proof (cases ?new)
    case (Panicked p)
    then show ?thesis by - (rule comes_to_step, simp add: no_answer_def)
  next
    case (Returned ee)
    then obtain ex env' where ex: "?new = Returned (ex, env')" by (cases ee) simp
    obtain r s1 where r: "core_SaveExecutor (px_uuid px) (sv_db sv) ex s = (r, s1)" by force
    show ?thesis
    proof (cases r)
      case None
      then show ?thesis
        using Suc.IH [of "Suc i" env' "space_Add (px_uuid px) ex space" s1] ex r
        by - (rule comes_to_step, simp)
    next
      case (Some err)
      have "comes_to sv (CheckoutFail px cfg sp err) s1
          (no_answer (Returned (), snd (space_Fail (px_uuid px) sp (db_write (sv_db sv) (ec_CheckoutID cfg)) err s1)))" for sp
        by (rule comes_to_step) (simp add: no_answer_def)
      then show ?thesis using ex r Some by - (rule comes_to_step, simp add: Let_def)
    qed
  qed
qed

lemma checkout_stages: "comes_to sv (CheckoutBegin px fresh cfg) s (no_answer (core_Checkout px (sv_db sv) fresh cfg s))"
proof -
  obtain r s1 where r: "space_Save (px_uuid px) (space_New (ec_CheckoutID cfg)) (db_write (sv_db sv) (ec_CheckoutID cfg)) s = (r, s1)"
    by force
  show ?thesis
  proof (cases r)
    case None
    have "comes_to sv (CheckoutNext px fresh cfg (nat (ec_Amount cfg)) 0 (ec_Environment cfg) (space_New (ec_CheckoutID cfg))) s1
        (no_answer (core_Checkout px (sv_db sv) fresh cfg s))"
      using checkout_loop_stages [of sv px fresh cfg "nat (ec_Amount cfg)" 0 "ec_Environment cfg" "space_New (ec_CheckoutID cfg)" s1]
      unfolding core_Checkout_def Let_def r None by simp
    then show ?thesis using r None by - (rule comes_to_step, simp add: Let_def)
  next
    case (Some err)
    then show ?thesis using r by - (rule comes_to_step, simp add: Let_def core_Checkout_def no_answer_def)
  qed
qed

text \<open>A request whose stages follow one another undisturbed is the handler of \<open>Provider_Service\<close>.\<close>

lemma stages_sequential:
  "comes_to sv (StartRead body) s (ExecutorStart sv body (new_writer, s))"
  "comes_to sv (StopLoad body) s (provider_Stop sv body (new_writer, s))"
  "comes_to sv (CheckoutBegin px fresh cfg) s (no_answer (core_Checkout px (sv_db sv) fresh cfg s))"
proof -
  show "comes_to sv (StopLoad body) s (provider_Stop sv body (new_writer, s))"
  proof (cases "LoadExecutorSpecs (sv_uuid sv) body")
    case (Inl e)
    then show ?thesis by - (rule comes_to_step, simp add: provider_Stop_def)
  next
    case (Inr specs)
    then show ?thesis
      using look_stages [of sv "[]" specs None s]
      by - (rule comes_to_step, auto simp: provider_Stop_def split: prod.splits option.splits)
  qed
qed (rule start_stages checkout_stages)+

subsection \<open>What a stage may do to the others\<close>

text \<open>
  The executor that a start has read and not saved yet, those that a stop has looked up and not deleted
  yet, and the job that nobody knows of but the goroutine.
\<close>

fun unsaved :: "stage \<Rightarrow> uuid option" where
  "unsaved (StartCreate spec) = Some (ex_ID spec)"
| "unsaved (StartWait spec n) = Some (ex_ID spec)"
| "unsaved (StartSave spec n) = Some (ex_ID spec)"
| "unsaved _ = None"

fun committed :: "stage \<Rightarrow> uuid list" where
  "committed (StopLook looked specs err) = map ex_ID looked"
| "committed (StopKill looked spec n specs err) = ex_ID spec # map ex_ID looked"
| "committed (StopDelete specs) = map ex_ID specs"
| "committed _ = []"

fun holds :: "stage \<Rightarrow> string option" where
  "holds (StartWait spec n) = Some n"
| "holds (StartCancel n err) = Some n"
| "holds (StartSave spec n) = Some n"
| "holds (StartUndo n) = Some n"
| "holds (Crashed p n) = Some n"
| "holds _ = None"

text \<open>The key that a checkout writes to next; its UUIDs are drawn so that no executor with a job has them.\<close>

fun writes_key :: "stage \<Rightarrow> uuid option" where
  "writes_key (CheckoutBegin px fresh cfg) = Some (ec_CheckoutID cfg)"
| "writes_key (CheckoutNext px fresh cfg (Suc n) i env space) = Some (fst (fresh i))"
| "writes_key (CheckoutFail px cfg space err) = Some (ec_CheckoutID cfg)"
| "writes_key (CheckoutDone px cfg space) = Some (ec_CheckoutID cfg)"
| "writes_key (CheckoutLast px cfg space err) = Some (ec_CheckoutID cfg)"
| "writes_key _ = None"

definition fresh_key :: "uuid_lib \<Rightarrow> (uuid \<Rightarrow> bytes option) \<Rightarrow> stage \<Rightarrow> bool" where
  "fresh_key L con t = (case writes_key t of None \<Rightarrow> True | Some u \<Rightarrow> stored_job L con u = None)"

definition live :: "uuid_lib \<Rightarrow> (uuid \<Rightarrow> bytes option) \<Rightarrow> string set \<Rightarrow> uuid \<Rightarrow> string \<Rightarrow> bool" where
  "live L con J u n = (stored_job L con u = Some n \<and> n \<in> J)"

definition gone :: "uuid_lib \<Rightarrow> (uuid \<Rightarrow> bytes option) \<Rightarrow> string set \<Rightarrow> executor_spec list \<Rightarrow> bool" where
  "gone L con J specs = (\<forall>spec \<in> set specs. \<forall>n. \<not> live L con J (ex_ID spec) n)"

fun stage_ok :: "(uuid \<Rightarrow> string) \<Rightarrow> uuid_lib \<Rightarrow> (uuid \<Rightarrow> bytes option) \<Rightarrow> string set \<Rightarrow> stage \<Rightarrow> bool" where
  "stage_ok job L con J (StartCreate spec) = executor_ok spec"
| "stage_ok job L con J (StartWait spec n) = (executor_ok spec \<and> n = job (ex_ID spec))"
| "stage_ok job L con J (StartSave spec n) = (executor_ok spec \<and> ex_BuildID spec = n \<and> n = job (ex_ID spec))"
| "stage_ok job L con J (StopLook looked specs None) = gone L con J looked"
| "stage_ok job L con J (StopKill looked spec n specs None) =
     (gone L con J looked \<and> (\<forall>m. live L con J (ex_ID spec) m \<longrightarrow> m = n))"
| "stage_ok job L con J (StopDelete specs) = gone L con J specs"
| "stage_ok job L con J (CheckoutBegin px fresh cfg) = (px_uuid px = L \<and> maps_ok (ec_Environment cfg))"
| "stage_ok job L con J (CheckoutNext px fresh cfg n i env space) = (px_uuid px = L \<and> maps_ok env)"
| "stage_ok job L con J (CheckoutFail px cfg space err) = (px_uuid px = L)"
| "stage_ok job L con J (CheckoutDone px cfg space) = (px_uuid px = L)"
| "stage_ok job L con J (CheckoutLast px cfg space err) = (px_uuid px = L)"
| "stage_ok job L con J _ = True"

text \<open>
  A job comes to life under an executor's record only by a start of that executor; and a job that is there
  afterwards was there and is still recorded where it was, or it is recorded, or the goroutine holds it.
\<close>

definition stage_effect ::
  "uuid_lib \<Rightarrow> (uuid \<Rightarrow> bytes option) \<Rightarrow> string set \<Rightarrow> (uuid \<Rightarrow> bytes option) \<Rightarrow> string set \<Rightarrow> stage \<Rightarrow> stage \<Rightarrow> bool" where
  "stage_effect L con J con' J' t t' =
     ((\<forall>u n. live L con' J' u n \<longrightarrow> live L con J u n \<or> unsaved t = Some u)
      \<and> (\<forall>n \<in> J'. n \<in> J \<and> holds t \<noteq> Some n \<and> (\<forall>u. stored_job L con u = Some n \<longrightarrow> stored_job L con' u = Some n)
           \<or> (\<exists>u. stored_job L con' u = Some n) \<or> holds t' = Some n))"

lemma effect_quiet:
  "con' = con \<Longrightarrow> J' \<subseteq> J \<Longrightarrow> (\<And>n. holds t = Some n \<Longrightarrow> n \<in> J' \<Longrightarrow> holds t' = Some n) \<Longrightarrow> stage_effect L con J con' J' t t'"
  unfolding stage_effect_def live_def by auto

lemma stage_ok_frame:
  assumes "stage_ok job L con J t" "stage_effect L con J con' J' t1 t1'"
    and "\<And>u. unsaved t1 = Some u \<Longrightarrow> u \<notin> set (committed t)"
  shows "stage_ok job L con' J' t"
proof -
  have l: "live L con' J' u n \<Longrightarrow> u \<in> set (committed t) \<Longrightarrow> live L con J u n" for u n
    using assms(2,3) unfolding stage_effect_def by blast
  show ?thesis
    using assms(1) l by (cases "(job, L, con', J', t)" rule: stage_ok.cases) (fastforce simp: gone_def)+
qed

context provider_world
begin

lemma write_cases:
  assumes "ok s" "db_write db u b s = (r, s')"
  shows "ok s' \<and> runner_ok s' = runner_ok s \<and> jobs s' = jobs s
    \<and> (contents s' = (contents s)(u \<mapsto> b) \<or> r \<noteq> None \<and> contents s' = contents s)"
  using write_done [OF assms(1)] write_failed [OF assms(1)] write_jobs [OF assms(2)] write_frame [OF assms] assms(2)
  by (cases r) blast+

text \<open>What the steps below assume of the service and of the world before a step.\<close>

definition conc_service :: "'s service \<Rightarrow> (uuid \<Rightarrow> string) \<Rightarrow> bool" where
  "conc_service sv job =
     (sv_db sv = db \<and> sv_ex sv = ex \<and> pure_fetch (sv_fetch sv) \<and> tidy ex runner_ok jobs job \<and> uuid_lawful (sv_uuid sv)
      \<and> inj job \<and> (\<forall>u. job u \<noteq> []) \<and> (\<forall>s. runner_ok s))"

definition step_ok :: "'s service \<Rightarrow> (uuid \<Rightarrow> string) \<Rightarrow> stage \<Rightarrow> 's \<Rightarrow> stage \<Rightarrow> 's \<Rightarrow> bool" where
  "step_ok sv job t s t' s' =
     (ok s' \<and> jobs_named job (sv_uuid sv) (contents s') \<and> stage_ok job (sv_uuid sv) (contents s') (jobs s') t'
      \<and> stage_effect (sv_uuid sv) (contents s) (jobs s) (contents s') (jobs s') t t')"

lemma quiet_step:
  assumes "jobs_named job (sv_uuid sv) (contents s)" "ok s'" "contents s' = contents s" "jobs s' \<subseteq> jobs s"
    and "stage_ok job (sv_uuid sv) (contents s) (jobs s') t'" "\<And>n. holds t = Some n \<Longrightarrow> n \<in> jobs s' \<Longrightarrow> holds t' = Some n"
  shows "step_ok sv job t s t' s'"
  unfolding step_ok_def using assms effect_quiet [of "contents s'" "contents s" "jobs s'" "jobs s" t t'] by simp

text \<open>\<open>n\<close> is stopped or cancelled.\<close>

lemma stop_step:
  assumes "conc_service sv job" "ok s" "e_Stop ex n s = (r, s') \<or> e_Cancel ex n s = (r, s')"
  shows "ok s' \<and> contents s' = contents s \<and> jobs s' \<subseteq> jobs s - {n}"
  using tidy_stop [of job s n "jobs s - {n}" r s'] assms unfolding conc_service_def by blast

lemma start_step:
  assumes "conc_service sv job" "ok s" "jobs_named job (sv_uuid sv) (contents s)"
    and "stage_next sv seen (StartRead body) s = (t', s')"
  shows "step_ok sv job (StartRead body) s t' s'"
proof (cases "\<exists>b doc uid. body = Inr b \<and> json_decode b = Inr doc
    \<and> fill_struct (assign_data (sv_uuid sv)) doc uuid_Nil = Inr uid")
  case False
  then have "s' = s" "\<exists>w. t' = Answered w" using assms(4) by (auto simp: Let_def split: sum.splits)
  then show ?thesis by (intro quiet_step) (use assms in auto)
next
  case True
  then obtain b doc uid where b: "body = Inr b" "json_decode b = Inr doc"
    "fill_struct (assign_data (sv_uuid sv)) doc uuid_Nil = Inr uid" by blast
  obtain q s1 where q: "db_read db uid s = (q, s1)" by force
  have "s' = s1" "(\<exists>w. t' = Answered w) \<or> (\<exists>spec. LoadExecutorSpec (sv_uuid sv) q = Inr spec \<and> t' = StartCreate spec)"
    using assms(1,4) q by (auto simp: b Let_def core_ExecutorSpec_def conc_service_def split: sum.splits)
  then show ?thesis
    using read_keeps [OF assms(2) q] read_jobs [OF q] LoadExecutorSpec_ok assms(3) by (intro quiet_step) auto
qed

lemma create_step:
  assumes "conc_service sv job" "ok s" "jobs_named job (sv_uuid sv) (contents s)"
    and "stage_ok job (sv_uuid sv) (contents s) (jobs s) (StartCreate spec)"
    and "stage_next sv seen (StartCreate spec) s = (t', s')"
  shows "step_ok sv job (StartCreate spec) s t' s'"
proof -
  have r: "runner_ok s" "inj job" "sv_ex sv = ex" "tidy ex runner_ok jobs job" using assms(1) by (auto simp: conc_service_def)
  obtain p s1 where p: "e_Start ex spec s = (p, s1)" by force
  show ?thesis
  proof (cases p)
    case (Inl err)
    then have "jobs s1 = jobs s" using r(4) p unfolding tidy_def by blast
    moreover have "s' = s1" "\<exists>w. t' = Answered w" using assms(5) p Inl r(3) by auto
    ultimately show ?thesis using start_store [OF p] assms(2,3) by (intro quiet_step) auto
  next
    case (Inr n)
    have t': "s' = s1" "t' = StartWait spec n" using assms(5) p Inr r(3) by auto
    have n: "n = job (ex_ID spec)" using r(4) p [unfolded Inr] unfolding tidy_def by blast
    have c: "ok s1" "contents s1 = contents s" "jobs s1 = insert n (jobs s)"
      using start_store [OF p] start_done [OF r(1) p [unfolded Inr]] assms(2) by simp_all
    have "live (sv_uuid sv) (contents s) (insert n (jobs s)) u m \<Longrightarrow> live (sv_uuid sv) (contents s) (jobs s) u m \<or> ex_ID spec = u" for u m
      using assms(3) n r(2) by (auto simp: live_def jobs_named_def dest: injD)
    then show ?thesis
      using c t' assms(3,4) n by (auto simp: step_ok_def stage_effect_def)
  qed
qed

lemma save_step:
  assumes "conc_service sv job" "ok s" "jobs_named job (sv_uuid sv) (contents s)"
    and "stage_ok job (sv_uuid sv) (contents s) (jobs s) (StartSave spec n)"
    and "stage_next sv seen (StartSave spec n) s = (t', s')"
  shows "step_ok sv job (StartSave spec n) s t' s'"
proof -
  let ?L = "sv_uuid sv" and ?u = "ex_ID spec"
  have r: "sv_db sv = db" "uuid_lawful ?L" "job ?u \<noteq> []" using assms(1) by (auto simp: conc_service_def)
  obtain p s1 where p: "db_write db ?u (executor_bytes ?L spec) s = (p, s1)" by force
  have t': "s' = s1" "t' = (if p = None then StartSubSuite spec n else StartUndo n)"
    using assms(5) p r(1) by (auto simp: core_SaveExecutor_def executor_Save_def split: option.splits)
  have ok': "stage_ok job ?L con J t'" for con J using t'(2) by simp
  note w = write_cases [OF assms(2) p]
  show ?thesis
  proof (cases "contents s1 = contents s \<and> p \<noteq> None")
    case True
    then show ?thesis using w t' ok' assms(3) by (intro quiet_step) auto
  next
    case False
    then have c: "contents s1 = (contents s)(?u \<mapsto> executor_bytes ?L spec)" using w by auto
    have new: "stored_job ?L (contents s1) ?u = Some (job ?u)"
      using stored_job_saved [OF r(2), of spec "contents s1" ?u] c assms(4) r(3) by simp
    have old: "stored_job ?L (contents s1) u = stored_job ?L (contents s) u" if "u \<noteq> ?u" for u
      using that c by (intro stored_job_cong) simp
    have named: "stored_job ?L (contents s) u = Some m \<Longrightarrow> m = job u" for u m using assms(3) unfolding jobs_named_def by blast
    have kept: "stored_job ?L (contents s) u = Some m \<Longrightarrow> stored_job ?L (contents s1) u = Some m" for u m
      using named [of u m] new old [of u] by (cases "u = ?u") auto
    have "stored_job ?L (contents s1) u = Some m \<Longrightarrow> m = job u" for u m
      using named [of u m] new old [of u] by (cases "u = ?u") auto
    then have "jobs_named job ?L (contents s1)" by (simp add: jobs_named_def)
    moreover have "live ?L (contents s1) (jobs s1) u m \<Longrightarrow> live ?L (contents s) (jobs s) u m \<or> ?u = u" for u m
      using old [of u] w by (auto simp: live_def)
    moreover have "\<exists>u. stored_job ?L (contents s1) u = Some n" using new assms(4) by auto
    ultimately show ?thesis
      using w t' ok' kept assms(4) by (auto simp: step_ok_def stage_effect_def)
  qed
qed

end

context provider_world
begin

lemma wait_step:
  assumes "conc_service sv job" "ok s" "jobs_named job (sv_uuid sv) (contents s)"
    and "stage_ok job (sv_uuid sv) (contents s) (jobs s) (StartWait spec n)"
    and "stage_next sv seen (StartWait spec n) s = (t', s')"
  shows "step_ok sv job (StartWait spec n) s t' s'"
proof -
  have r: "sv_ex sv = ex" "runner_ok s" "runner_ok seen" using assms(1) by (auto simp: conc_service_def)
  obtain v s1 where v: "e_Wait ex n s = (v, s1)" by force
  obtain q s2 where q: "e_Wait ex n seen = (q, s2)" by force
  have "s' = s1" using assms(5) v r(1) by (auto simp: Let_def split: outcome.splits sum.splits)
  moreover have "holds t' = Some n \<and> stage_ok job (sv_uuid sv) (contents s) (jobs s1) t'"
    using assms(4,5) q r(1) wait_name [OF r(3)] by (auto simp: Let_def executor_ok_def split: outcome.splits sum.splits)
  ultimately show ?thesis
    using wait_store [OF v] wait_keeps [OF r(2) v] assms(2,3) by (intro quiet_step) auto
qed

lemma sub_suite_step:
  assumes "conc_service sv job" "ok s" "jobs_named job (sv_uuid sv) (contents s)"
    and "stage_next sv seen (StartSubSuite spec n) s = (t', s')"
  shows "step_ok sv job (StartSubSuite spec n) s t' s'"
proof -
  have r: "pure_fetch (sv_fetch sv)" "runner_ok s" "sv_ex sv = ex" using assms(1) by (auto simp: conc_service_def)
  obtain v s1 where v: "waitStart (e_Alive ex) (sv_fetch sv) (sv_sdk sv) (sv_goer sv) (sv_attempts sv s)
      (new_suite_state spec) s = (v, s1)" by force
  have "s' = s1" "(\<exists>w. t' = Answered w) \<or> (\<exists>err. t' = StartAbort n err)"
    using assms(4) v r(3) by (auto simp: Let_def split: option.splits)
  then show ?thesis using waitStart_keeps [OF r(1,2) v] assms(2,3) by (intro quiet_step) auto
qed

lemma ending_step:
  assumes "conc_service sv job" "ok s" "jobs_named job (sv_uuid sv) (contents s)"
    and "t \<in> {StartCancel n err, StartUndo n, StartAbort n err}" "stage_next sv seen t s = (t', s')"
  shows "step_ok sv job t s t' s'"
proof -
  have "sv_ex sv = ex" using assms(1) by (simp add: conc_service_def)
  then have "s' = snd (e_Stop ex n s) \<or> s' = snd (e_Cancel ex n s)" using assms(4,5) by (auto simp: Let_def)
  then obtain r where "e_Stop ex n s = (r, s') \<or> e_Cancel ex n s = (r, s')" by (metis prod.collapse)
  note k = stop_step [OF assms(1,2) this]
  have "\<exists>w. t' = Answered w" using assms(4,5) by (auto simp: Let_def)
  then show ?thesis using k assms(3,4) by (intro quiet_step) auto
qed

lemma look_step:
  assumes "conc_service sv job" "ok s" "jobs_named job (sv_uuid sv) (contents s)"
    and "stage_ok job (sv_uuid sv) (contents s) (jobs s) (StopLook looked (spec # specs) err)"
    and "stage_next sv seen (StopLook looked (spec # specs) err) s = (t', s')"
  shows "step_ok sv job (StopLook looked (spec # specs) err) s t' s'"
proof -
  have r: "sv_db sv = db" using assms(1) by (simp add: conc_service_def)
  obtain q s1 where q: "core_Job (sv_uuid sv) db (ex_ID spec) s = (q, s1)" by force
  note k = Job_keeps [OF assms(2) q] and st = Job_stored [OF assms(2) q]
  have "s' = s1" using assms(5) q r by (auto split: sum.splits if_splits)
  moreover have "holds t' = None" using assms(5) q r by (auto split: sum.splits if_splits)
  moreover have "stage_ok job (sv_uuid sv) (contents s) (jobs s) t'"
    using assms(4,5) q r st
    by (cases err) (auto simp: gone_def live_def errors_join_def split: sum.splits if_splits)
  ultimately show ?thesis using k assms(2,3) by (intro quiet_step) auto
qed

lemma kill_step:
  assumes "conc_service sv job" "ok s" "jobs_named job (sv_uuid sv) (contents s)"
    and "stage_ok job (sv_uuid sv) (contents s) (jobs s) (StopKill looked spec n specs err)"
    and "stage_next sv seen (StopKill looked spec n specs err) s = (t', s')"
  shows "step_ok sv job (StopKill looked spec n specs err) s t' s'"
proof -
  have r: "sv_ex sv = ex" using assms(1) by (simp add: conc_service_def)
  obtain p s1 where p: "e_Stop ex n s = (p, s1)" by force
  note k = stop_step [OF assms(1,2) disjI1 [OF p]]
  have t': "s' = s1" "t' = StopLook (looked @ [spec]) specs (if p = None then err else Some (errors_join err (the p)))"
    using assms(5) p r by (auto split: option.splits)
  have "stage_ok job (sv_uuid sv) (contents s) (jobs s1) t'"
    unfolding t' using assms(4) k by (cases err; cases p) (auto simp: gone_def live_def)
  then show ?thesis using k t' assms(3) by (intro quiet_step) auto
qed

lemma delete_step:
  assumes "conc_service sv job" "ok s" "jobs_named job (sv_uuid sv) (contents s)"
    and "stage_ok job (sv_uuid sv) (contents s) (jobs s) (StopDelete (spec # specs))"
    and "stage_next sv seen (StopDelete (spec # specs)) s = (t', s')"
  shows "step_ok sv job (StopDelete (spec # specs)) s t' s'"
proof -
  let ?L = "sv_uuid sv" and ?u = "ex_ID spec"
  have r: "sv_db sv = db" using assms(1) by (simp add: conc_service_def)
  obtain p s1 where p: "db_write db ?u [] s = (p, s1)" by force
  note w = write_cases [OF assms(2) p]
  have t': "s' = s1" "(\<exists>w. t' = Answered w) \<or> t' = StopDelete specs"
    using assms(5) p r by (auto simp: executor_Delete_def split: option.splits)
  have gone: "gone ?L (contents s) (jobs s) (spec # specs)" using assms(4) by simp
  show ?thesis
  proof (cases "contents s1 = contents s")
    case True
    then show ?thesis using w t' gone assms(3) by (intro quiet_step) (auto simp: gone_def)
  next
    case False
    then have c: "contents s1 = (contents s)(?u \<mapsto> [])" using w by auto
    have none: "stored_job ?L (contents s1) ?u = None" using c by (intro stored_job_empty) simp
    have old: "stored_job ?L (contents s1) u = stored_job ?L (contents s) u" if "u \<noteq> ?u" for u
      using that c by (intro stored_job_cong) simp
    have less: "stored_job ?L (contents s1) u = Some m \<Longrightarrow> stored_job ?L (contents s) u = Some m" for u m
      using none old [of u] by (cases "u = ?u") auto
    have kept: "stored_job ?L (contents s1) u = Some m" if "stored_job ?L (contents s) u = Some m" "m \<in> jobs s" for u m
      using that old [of u] gone by (cases "u = ?u") (auto simp: gone_def live_def)
    have "jobs_named job ?L (contents s1)" using less assms(3) unfolding jobs_named_def by blast
    moreover have "gone ?L (contents s1) (jobs s1) specs" using gone less w by (auto simp: gone_def live_def)
    moreover have "stage_effect ?L (contents s) (jobs s) (contents s1) (jobs s1) (StopDelete (spec # specs)) t'"
    proof -
      have "live ?L (contents s1) (jobs s1) u m \<Longrightarrow> live ?L (contents s) (jobs s) u m" for u m
        using less w by (simp add: live_def)
      then show ?thesis using kept w unfolding stage_effect_def by simp
    qed
    ultimately show ?thesis using w t' by (auto simp: step_ok_def)
  qed
qed

lemma checkout_write:
  assumes "jobs_named job (sv_uuid sv) (contents s)" "fresh_key (sv_uuid sv) (contents s) t" "writes_key t = Some u"
    and "ok s' \<and> runner_ok s' = runner_ok s \<and> jobs s' = jobs s \<and> keys_only (sv_uuid sv) {u} (contents s) (contents s')"
    and "stage_ok job (sv_uuid sv) (contents s') (jobs s') t'"
  shows "step_ok sv job t s t' s'"
proof -
  let ?L = "sv_uuid sv"
  have none: "stored_job ?L (contents s) u = None" using assms(2,3) by (simp add: fresh_key_def)
  have eq: "stored_job ?L (contents s') v = stored_job ?L (contents s) v" for v
  proof (cases "contents s' v = contents s v")
    case False
    then show ?thesis using assms(4) none unfolding keys_only_def by fastforce
  qed (rule stored_job_cong)
  have h: "holds t = None" using assms(3) by (cases t) auto
  show ?thesis
    using assms(1,4,5) h by (simp add: step_ok_def jobs_named_def stage_effect_def live_def eq)
qed

lemma checkout_step:
  assumes "conc_service sv job" "ok s" "jobs_named job (sv_uuid sv) (contents s)"
    and "stage_ok job (sv_uuid sv) (contents s) (jobs s) t" "fresh_key (sv_uuid sv) (contents s) t"
    and "request_of t = CheckingOut" "checkout_next sv t s = (t', s')"
  shows "step_ok sv job t s t' s'"
proof -
  have r: "sv_db sv = db" "uuid_lawful (sv_uuid sv)" using assms(1) by (auto simp: conc_service_def)
  note written = checkout_write [OF assms(3,5)]
  note save = space_Save_frame [OF assms(2) _ _ r(2)]
  show ?thesis
  proof (cases t)
    case (CheckoutBegin px fresh cfg)
    then have L: "px_uuid px = sv_uuid sv" "maps_ok (ec_Environment cfg)" using assms(4) by auto
    obtain q s1 where q: "space_Save (sv_uuid sv) (space_New (ec_CheckoutID cfg)) (db_write db (ec_CheckoutID cfg)) s = (q, s1)"
      by force
    have "s' = s1" "\<And>con J. stage_ok job (sv_uuid sv) con J t'"
      using assms(7) q L r(1) by (auto simp: CheckoutBegin Let_def split: option.splits)
    then show ?thesis using save [OF q, of "{ec_CheckoutID cfg}"] CheckoutBegin by (intro written) auto
  next
    case (CheckoutNext px fresh cfg n i env space)
    then have L: "px_uuid px = sv_uuid sv" "maps_ok env" using assms(4) by auto
    show ?thesis
    proof (cases n)
      case 0
      then have "s' = s" "\<And>con J. stage_ok job (sv_uuid sv) con J t'" "holds t = None"
        using assms(7) L by (auto simp: CheckoutNext)
      then show ?thesis using assms(2,3) by (intro quiet_step) auto
    next
      case (Suc m)
      let ?new = "NewExecutorSpec (px_uuid px) (px_getenv px) (px_carrier px) (fresh i) (px_url px)
          (ec_ETOSIdentifier cfg) (ec_TestRunner cfg) env"
      show ?thesis
      proof (cases ?new)
        case (Panicked p)
        then have "s' = s" "t' = Ended (Panicked p)" using assms(7) by (auto simp: CheckoutNext Suc)
        then show ?thesis using assms(2,3) CheckoutNext by (intro quiet_step) auto
      next
        case (Returned ee)
        then obtain ex env' where ex: "?new = Returned (ex, env')" by (cases ee) simp
        note m = NewExecutorSpec_ok [OF L(2) ex]
        obtain q s1 where q: "core_SaveExecutor (sv_uuid sv) db ex s = (q, s1)" by force
        have "s' = s1" "\<And>con J. stage_ok job (sv_uuid sv) con J t'"
          using assms(7) ex q L(1) m r(1) by (auto simp: CheckoutNext Suc Let_def split: option.splits)
        moreover have "ok s1 \<and> runner_ok s1 = runner_ok s \<and> jobs s1 = jobs s
            \<and> keys_only (sv_uuid sv) {fst (fresh i)} (contents s) (contents s1)"
          by (rule SaveExecutor_frame [OF assms(2) q _ r(2)]) (use m in \<open>auto simp: made_for_def\<close>)
        ultimately show ?thesis using CheckoutNext Suc by (intro written) auto
      qed
    qed
  next
    case (CheckoutFail px cfg space err)
    then have L: "px_uuid px = sv_uuid sv" using assms(4) by auto
    obtain q s1 where q: "space_Fail (sv_uuid sv) space (db_write db (ec_CheckoutID cfg)) err s = (q, s1)" by force
    have "s' = s1" "\<And>con J. stage_ok job (sv_uuid sv) con J t'" using assms(7) q L r(1) by (auto simp: CheckoutFail)
    then show ?thesis
      using save [OF q [unfolded space_Fail_def], of "{ec_CheckoutID cfg}"] CheckoutFail by (intro written) auto
  next
    case (CheckoutDone px cfg space)
    then have L: "px_uuid px = sv_uuid sv" using assms(4) by auto
    obtain q s1 where q: "space_Save (sv_uuid sv) space (db_write db (ec_CheckoutID cfg)) s = (q, s1)" by force
    have "s' = s1" "\<And>con J. stage_ok job (sv_uuid sv) con J t'"
      using assms(7) q L r(1) by (auto simp: CheckoutDone split: option.splits)
    then show ?thesis using save [OF q, of "{ec_CheckoutID cfg}"] CheckoutDone by (intro written) auto
  next
    case (CheckoutLast px cfg space err)
    then have L: "px_uuid px = sv_uuid sv" using assms(4) by auto
    obtain q s1 where q: "space_Fail (sv_uuid sv) space (db_write db (ec_CheckoutID cfg)) err s = (q, s1)" by force
    have "s' = s1" "\<And>con J. stage_ok job (sv_uuid sv) con J t'"
      using assms(7) q L r(1) by (auto simp: CheckoutLast split: option.splits)
    then show ?thesis
      using save [OF q [unfolded space_Fail_def], of "{ec_CheckoutID cfg}"] CheckoutLast by (intro written) auto
  qed (use assms(6) in auto)
qed

lemma next_step:
  assumes "conc_service sv job" "ok s" "jobs_named job (sv_uuid sv) (contents s)"
    and "stage_ok job (sv_uuid sv) (contents s) (jobs s) t" "stage_next sv seen t s = (t', s')"
    and "fresh_key (sv_uuid sv) (contents s) t"
  shows "step_ok sv job t s t' s'"
proof (cases "request_of t = CheckingOut")
  case True
  then show ?thesis using checkout_step [OF assms(1-4,6)] assms(5) by simp
next
  case no_checkout: False
  show ?thesis
  proof (cases t)
    case (StopLoad body)
    then have "s' = s" "(\<exists>w. t' = Answered w) \<or> (\<exists>specs. t' = StopLook [] specs None)"
      using assms(5) by (auto split: sum.splits)
    then show ?thesis using StopLoad assms(2,3) by (intro quiet_step) (auto simp: gone_def)
  next
    case (StopLook looked specs err)
    show ?thesis
    proof (cases specs)
      case Nil
      then have "s' = s" "(\<exists>w. t' = Answered w) \<or> err = None \<and> t' = StopDelete looked"
        using assms(5) StopLook by (auto split: option.splits)
      then show ?thesis using StopLook assms(2-4) by (intro quiet_step) auto
    qed (use assms look_step StopLook in blast)
  next
    case (StopDelete specs)
    then show ?thesis
    proof (cases specs)
      case Nil
      then have "s' = s" "\<exists>w. t' = Answered w" using assms(5) StopDelete by auto
      then show ?thesis using StopDelete assms(2,3) by (intro quiet_step) auto
    qed (use assms delete_step in blast)
  next
    case (Answered w)
    then show ?thesis using assms by (intro quiet_step) auto
  next
    case (Crashed p n)
    then show ?thesis using assms by (intro quiet_step) auto
  next
    case (StartRead body)
    show ?thesis using start_step [OF assms(1-3)] assms(5) unfolding StartRead by blast
  next
    case (StartCreate spec)
    show ?thesis using create_step [OF assms(1-3)] assms(4,5) unfolding StartCreate by blast
  next
    case (StartWait spec n)
    show ?thesis using wait_step [OF assms(1-3)] assms(4,5) unfolding StartWait by blast
  next
    case (StartSave spec n)
    show ?thesis using save_step [OF assms(1-3)] assms(4,5) unfolding StartSave by blast
  next
    case (StartSubSuite spec n)
    show ?thesis using sub_suite_step [OF assms(1-3)] assms(5) unfolding StartSubSuite by blast
  next
    case (StopKill looked spec n specs err)
    show ?thesis using kill_step [OF assms(1-3)] assms(4,5) unfolding StopKill by blast
  next
    case (StartCancel n err)
    then show ?thesis using ending_step [OF assms(1-3) _ assms(5), of n err] by blast
  next
    case (StartUndo n)
    then show ?thesis using ending_step [OF assms(1-3) _ assms(5), of n] by blast
  next
    case (StartAbort n err)
    then show ?thesis using ending_step [OF assms(1-3) _ assms(5), of n err] by blast
  next
    case (Ended r)
    then show ?thesis using assms by (intro quiet_step) auto
  qed (use no_checkout in auto)
qed

end

subsection \<open>Requests in any interleaving\<close>

text \<open>\<open>(i, seen)\<close>: the goroutine \<open>i\<close> goes on, and sees \<open>seen\<close> if it waits.\<close>

fun conc_step :: "'s service \<Rightarrow> nat \<times> 's \<Rightarrow> stage list \<times> 's \<Rightarrow> (stage list \<times> 's) option" where
  "conc_step sv (i, seen) (ts, s) =
     (if i < length ts \<and> \<not> finished (ts ! i)
      then (case stage_next sv seen (ts ! i) s of (t', s') \<Rightarrow> Some (ts[i := t'], s'))
      else None)"

fun conc_run :: "'s service \<Rightarrow> (nat \<times> 's) list \<Rightarrow> stage list \<times> 's \<Rightarrow> (stage list \<times> 's) option" where
  "conc_run sv [] x = Some x"
| "conc_run sv (a # as) x = (case conc_step sv a x of None \<Rightarrow> None | Some x' \<Rightarrow> conc_run sv as x')"

text \<open>
  The runs that are considered.  No start is between reading its executor and saving it while a stop is between looking that executor
  up and deleting it, and a checkout writes to fresh keys.
\<close>

definition apart :: "stage list \<Rightarrow> bool" where
  "apart ts =
     list_all (\<lambda>t. case unsaved t of None \<Rightarrow> True | Some u \<Rightarrow> list_all (\<lambda>t'. u \<notin> set (committed t')) ts) ts"

fun apart_run :: "('s \<Rightarrow> uuid \<Rightarrow> bytes option) \<Rightarrow> 's service \<Rightarrow> (nat \<times> 's) list \<Rightarrow> stage list \<times> 's \<Rightarrow> bool" where
  "apart_run con sv [] x = True"
| "apart_run con sv (a # as) x =
     (apart (fst x)
      \<and> (case conc_step sv a x of
            None \<Rightarrow> True
          | Some x' \<Rightarrow> fresh_key (sv_uuid sv) (con (snd x)) (fst x ! fst a) \<and> apart_run con sv as x'))"

fun arriving :: "uuid_lib \<Rightarrow> stage \<Rightarrow> bool" where
  "arriving L (StartRead body) = True"
| "arriving L (StopLoad body) = True"
| "arriving L (CheckoutBegin px fresh cfg) = (px_uuid px = L \<and> maps_ok (ec_Environment cfg))"
| "arriving L _ = False"

lemma apartD: "apart ts \<Longrightarrow> t \<in> set ts \<Longrightarrow> t' \<in> set ts \<Longrightarrow> unsaved t = Some u \<Longrightarrow> u \<notin> set (committed t')"
  unfolding apart_def list_all_iff by fastforce

subsection \<open>Every request ends\<close>

text \<open>How many steps a goroutine can still take.\<close>

fun stage_rank :: "uuid_lib \<Rightarrow> stage \<Rightarrow> nat" where
  "stage_rank L (StartRead body) = 6"
| "stage_rank L (StartCreate spec) = 5"
| "stage_rank L (StartWait spec n) = 4"
| "stage_rank L (StartCancel n err) = 1"
| "stage_rank L (StartSave spec n) = 3"
| "stage_rank L (StartUndo n) = 1"
| "stage_rank L (StartSubSuite spec n) = 2"
| "stage_rank L (StartAbort n err) = 1"
| "stage_rank L (StopLoad body) =
     (case LoadExecutorSpecs L body of Inl err \<Rightarrow> 1 | Inr specs \<Rightarrow> 3 * length specs + 3)"
| "stage_rank L (StopLook looked specs err) = length looked + 3 * length specs + 2"
| "stage_rank L (StopKill looked spec n specs err) = length looked + 3 * length specs + 4"
| "stage_rank L (StopDelete specs) = length specs + 1"
| "stage_rank L (CheckoutBegin px fresh cfg) = nat (ec_Amount cfg) + 4"
| "stage_rank L (CheckoutNext px fresh cfg n i env space) = n + 3"
| "stage_rank L (CheckoutFail px cfg space err) = 1"
| "stage_rank L (CheckoutDone px cfg space) = 2"
| "stage_rank L (CheckoutLast px cfg space err) = 1"
| "stage_rank L _ = 0"

lemma start_next_rank:
  "\<not> finished t \<Longrightarrow> request_of t = Starting \<Longrightarrow> stage_rank L (fst (start_next sv seen t s)) < stage_rank L t"
  by (cases "(sv, seen, t, s)" rule: start_next.cases) (simp_all add: Let_def split: prod.split sum.split outcome.split option.split)

lemma stop_next_rank:
  "request_of t = Stopping \<Longrightarrow> stage_rank (sv_uuid sv) (fst (stop_next sv t s)) < stage_rank (sv_uuid sv) t"
  by (cases "(sv, t, s)" rule: stop_next.cases) (simp_all split: prod.split sum.split option.split)

lemma checkout_next_rank:
  "request_of t = CheckingOut \<Longrightarrow> stage_rank L (fst (checkout_next sv t s)) < stage_rank L t"
  by (cases "(sv, t, s)" rule: checkout_next.cases) (simp_all add: Let_def split: prod.split outcome.split option.split)

lemma conc_step_rank:
  assumes "conc_step sv (i, seen) (ts, s) = Some (ts', s')"
  shows "sum_list (map (stage_rank (sv_uuid sv)) ts') < sum_list (map (stage_rank (sv_uuid sv)) ts)"
proof -
  let ?r = "stage_rank (sv_uuid sv)"
  obtain t' where i: "i < length ts" "\<not> finished (ts ! i)" "stage_next sv seen (ts ! i) s = (t', s')" "ts' = ts[i := t']"
    using assms by (auto split: if_splits prod.splits)
  have "?r t' < ?r (ts ! i)"
    using i(2,3) start_next_rank [of "ts ! i" "sv_uuid sv" sv seen s] stop_next_rank [of "ts ! i" sv s]
      checkout_next_rank [of "ts ! i" "sv_uuid sv" sv s]
    by (cases "request_of (ts ! i)") auto
  moreover have "map ?r ts ! i \<le> sum_list (map ?r ts)" using i(1) by (intro elem_le_sum_list) simp
  ultimately show ?thesis using i(1) by (simp add: i(4) map_update sum_list_update)
qed

text \<open>No run is longer than the steps its goroutines can take, and one that cannot go on has finished all of them.\<close>

lemma requests_end:
  assumes "conc_run sv as (ts, s) = Some (ts', s')"
  shows "length as \<le> sum_list (map (stage_rank (sv_uuid sv)) ts)"
    and "(\<forall>a. conc_step sv a (ts', s') = None) \<longleftrightarrow> list_all finished ts'"
proof -
  have "conc_run sv as x = Some x' \<Longrightarrow>
      length as + sum_list (map (stage_rank (sv_uuid sv)) (fst x')) \<le> sum_list (map (stage_rank (sv_uuid sv)) (fst x))" for x x'
  proof (induction as arbitrary: x)
    case (Cons a as)
    obtain y where y: "conc_step sv a x = Some y" "conc_run sv as y = Some x'" using Cons.prems by (auto split: option.splits)
    have "sum_list (map (stage_rank (sv_uuid sv)) (fst y)) < sum_list (map (stage_rank (sv_uuid sv)) (fst x))"
      using conc_step_rank [of sv "fst a" "snd a" "fst x" "snd x" "fst y" "snd y"] y(1) by simp
    then show ?case using Cons.IH [OF y(2)] by simp
  qed simp
  from this [OF assms] show "length as \<le> sum_list (map (stage_rank (sv_uuid sv)) ts)" by simp
  show "(\<forall>a. conc_step sv a (ts', s') = None) \<longleftrightarrow> list_all finished ts'"
  proof -
    have "conc_step sv (i, seen) (ts', s') = None \<longleftrightarrow> (i < length ts' \<longrightarrow> finished (ts' ! i))" for i seen
      by (simp split: prod.split)
    then show ?thesis by (simp add: list_all_length split_paired_All del: conc_step.simps)
  qed
qed

subsection \<open>No job is lost\<close>

context provider_world
begin

definition conc_inv :: "'s service \<Rightarrow> (uuid \<Rightarrow> string) \<Rightarrow> string set \<Rightarrow> stage list \<times> 's \<Rightarrow> bool" where
  "conc_inv sv job J0 x =
     (ok (snd x) \<and> jobs_named job (sv_uuid sv) (contents (snd x))
      \<and> (\<forall>t \<in> set (fst x). stage_ok job (sv_uuid sv) (contents (snd x)) (jobs (snd x)) t)
      \<and> (\<forall>n \<in> jobs (snd x). n \<in> J0 \<or> (\<exists>u. stored_job (sv_uuid sv) (contents (snd x)) u = Some n)
           \<or> (\<exists>t \<in> set (fst x). holds t = Some n)))"

lemma conc_inv_step:
  assumes "conc_service sv job" "conc_inv sv job J0 (ts, s)" "apart ts" "conc_step sv (i, seen) (ts, s) = Some (ts', s')"
    and "fresh_key (sv_uuid sv) (contents s) (ts ! i)"
  shows "conc_inv sv job J0 (ts', s')"
proof -
  let ?L = "sv_uuid sv"
  obtain t' where i: "i < length ts" "stage_next sv seen (ts ! i) s = (t', s')" "ts' = ts[i := t']"
    using assms(4) by (auto split: if_splits prod.splits)
  let ?t = "ts ! i"
  have t: "?t \<in> set ts" using i(1) by simp
  have inv: "ok s" "jobs_named job ?L (contents s)" "\<And>t. t \<in> set ts \<Longrightarrow> stage_ok job ?L (contents s) (jobs s) t"
    "\<And>n. n \<in> jobs s \<Longrightarrow> n \<in> J0 \<or> (\<exists>u. stored_job ?L (contents s) u = Some n) \<or> (\<exists>t \<in> set ts. holds t = Some n)"
    using assms(2) by (auto simp: conc_inv_def)
  have st: "step_ok sv job ?t s t' s'" by (rule next_step [OF assms(1) inv(1,2) inv(3) [OF t] i(2) assms(5)])
  then have eff: "stage_effect ?L (contents s) (jobs s) (contents s') (jobs s') ?t t'" by (simp add: step_ok_def)
  have "stage_ok job ?L (contents s') (jobs s') x" if "x \<in> set ts" for x
    using stage_ok_frame [OF inv(3) [OF that] eff] apartD [OF assms(3) t that] by blast
  then have stages: "\<forall>x \<in> set ts'. stage_ok job ?L (contents s') (jobs s') x"
    using st set_update_subset_insert [of ts i t'] by (auto simp: i(3) step_ok_def)
  have mine: "t' \<in> set ts'" using i by (simp add: set_update_memI)
  have other: "x \<in> set ts'" if "x \<in> set ts" "x \<noteq> ?t" for x
    using that i by (metis in_set_conv_nth length_list_update nth_list_update_neq)
  have "n \<in> J0 \<or> (\<exists>u. stored_job ?L (contents s') u = Some n) \<or> (\<exists>x \<in> set ts'. holds x = Some n)"
    if n: "n \<in> jobs s'" for n
  proof -
    consider (kept) "n \<in> jobs s" "holds ?t \<noteq> Some n" "\<forall>u. stored_job ?L (contents s) u = Some n \<longrightarrow> stored_job ?L (contents s') u = Some n"
      | (recorded) "\<exists>u. stored_job ?L (contents s') u = Some n" | (held) "holds t' = Some n"
      using eff n unfolding stage_effect_def by blast
    then show ?thesis
    proof cases
      case kept
      then show ?thesis using inv(4) [OF kept(1)] other by metis
    qed (use mine in blast)+
  qed
  then show ?thesis using st stages by (simp add: conc_inv_def step_ok_def)
qed

lemma conc_inv_run:
  assumes "conc_service sv job" "conc_inv sv job J0 x" "apart_run contents sv as x" "conc_run sv as x = Some x'"
  shows "conc_inv sv job J0 x'"
  using assms(2-4)
proof (induction as arbitrary: x)
  case (Cons a as)
  then obtain y where y: "conc_step sv a x = Some y" "conc_run sv as y = Some x'" by (auto split: option.splits)
  then have "conc_inv sv job J0 y"
    using conc_inv_step [OF assms(1), of J0 "fst x" "snd x" "fst a" "snd a" "fst y" "snd y"] Cons.prems by simp
  then show ?case using Cons y by simp
qed simp

end

lemma etr_job_inj: "uuid_lawful L \<Longrightarrow> inj (etr_job L)"
  by (rule injI) (metis etr_job_def prod.inject same_append_eq uuid_lawfulD)


definition ex_start :: "string \<Rightarrow> stage" where
  "ex_start i = StartRead (Inr (json_enc (JObj [(''id'', JStr i)])))"

definition ex_stop :: stage where
  "ex_stop = StopLoad (Inr ex_stop_started)"

definition ex_turns :: "nat list \<Rightarrow> (nat \<times> ex_world) list" where
  "ex_turns is = map (\<lambda>i. (i, (Map.empty, {''etr-3'', ''etr-4''}))) is"

definition ex_apart :: "(nat \<times> ex_world) list" where
  "ex_apart = ex_turns [0, 2, 1, 0, 2, 1, 0, 1, 2, 0, 1, 2, 1, 0, 2]"

definition ex_goroutines :: "stage list" where
  "ex_goroutines = [ex_start ''4'', ex_stop, CheckoutBegin ex_ctx ex_ids ex_cfg]"

text \<open>What a run has come to: the status of the answers, the jobs, and the job that is stored with an executor.\<close>

definition ex_outcome :: "uuid \<Rightarrow> stage list \<times> ex_world \<Rightarrow> int option list \<times> string set \<times> string option" where
  "ex_outcome u x =
     (map (\<lambda>t. case t of Answered w \<Rightarrow> w_status w | _ \<Rightarrow> None) (fst x), snd (snd x),
      stored_job ex_uuid (etcd_contents ex_uuid ex_client (fst (snd x))) u)"


text \<open>
  Without that condition a job is lost: a stop looks the executor up before the start has saved it and deletes
  it afterwards.  Both requests are answered with no content, the job runs, and no executor names it.
\<close>

lemma stop_orphans_job:
  "map_option (ex_outcome 3) (conc_run ex_service (ex_turns [0, 0, 0, 1, 1, 0, 1, 1, 1, 0]) ([ex_start ''3'', ex_stop], ex_checked_out))
   = Some ([Some 204, Some 204], {''etr-3''}, None)"
  by code_simp

end
