(* ===== verification/Scope_Auth.thy ===== *)
theory Scope_Auth
  imports Go_Http
begin

text \<open>
  \<open>internal/authorization\<close>: scopes, and the authorizer that signs and verifies access tokens and
  guards handlers.  The JWT library is a parameter; the locale \<open>token_authority\<close> states what the
  guarded services rely on, and is interpreted on the authorizer.
\<close>

subsection \<open>Scopes\<close>

type_synonym scope = "string list"

definition CreateTestrun :: string where "CreateTestrun = ''post-testrun''"
definition StopTestrun :: string where "StopTestrun = ''delete-testrun''"
definition GetEnvironment :: string where "GetEnvironment = ''get-environment''"
definition StreamSSE :: string where "StreamSSE = ''get-sse''"
definition DefineSSE :: string where "DefineSSE = ''post-sse''"

definition AnonymousAccess :: scope where "AnonymousAccess = [CreateTestrun, StopTestrun, StreamSSE]"
definition AdminAccess :: scope where
  "AdminAccess = [CreateTestrun, StopTestrun, GetEnvironment, DefineSSE, StreamSSE]"

definition Format :: "scope \<Rightarrow> string" where
  "Format s = join_with '' '' s"

fun Has :: "scope \<Rightarrow> string \<Rightarrow> bool" where
  "Has [] v = False"
| "Has (sc # s) v = (if v = sc then True else Has s v)"

definition Parse :: "string \<Rightarrow> scope" where
  "Parse s = split_on CHR '' '' s"

lemma Has_iff [simp]: "Has s v \<longleftrightarrow> v \<in> set s"
  by (induction s) auto

text \<open>Scopes without blanks survive formatting; the empty scope is read back as the empty name.\<close>

lemma Parse_Format:
  "\<forall>v \<in> set s. CHR '' '' \<notin> set v \<Longrightarrow> Parse (Format s) = (if s = [] then [[]] else s)"
  using split_join_with [of s "CHR '' ''"] by (auto simp: Parse_def Format_def)

lemma Format_Parse [simp]: "Format (Parse s) = s"
  by (simp add: Parse_def Format_def)

lemma Parse_Format_Parse [simp]: "Parse (Format (Parse s)) = Parse s"
  by simp

subsection \<open>JSON web tokens\<close>

text \<open>
  \<open>golang-jwt\<close>: a token has its claims, which are a map for \<open>jwt.Parse\<close>, and whether it is
  valid.  \<open>j_sign\<close> is \<open>SignedString\<close> with EdDSA, which is deterministic, on the claims in the
  order of their names; \<open>j_parse\<close> takes the current time.
\<close>

type_synonym claims = "(string \<times> json) list"

record jwt_token =
  t_claims :: "claims option"
  t_valid :: bool

record ('pub, 'priv) jwt_lib =
  j_private :: "bytes \<Rightarrow> gerror + 'priv"
  j_public :: "bytes \<Rightarrow> gerror + 'pub"
  j_sign :: "'priv \<Rightarrow> claims \<Rightarrow> gerror + string"
  j_parse :: "'pub \<Rightarrow> string \<Rightarrow> int \<Rightarrow> gerror + jwt_token"
  j_pair :: "'pub \<Rightarrow> 'priv \<Rightarrow> bool"

definition ErrTokenInvalid :: gerror where "ErrTokenInvalid = Text ''invalid token''"
definition ErrTokenExpired :: gerror where "ErrTokenExpired = Sentinel ''token is expired''"

text \<open>
  The laws, for a key pair: what is parsed was signed with the private key and carries the claims it
  was signed with; a signed token parses until the time in its \<open>exp\<close> claim and is reported as
  expired from then on.
\<close>

definition exp_claim :: "claims \<Rightarrow> int option" where
  "exp_claim cl =
     (case map_of cl ''exp'' of
        Some (JNum l) \<Rightarrow> (case parse_int64 l of (n, None) \<Rightarrow> Some n | _ \<Rightarrow> None)
      | _ \<Rightarrow> None)"

definition jwt_lawful :: "('pub, 'priv) jwt_lib \<Rightarrow> bool" where
  "jwt_lawful J =
     ((\<forall>pub priv tok now t. j_pair J pub priv \<and> j_parse J pub tok now = Inr t \<longrightarrow>
          t_valid t \<and> (\<exists>cl. j_sign J priv cl = Inr tok \<and> t_claims t = Some cl
            \<and> (\<forall>e. exp_claim cl = Some e \<longrightarrow> now < e)))
      \<and> (\<forall>pub priv cl tok now e. j_pair J pub priv \<and> j_sign J priv cl = Inr tok \<and> exp_claim cl = Some e \<longrightarrow>
          (if now < e then j_parse J pub tok now = Inr \<lparr>t_claims = Some cl, t_valid = True\<rparr>
           else (\<exists>err. j_parse J pub tok now = Inl err \<and> errors_is err ErrTokenExpired))))"

subsection \<open>The authorizer\<close>

record ('pub, 'priv) authorizer =
  publicKey :: 'pub
  signingKey :: "'priv option"

definition NewAuthorizer :: "('pub, 'priv) jwt_lib \<Rightarrow> bytes \<Rightarrow> bytes \<Rightarrow> gerror + ('pub, 'priv) authorizer" where
  "NewAuthorizer J pub priv =
     (let public = (\<lambda>private. case j_public J pub of Inl err \<Rightarrow> Inl err
          | Inr k \<Rightarrow> Inr \<lparr>publicKey = k, signingKey = private\<rparr>)
      in if length priv > 0 then (case j_private J priv of Inl err \<Rightarrow> Inl err | Inr k \<Rightarrow> public (Some k))
         else public None)"

definition token_claims :: "string \<Rightarrow> scope \<Rightarrow> int \<Rightarrow> int \<Rightarrow> claims" where
  "token_claims identifier tokenScope expire iat =
     [(''aud'', JStr ''https://etos''), (''exp'', JNum (itoa expire)), (''iat'', JNum (itoa iat)),
      (''iss'', JStr ''https://etos''), (''scope'', JStr (Format tokenScope)), (''sub'', JStr identifier)]"

definition NewToken ::
  "('pub, 'priv) jwt_lib \<Rightarrow> ('pub, 'priv) authorizer \<Rightarrow> string \<Rightarrow> scope \<Rightarrow> int \<Rightarrow> int \<Rightarrow> gerror + string" where
  "NewToken J a identifier tokenScope expire iat =
     (case signingKey a of
        None \<Rightarrow> Inl (Text ''a private key must be provided to the authorizer to create new tokens'')
      | Some k \<Rightarrow> j_sign J k (token_claims identifier tokenScope expire iat))"

definition VerifyToken ::
  "('pub, 'priv) jwt_lib \<Rightarrow> ('pub, 'priv) authorizer \<Rightarrow> string \<Rightarrow> int \<Rightarrow> gerror + jwt_token" where
  "VerifyToken J a tokenString now =
     (case j_parse J (publicKey a) tokenString now of
        Inl err \<Rightarrow> Inl err
      | Inr token \<Rightarrow> (if \<not> t_valid token then Inl ErrTokenInvalid else Inr token))"

text \<open>\<open>tokenString[len("Bearer "):]\<close>, whose bound Go checks.\<close>

definition bearer :: string where "bearer = ''Bearer ''"

definition strip_bearer :: "string \<Rightarrow> string outcome" where
  "strip_bearer s =
     (if length s < length bearer then Panicked ''slice bounds out of range''
      else Returned (drop (length bearer) s))"

definition deny :: "int \<Rightarrow> string \<Rightarrow> http_writer \<Rightarrow> 's \<Rightarrow> unit outcome \<times> http_writer \<times> 's" where
  "deny code reason w s = (Returned (), write_body reason (write_header code w), s)"

text \<open>The guard from the verified token on, and the middleware around a handler \<open>fn\<close>.\<close>

definition permit ::
  "string \<Rightarrow> (scope \<Rightarrow> http_writer \<times> 's \<Rightarrow> unit outcome \<times> http_writer \<times> 's) \<Rightarrow> jwt_token
   \<Rightarrow> http_writer \<times> 's \<Rightarrow> unit outcome \<times> http_writer \<times> 's" where
  "permit permittedScope fn token rs =
     (case t_claims token of
        None \<Rightarrow> deny 401 ''no valid claims in token'' (fst rs) (snd rs)
      | Some cl \<Rightarrow>
          (case map_of cl ''scope'' of
             None \<Rightarrow> deny 401 ''no valid scope in token'' (fst rs) (snd rs)
           | Some (JStr scopeString) \<Rightarrow>
               (let s = Parse scopeString
                in if \<not> Has s permittedScope then deny 403 ''no permission to view this page'' (fst rs) (snd rs)
                   else fn s rs)
           | Some _ \<Rightarrow> deny 403 ''no valid scope in token'' (fst rs) (snd rs)))"

definition Middleware ::
  "(string \<Rightarrow> gerror + jwt_token) \<Rightarrow> string \<Rightarrow> (scope \<Rightarrow> http_writer \<times> 's \<Rightarrow> unit outcome \<times> http_writer \<times> 's)
   \<Rightarrow> string \<Rightarrow> http_writer \<times> 's \<Rightarrow> unit outcome \<times> http_writer \<times> 's" where
  "Middleware verify permittedScope fn authorization rs =
     (if authorization = [] then deny 401 ''Missing authorization header'' (fst rs) (snd rs)
      else (case strip_bearer authorization of
          Panicked p \<Rightarrow> (Panicked p, fst rs, snd rs)
        | Returned tokenString \<Rightarrow>
            (case verify tokenString of
               Inl err \<Rightarrow>
                 (if errors_is err ErrTokenExpired then deny 401 ''token has expired'' (fst rs) (snd rs)
                  else deny 401 ''invalid token'' (fst rs) (snd rs))
             | Inr token \<Rightarrow> permit permittedScope fn token rs)))"

lemma Middleware_bearer:
  "Middleware verify p fn (bearer @ tok) rs = (case verify tok of
       Inl err \<Rightarrow> if errors_is err ErrTokenExpired then deny 401 ''token has expired'' (fst rs) (snd rs)
                  else deny 401 ''invalid token'' (fst rs) (snd rs)
     | Inr token \<Rightarrow> permit p fn token rs)"
proof -
  have "bearer \<noteq> []" by (simp add: bearer_def)
  then show ?thesis by (simp add: Middleware_def strip_bearer_def)
qed

lemma deny_result: "w_status w = None \<Longrightarrow> \<exists>w'. deny c t w s = (Returned (), w', s) \<and> w_status w' = Some c"
  by (simp add: deny_def)

subsection \<open>What guarded services rely on\<close>

locale token_authority =
  fixes trusted :: bool
    and issue :: "string \<Rightarrow> scope \<Rightarrow> int \<Rightarrow> int \<Rightarrow> gerror + string"
    and verify :: "string \<Rightarrow> int \<Rightarrow> gerror + jwt_token"
    and signed :: "string \<Rightarrow> claims \<Rightarrow> bool"
  assumes issued_verifies: "trusted \<Longrightarrow> issue sub sc e iat = Inr tok \<Longrightarrow> int64_min \<le> e \<Longrightarrow> e \<le> int64_max \<Longrightarrow> now < e \<Longrightarrow>
        verify tok now = Inr \<lparr>t_claims = Some (token_claims sub sc e iat), t_valid = True\<rparr>"
    and issued_expires: "trusted \<Longrightarrow> issue sub sc e iat = Inr tok \<Longrightarrow> int64_min \<le> e \<Longrightarrow> e \<le> int64_max \<Longrightarrow> e \<le> now \<Longrightarrow>
        \<exists>err. verify tok now = Inl err \<and> errors_is err ErrTokenExpired"
    and verified_signed: "trusted \<Longrightarrow> verify tok now = Inr t \<Longrightarrow>
        \<exists>cl. t_claims t = Some cl \<and> signed tok cl \<and> (\<forall>e. exp_claim cl = Some e \<longrightarrow> now < e)"
begin

text \<open>An issued token opens exactly what its scope names, until it expires.\<close>

lemma issued_admits:
  assumes "trusted" "issue sub (Parse sc) e iat = Inr tok" "int64_min \<le> e" "e \<le> int64_max" "now < e"
  shows "Middleware (\<lambda>t. verify t now) p fn (bearer @ tok) rs =
    (if p \<in> set (Parse sc) then fn (Parse sc) rs else deny 403 ''no permission to view this page'' (fst rs) (snd rs))"
  using issued_verifies [OF assms]
  by (simp add: Middleware_bearer permit_def token_claims_def Let_def)

lemma issued_refused_late:
  assumes "trusted" "issue sub sc e iat = Inr tok" "int64_min \<le> e" "e \<le> int64_max" "e \<le> now"
  shows "Middleware (\<lambda>t. verify t now) p fn (bearer @ tok) rs = deny 401 ''token has expired'' (fst rs) (snd rs)"
  using issued_expires [OF assms] by (auto simp: Middleware_bearer)

text \<open>A request either reaches the handler with a signed, unexpired token for it, or it is denied.\<close>

lemma guard:
  assumes "trusted" "w_status w = None"
  shows "(\<exists>cl sc. signed (drop (length bearer) h) cl \<and> map_of cl ''scope'' = Some (JStr sc) \<and> p \<in> set (Parse sc)
        \<and> (\<forall>e. exp_claim cl = Some e \<longrightarrow> now < e)
        \<and> Middleware (\<lambda>t. verify t now) p fn h (w, s) = fn (Parse sc) (w, s))
    \<or> (\<exists>w'. Middleware (\<lambda>t. verify t now) p fn h (w, s) = (Returned (), w', s)
        \<and> w_status w' \<in> {Some 401, Some 403})
    \<or> (h \<noteq> [] \<and> length h < length bearer \<and> (\<exists>e. Middleware (\<lambda>t. verify t now) p fn h (w, s) = (Panicked e, w, s)))"
proof (cases "h = [] \<or> length h < length bearer")
  case True
  show ?thesis
  proof (cases "h = []")
    case True
    then show ?thesis using deny_result [OF assms(2), of 401 _ s] by (simp add: Middleware_def) blast
  next
    case False
    with True show ?thesis by (simp add: Middleware_def strip_bearer_def)
  qed
next
  case False
  let ?tok = "drop (length bearer) h" and ?m = "Middleware (\<lambda>t. verify t now) p fn h (w, s)"
  have denied: ?thesis if "?m = deny c reason w s" "c \<in> {401, 403}" for c reason
    using deny_result [OF assms(2), of c reason s] that by auto
  have m: "Middleware (\<lambda>t. verify t now) p fn h (w, s) = (case verify ?tok now of
      Inl err \<Rightarrow> if errors_is err ErrTokenExpired then deny 401 ''token has expired'' w s else deny 401 ''invalid token'' w s
    | Inr token \<Rightarrow> permit p fn token (w, s))"
    using False unfolding Middleware_def strip_bearer_def fst_conv snd_conv by (simp only: if_False outcome.case de_Morgan_disj if_not_P simp_thms)
  show ?thesis
  proof (cases "verify ?tok now")
    case (Inl err)
    then have "?m = deny 401 (if errors_is err ErrTokenExpired then ''token has expired'' else ''invalid token'') w s"
      unfolding m by simp
    then show ?thesis by (rule denied) simp
  next
    case (Inr t)
    from verified_signed [OF assms(1) this] obtain cl where
      cl: "t_claims t = Some cl" "signed ?tok cl" "\<forall>e. exp_claim cl = Some e \<longrightarrow> now < e" by blast
    show ?thesis
    proof (cases "\<exists>sc. map_of cl ''scope'' = Some (JStr sc) \<and> p \<in> set (Parse sc)")
      case True
      then show ?thesis unfolding m using cl Inr by (auto simp: permit_def Let_def)
    next
      case False
      have "\<exists>c reason. c \<in> {401, 403} \<and> permit p fn t (w, s) = deny c reason w s"
      proof (cases "map_of cl ''scope''")
        case None
        then show ?thesis using cl(1) by (auto simp: permit_def)
      next
        case (Some v)
        then show ?thesis using cl(1) False by (cases v) (auto simp: permit_def Let_def)
      qed
      then obtain c reason where "c \<in> {401, 403}" "permit p fn t (w, s) = deny c reason w s" by blast
      then show ?thesis by (intro denied [of c reason]) (simp_all add: m Inr)
    qed
  qed
qed

end

definition authorizer_trusted :: "('pub, 'priv) jwt_lib \<Rightarrow> ('pub, 'priv) authorizer \<Rightarrow> 'priv \<Rightarrow> bool" where
  "authorizer_trusted J a k =
     (jwt_lawful J \<and> j_pair J (publicKey a) k \<and> (\<forall>k'. signingKey a = Some k' \<longrightarrow> k' = k))"

lemma exp_token_claims:
  "int64_min \<le> e \<Longrightarrow> e \<le> int64_max \<Longrightarrow> exp_claim (token_claims sub sc e iat) = Some e"
  by (simp add: exp_claim_def token_claims_def parse_int64_itoa)

lemma jwt_lawfulD:
  assumes "jwt_lawful J" "j_pair J pub priv"
  shows "j_parse J pub tok now = Inr t \<Longrightarrow> t_valid t \<and> (\<exists>cl. j_sign J priv cl = Inr tok \<and> t_claims t = Some cl
            \<and> (\<forall>e. exp_claim cl = Some e \<longrightarrow> now < e))"
    and "j_sign J priv cl = Inr tok \<Longrightarrow> exp_claim cl = Some e \<Longrightarrow> now < e \<Longrightarrow>
          j_parse J pub tok now = Inr \<lparr>t_claims = Some cl, t_valid = True\<rparr>"
    and "j_sign J priv cl = Inr tok \<Longrightarrow> exp_claim cl = Some e \<Longrightarrow> e \<le> now \<Longrightarrow>
          \<exists>err. j_parse J pub tok now = Inl err \<and> errors_is err ErrTokenExpired"
proof -
  note law = assms(1) [unfolded jwt_lawful_def]
  show "j_parse J pub tok now = Inr t \<Longrightarrow> t_valid t \<and> (\<exists>cl. j_sign J priv cl = Inr tok \<and> t_claims t = Some cl
            \<and> (\<forall>e. exp_claim cl = Some e \<longrightarrow> now < e))"
    using law [THEN conjunct1] assms(2) by blast
  have "if now < e then j_parse J pub tok now = Inr \<lparr>t_claims = Some cl, t_valid = True\<rparr>
           else (\<exists>err. j_parse J pub tok now = Inl err \<and> errors_is err ErrTokenExpired)"
    if "j_sign J priv cl = Inr tok" "exp_claim cl = Some e"
    using law [THEN conjunct2] assms(2) that by blast
  then show "j_sign J priv cl = Inr tok \<Longrightarrow> exp_claim cl = Some e \<Longrightarrow> now < e \<Longrightarrow>
          j_parse J pub tok now = Inr \<lparr>t_claims = Some cl, t_valid = True\<rparr>"
    and "j_sign J priv cl = Inr tok \<Longrightarrow> exp_claim cl = Some e \<Longrightarrow> e \<le> now \<Longrightarrow>
          \<exists>err. j_parse J pub tok now = Inl err \<and> errors_is err ErrTokenExpired"
    by simp_all
qed

interpretation authorizer: token_authority "authorizer_trusted J a k" "NewToken J a" "VerifyToken J a"
  "\<lambda>tok cl. j_sign J k cl = Inr tok" for J a k
proof (unfold_locales, goal_cases)
  case (1 sub sc e iat tok now)
  then have "j_sign J k (token_claims sub sc e iat) = Inr tok"
    by (auto simp: NewToken_def authorizer_trusted_def split: option.splits)
  with 1 show ?case
    using jwt_lawfulD(2) [of J "publicKey a" k _ tok e now] exp_token_claims [of e sub sc iat]
    by (auto simp: authorizer_trusted_def VerifyToken_def)
next
  case (2 sub sc e iat tok now)
  then have "j_sign J k (token_claims sub sc e iat) = Inr tok"
    by (auto simp: NewToken_def authorizer_trusted_def split: option.splits)
  with 2 obtain err where "j_parse J (publicKey a) tok now = Inl err" "errors_is err ErrTokenExpired"
    using jwt_lawfulD(3) [of J "publicKey a" k _ tok e now] exp_token_claims [of e sub sc iat]
    by (auto simp: authorizer_trusted_def)
  then show ?case by (simp add: VerifyToken_def)
next
  case (3 tok now t)
  then have "j_parse J (publicKey a) tok now = Inr t"
    by (auto simp: VerifyToken_def split: sum.splits if_splits)
  with 3 show ?case using jwt_lawfulD(1) [of J "publicKey a" k tok now t] by (auto simp: authorizer_trusted_def)
qed

end
