(* ===== verification/Keys.thy ===== *)
theory Keys
  imports Scope_Auth Execution_Space
begin

text \<open>
  \<open>pkg/keys/v1alpha/keys.go\<close>: the service that hands out access tokens, and what such a token
  opens at the services that are guarded with it.
\<close>

record key_request =
  kr_Scope :: string
  kr_Identity :: string

definition assign_key_request :: "string \<Rightarrow> json \<Rightarrow> key_request \<Rightarrow> gerror + key_request" where
  "assign_key_request k v r =
     (let n = fold_name k in
      if n = ''scope'' then dec_field (\<lambda>v. dec_string v (kr_Scope r)) v (\<lambda>x. r\<lparr>kr_Scope := x\<rparr>)
      else if n = ''identity'' then dec_field (\<lambda>v. dec_string v (kr_Identity r)) v (\<lambda>x. r\<lparr>kr_Identity := x\<rparr>)
      else Inr r)"

text \<open>\<open>KeyResponse\<close>, whose empty fields are left out.\<close>

definition enc_key_response :: "string \<Rightarrow> string \<Rightarrow> json" where
  "enc_key_response token err =
     JObj ((if token = [] then [] else [(''token'', JStr token)]) @ (if err = [] then [] else [(''error'', JStr err)]))"

definition key_error :: "int \<Rightarrow> string \<Rightarrow> http_writer \<Rightarrow> http_writer" where
  "key_error code err w = write_body (json_enc (enc_key_response [] err)) (write_header code w)"

text \<open>The first requested scope that anonymous clients do not have.\<close>

fun refused_scope :: "scope \<Rightarrow> string option" where
  "refused_scope [] = None"
| "refused_scope (s # ss) = (if \<not> Has AnonymousAccess s then Some s else refused_scope ss)"

definition decode_key_request :: "(gerror + bytes) \<Rightarrow> gerror + key_request" where
  "decode_key_request body =
     (case body of Inl err \<Rightarrow> Inl err
      | Inr b \<Rightarrow> (case json_decode b of Inl err \<Rightarrow> Inl err
          | Inr doc \<Rightarrow> fill_struct assign_key_request doc \<lparr>kr_Scope = [], kr_Identity = []\<rparr>))"

definition token_lifetime :: int where "token_lifetime = 30 * 60"

definition CreateNew ::
  "(string \<Rightarrow> scope \<Rightarrow> int \<Rightarrow> int \<Rightarrow> gerror + string) \<Rightarrow> string \<Rightarrow> int \<Rightarrow> int \<Rightarrow> (gerror + bytes) \<Rightarrow> http_writer \<Rightarrow> http_writer" where
  "CreateNew issue identifier now iat body w =
     (case decode_key_request body of
        Inl err \<Rightarrow> key_error 400 ''must provide one or several scopes to access'' w
      | Inr keyRequest \<Rightarrow>
          (let requestedScope = Parse (kr_Scope keyRequest)
           in case refused_scope requestedScope of
                Some s \<Rightarrow> key_error 403 (''not allowed to request the '' @ [CHR 0x27] @ s @ [CHR 0x27] @ '' scope'') w
              | None \<Rightarrow>
                  (let w1 = set_header ''Content-Type'' ''application/json'' w
                   in case issue identifier requestedScope (now + token_lifetime) iat of
                        Inl err \<Rightarrow> key_error 500 ''could not create a new token'' w1
                      | Inr token \<Rightarrow> write_body (json_enc (enc_key_response token [])) (write_header 200 w1))))"

definition key_Selftest :: "http_writer \<Rightarrow> http_writer" where
  "key_Selftest w =
     write_header 204 (set_header ''X-Content-Type-Options'' ''nosniff''
       (set_header ''Content-Type'' ''text/plain; charset=utf-8'' w))"

lemma refused_scope_None: "refused_scope ss = None \<longleftrightarrow> set ss \<subseteq> set AnonymousAccess"
  by (induction ss) auto

lemma key_error_status [simp]: "w_status w = None \<Longrightarrow> w_status (key_error c e w) = Some c"
  by (simp add: key_error_def)

lemma CreateNew_created:
  assumes "w_status w = None" "w_status (CreateNew issue identifier now iat body w) = Some 200"
  shows "\<exists>r tok. decode_key_request body = Inr r \<and> set (Parse (kr_Scope r)) \<subseteq> set AnonymousAccess
    \<and> issue identifier (Parse (kr_Scope r)) (now + token_lifetime) iat = Inr tok
    \<and> w_body (CreateNew issue identifier now iat body w) = w_body w @ json_enc (enc_key_response tok [])"
proof -
  obtain r where r: "decode_key_request body = Inr r"
    using assms by (auto simp: CreateNew_def split: sum.splits)
  have s: "refused_scope (Parse (kr_Scope r)) = None"
    using assms r by (auto simp: CreateNew_def Let_def split: option.splits)
  obtain tok where t: "issue identifier (Parse (kr_Scope r)) (now + token_lifetime) iat = Inr tok"
    using assms r s by (auto simp: CreateNew_def Let_def split: sum.splits)
  show ?thesis
    using assms(1) r s t by (simp add: CreateNew_def Let_def refused_scope_None [symmetric] write_body_body body_allowed_def)
qed

subsection \<open>A concrete token library\<close>

definition ex_jwt :: "(unit, unit) jwt_lib" where
  "ex_jwt =
     \<lparr>j_private = (\<lambda>_. Inr ()), j_public = (\<lambda>_. Inr ()),
      j_sign = (\<lambda>_ cl. if json_unmarshal (json_enc (JObj cl)) = Inr (JObj cl) then Inr (json_enc (JObj cl))
                       else Inl (Text ''bad claims'')),
      j_parse = (\<lambda>_ tok now.
         case json_unmarshal tok of
           Inr (JObj cl) \<Rightarrow>
             (if json_enc (JObj cl) \<noteq> tok then Inl (Text ''bad signature'')
              else (case exp_claim cl of
                  Some e \<Rightarrow> (if now < e then Inr \<lparr>t_claims = Some cl, t_valid = True\<rparr>
                            else Inl (Wrapped ''token has invalid claims: '' ErrTokenExpired))
                | None \<Rightarrow> Inr \<lparr>t_claims = Some cl, t_valid = True\<rparr>))
         | _ \<Rightarrow> Inl (Text ''token is malformed'')),
      j_pair = (\<lambda>_ _. True)\<rparr>"

definition ex_authorizer :: "(unit, unit) authorizer" where
  "ex_authorizer = \<lparr>publicKey = (), signingKey = Some ()\<rparr>"

lemma ex_authorizer_trusted: "authorizer_trusted ex_jwt ex_authorizer ()"
  by (auto simp: authorizer_trusted_def jwt_lawful_def ex_jwt_def ex_authorizer_def ErrTokenExpired_def
      split: sum.splits json.splits if_splits option.splits)

subsection \<open>What tokens open\<close>


definition ex_key_body :: bytes where
  "ex_key_body = ''{\"scope\": \"get-sse post-testrun\", \"identity\": \"me\"}''"


text \<open>
  C15: A handler behind the middleware runs only for a request that carries a token signed with the
  authorizer's key, not expired, whose scope has the permitted one.  Every other request is answered
  401 or 403 and changes nothing, unless its header is shorter than the prefix that is cut from it:
  then the middleware panics.
\<close>

theorem middleware_guards:
  assumes "authorizer_trusted J a k" "w_status w = None"
  shows "(\<exists>cl sc. j_sign J k cl = Inr (drop (length bearer) h) \<and> map_of cl ''scope'' = Some (JStr sc) \<and> p \<in> set (Parse sc)
        \<and> (\<forall>e. exp_claim cl = Some e \<longrightarrow> now < e)
        \<and> Middleware (\<lambda>t. VerifyToken J a t now) p fn h (w, s) = fn (Parse sc) (w, s))
    \<or> (\<exists>w'. Middleware (\<lambda>t. VerifyToken J a t now) p fn h (w, s) = (Returned (), w', s)
        \<and> w_status w' \<in> {Some 401, Some 403})
    \<or> (h \<noteq> [] \<and> length h < length bearer
        \<and> (\<exists>e. Middleware (\<lambda>t. VerifyToken J a t now) p fn h (w, s) = (Panicked e, w, s)))"
  by (rule authorizer.guard [OF assms])

lemma middleware_guards_witness:
  "\<exists>w'. Middleware (\<lambda>t. VerifyToken ex_jwt ex_authorizer t 0) StreamSSE
        (\<lambda>_ (w, s). (Returned (), w, True)) ''Bearer forged'' (new_writer, False) = (Returned (), w', False)
    \<and> w_status w' \<in> {Some 401, Some 403}"
proof -
  let ?h = "''Bearer forged''"
  have nw: "w_status new_writer = None" by (simp add: new_writer_def)
  have "\<not> is_ok (VerifyToken ex_jwt ex_authorizer (drop (length bearer) ?h) 0)" by code_simp
  then have no: "j_sign ex_jwt () cl \<noteq> Inr (drop (length bearer) ?h) \<or> (\<exists>e. exp_claim cl = Some e \<and> \<not> 0 < e)" for cl
    by (auto simp: VerifyToken_def ex_jwt_def ex_authorizer_def split: if_splits option.splits)
  have len: "\<not> length ?h < length bearer" by (simp add: bearer_def)
  from middleware_guards [OF ex_authorizer_trusted nw, of ?h StreamSSE 0 "\<lambda>_ (w, s). (Returned (), w, True)" False] no len
  show ?thesis by blast
qed

text \<open>
  The key service refuses a request it cannot read with 400, one for a scope that anonymous
  clients do not have with 403, which a request without a scope is as well, and reports 500 when it
  has no signing key; it answers 200 exactly in the remaining cases.
\<close>

theorem key_request_statuses:
  assumes "w_status w = None"
  shows "w_status (CreateNew issue identifier now iat body w) =
    Some (case decode_key_request body of
        Inl _ \<Rightarrow> 400
      | Inr r \<Rightarrow>
          if kr_Scope r = [] \<or> \<not> set (Parse (kr_Scope r)) \<subseteq> {CreateTestrun, StopTestrun, StreamSSE} then 403
          else if is_ok (issue identifier (Parse (kr_Scope r)) (now + token_lifetime) iat) then 200 else 500)"
proof (cases "decode_key_request body")
  case (Inl e)
  then show ?thesis using assms by (simp add: CreateNew_def)
next
  case (Inr r)
  have e: "\<not> set (Parse []) \<subseteq> set AnonymousAccess"
    by (simp add: Parse_def AnonymousAccess_def CreateTestrun_def StopTestrun_def StreamSSE_def)
  have a: "set AnonymousAccess = {CreateTestrun, StopTestrun, StreamSSE}" by (simp add: AnonymousAccess_def)
  show ?thesis
  proof (cases "refused_scope (Parse (kr_Scope r))")
    case (Some s)
    then have "\<not> set (Parse (kr_Scope r)) \<subseteq> set AnonymousAccess"
      using refused_scope_None [of "Parse (kr_Scope r)"] by simp
    then show ?thesis using assms Inr Some by (simp add: CreateNew_def Let_def a)
  next
    case None
    then have s: "set (Parse (kr_Scope r)) \<subseteq> set AnonymousAccess" by (simp add: refused_scope_None)
    then have "kr_Scope r \<noteq> []" using e by auto
    then show ?thesis
      using assms Inr None s by (auto simp: CreateNew_def Let_def a split: sum.split)
  qed
qed

lemma key_request_statuses_witness:
  "w_status (CreateNew (NewToken ex_jwt ex_authorizer) [] 0 0 (Inr ''{\"scope\": \"post-sse\"}'') new_writer) = Some 403"
proof -
  have nw: "w_status new_writer = None" by (simp add: new_writer_def)
  have d: "decode_key_request (Inr ''{\"scope\": \"post-sse\"}'') = Inr \<lparr>kr_Scope = ''post-sse'', kr_Identity = []\<rparr>" by code_simp
  have "\<not> set (Parse ''post-sse'') \<subseteq> {CreateTestrun, StopTestrun, StreamSSE}" by code_simp
  then show ?thesis
    using key_request_statuses [OF nw, of "NewToken ex_jwt ex_authorizer" "[]" 0 0 "Inr ''{\"scope\": \"post-sse\"}''"]
    unfolding d by (simp only: sum.case key_request.select_convs simp_thms if_True)
qed

end
