(* ===== verification/Iut.thy ===== *)
theory Iut
  imports Provider_Service Provider_Props
begin

text \<open>
  \<open>pkg/iut/v1alpha1/v1alpha1.go\<close>: the IUT provider, which keeps the items under test of a test
  run in the database under the test run's ID.  The package URL library is a parameter: parsing of
  an identity, and the JSON form of a package URL.  Amounts so large that the slice does not fit
  in memory are left out.
\<close>

record 'p purl_lib =
  p_from :: "string \<Rightarrow> gerror + 'p"
  p_enc :: "'p \<Rightarrow> gerror + json"
  p_dec :: "json \<Rightarrow> gerror + 'p"

definition purl_lawful :: "'p purl_lib \<Rightarrow> bool" where
  "purl_lawful U = (\<forall>p j. p_enc U p = Inr j \<longrightarrow> json_wf j \<and> p_dec U j = Inr p)"

record iut_request =
  ir_MinimumAmount :: int
  ir_MaximumAmount :: int
  ir_ArtifactIdentity :: string
  ir_ArtifactID :: string
  ir_Context :: uuid

definition zero_iut :: iut_request where
  "zero_iut = \<lparr>ir_MinimumAmount = 0, ir_MaximumAmount = 0, ir_ArtifactIdentity = [], ir_ArtifactID = [],
     ir_Context = uuid_Nil\<rparr>"

text \<open>The dataset is a struct without fields.\<close>

definition assign_iut ::
  "uuid_lib \<Rightarrow> (string \<Rightarrow> json \<Rightarrow> gerror option) \<Rightarrow> string \<Rightarrow> json \<Rightarrow> iut_request \<Rightarrow> gerror + iut_request" where
  "assign_iut L eiffel k v r =
     (let n = fold_name k in
      if n = ''minimum_amount'' then dec_field (\<lambda>v. dec_int v (ir_MinimumAmount r)) v (\<lambda>x. r\<lparr>ir_MinimumAmount := x\<rparr>)
      else if n = ''maximum_amount'' then dec_field (\<lambda>v. dec_int v (ir_MaximumAmount r)) v (\<lambda>x. r\<lparr>ir_MaximumAmount := x\<rparr>)
      else if n = ''identity'' then dec_field (\<lambda>v. dec_string v (ir_ArtifactIdentity r)) v (\<lambda>x. r\<lparr>ir_ArtifactIdentity := x\<rparr>)
      else if n = ''artifact_id'' then dec_field (\<lambda>v. dec_string v (ir_ArtifactID r)) v (\<lambda>x. r\<lparr>ir_ArtifactID := x\<rparr>)
      else if n \<in> {''artifact_created'', ''artifact_published'', ''tercc''} then
        (case eiffel n v of Some err \<Rightarrow> Inl err | None \<Rightarrow> Inr r)
      else if n = ''context'' then dec_field (\<lambda>v. dec_uuid L v (ir_Context r)) v (\<lambda>x. r\<lparr>ir_Context := x\<rparr>)
      else if n = ''dataset'' then dec_field (\<lambda>v. fill_struct (\<lambda>_ _ u. Inr u) v ()) v (\<lambda>_. r)
      else Inr r)"

definition decode_iut ::
  "uuid_lib \<Rightarrow> (string \<Rightarrow> json \<Rightarrow> gerror option) \<Rightarrow> (gerror + bytes) \<Rightarrow> gerror + iut_request" where
  "decode_iut L eiffel body =
     (case body of Inl err \<Rightarrow> Inl err
      | Inr b \<Rightarrow> (case json_decode b of Inl err \<Rightarrow> Inl err
          | Inr doc \<Rightarrow> fill_struct (assign_iut L eiffel) doc zero_iut))"

text \<open>\<open>json.Marshal\<close> of a slice.\<close>

fun enc_all :: "('a \<Rightarrow> gerror + json) \<Rightarrow> 'a list \<Rightarrow> gerror + json list" where
  "enc_all enc [] = Inr []"
| "enc_all enc (x # xs) =
     (case enc x of Inl e \<Rightarrow> Inl e
      | Inr j \<Rightarrow> (case enc_all enc xs of Inl e \<Rightarrow> Inl e | Inr js \<Rightarrow> Inr (j # js)))"

definition enc_purls :: "'p purl_lib \<Rightarrow> 'p list option \<Rightarrow> gerror + json" where
  "enc_purls U ps =
     (case ps of None \<Rightarrow> Inr JNull
      | Some xs \<Rightarrow> (case enc_all (p_enc U) xs of Inl e \<Rightarrow> Inl e | Inr js \<Rightarrow> Inr (JArr js)))"

definition iut_Start ::
  "uuid_lib \<Rightarrow> (string \<Rightarrow> json \<Rightarrow> gerror option) \<Rightarrow> 'p purl_lib \<Rightarrow> 's opener \<Rightarrow> uuid \<Rightarrow> string \<Rightarrow> (gerror + bytes) \<Rightarrow> 's handler" where
  "iut_Start L eiffel U db checkOutID etosId body rs =
     (let (w, s) = rs in
      case u_parse L etosId of
        (_, Some err) \<Rightarrow> respond (RespondWithError 500 (err_string err)) w s
      | (identifier, None) \<Rightarrow>
          (let w1 = set_header ''Content-Type'' ''application/json'' (set_header ''X-Content-Type-Options'' ''nosniff'' w)
           in case decode_iut L eiffel body of
                Inl err \<Rightarrow> respond (RespondWithError 400 (err_string err)) w1 s
              | Inr startReq \<Rightarrow>
                  (case p_from U (ir_ArtifactIdentity startReq) of
                     Inl err \<Rightarrow> respond (RespondWithError 400 (err_string err)) w1 s
                   | Inr purl \<Rightarrow>
                       (if ir_MinimumAmount startReq < 0 then (Panicked ''makeslice: len out of range'', w1, s)
                        else (case enc_purls U (Some (replicate (nat (ir_MinimumAmount startReq)) purl)) of
                            Inl err \<Rightarrow> respond (RespondWithError 500 (err_string err)) w1 s
                          | Inr iuts \<Rightarrow>
                              (case db_write db identifier (json_enc iuts) s of
                                 (Some err, s1) \<Rightarrow> respond (RespondWithError 500 (err_string err)) w1 s1
                               | (None, s1) \<Rightarrow>
                                   respond (\<lambda>w. write_body (json_enc (JObj [(''id'', JStr (u_string L checkOutID))]))
                                      (write_header 200 w)) w1 s1))))))"

definition status_response :: "uuid_lib \<Rightarrow> uuid \<Rightarrow> json \<Rightarrow> json" where
  "status_response L uid iuts =
     JObj [(''id'', JStr (u_string L uid)), (''status'', JStr ''DONE''), (''iuts'', iuts)]"

text \<open>
  \<open>Status\<close> and \<open>Stop\<close> do not return when the test run's ID does not parse: they go on with
  what \<open>uuid.Parse\<close> gave, and write to a response that has its status already.
\<close>

definition bad_etos_id :: "uuid_lib \<Rightarrow> string \<Rightarrow> http_writer \<Rightarrow> http_writer" where
  "bad_etos_id L etosId w =
     (case snd (u_parse L etosId) of None \<Rightarrow> w | Some err \<Rightarrow> RespondWithError 500 (err_string err) w)"

definition iut_Status :: "uuid_lib \<Rightarrow> 'p purl_lib \<Rightarrow> 's opener \<Rightarrow> string \<Rightarrow> string \<Rightarrow> 's handler" where
  "iut_Status L U db etosId query rs =
     (let (w, s) = rs; w1 = bad_etos_id L etosId w in
      case db_read db (fst (u_parse L etosId)) s of
        (Inl err, s1) \<Rightarrow> respond (RespondWithError 500 (err_string err)) w1 s1
      | (Inr data, s1) \<Rightarrow>
          (case json_unmarshal data of
             Inl err \<Rightarrow> respond (RespondWithError 500 (err_string err)) w1 s1
           | Inr doc \<Rightarrow>
               (case dec_slice (p_dec U) doc of
                  Inl err \<Rightarrow> respond (RespondWithError 500 (err_string err)) w1 s1
                | Inr iuts \<Rightarrow>
                    (case enc_purls U iuts of
                       Inl err \<Rightarrow> respond (RespondWithError 500 (err_string err)) w1 s1
                     | Inr j \<Rightarrow>
                         respond (\<lambda>w. write_body (json_enc (status_response L (fst (u_parse L query)) j))
                           (write_header 200 w)) w1 s1))))"

definition iut_Stop :: "uuid_lib \<Rightarrow> 's opener \<Rightarrow> bool \<Rightarrow> string \<Rightarrow> 's handler" where
  "iut_Stop L db canDelete etosId rs =
     (let (w, s) = rs; w1 = bad_etos_id L etosId w; identifier = fst (u_parse L etosId) in
      case (if canDelete then db_delete db identifier s else db_write db identifier [] s) of
        (Some err, s1) \<Rightarrow> respond (RespondWithError 500 (err_string err)) w1 s1
      | (None, s1) \<Rightarrow> respond (write_header 204) w1 s1)"

definition iut_panicRecovery :: "string \<Rightarrow> 's handler \<Rightarrow> 's handler" where
  "iut_panicRecovery = panicRecovery"

lemma enc_all_replicate: "p_enc U p = Inr j \<Longrightarrow> enc_all (p_enc U) (replicate n p) = Inr (replicate n j)"
  by (induction n) auto

lemma dec_elems_replicate: "dec j = Inr p \<Longrightarrow> dec_elems dec (replicate n j) = Inr (replicate n p)"
  by (induction n) auto

lemma bad_etos_id_ok [simp]: "u_parse L t = (u, None) \<Longrightarrow> bad_etos_id L t w = w"
  by (simp add: bad_etos_id_def)

lemma bad_etos_id_status: "w_status w = None \<Longrightarrow> u_parse L t = (u, Some e) \<Longrightarrow> w_status (bad_etos_id L t w) = Some 500"
  by (simp add: bad_etos_id_def)

context reliable_store
begin

text \<open>What a start has stored is what a status lists, and after a stop there is nothing to list.\<close>

lemma iut_started:
  assumes "ok s" "purl_lawful U" "u_parse L etosId = (u, None)" "u \<noteq> uuid_Nil" "w_status w = None"
    and "decode_iut L eiffel body = Inr r" "p_from U (ir_ArtifactIdentity r) = Inr p" "p_enc U p = Inr j"
    and "0 \<le> ir_MinimumAmount r"
  shows "\<exists>w' s'. iut_Start L eiffel U db cid etosId body (w, s) = (Returned (), w', s') \<and> ok s' \<and> w_status w' = Some 200
    \<and> w_body w' = w_body w @ json_enc (JObj [(''id'', JStr (u_string L cid))])
    \<and> contents s' = (contents s)(u \<mapsto> json_enc (JArr (replicate (nat (ir_MinimumAmount r)) j)))"
proof -
  obtain s' where s': "db_write db u (json_enc (JArr (replicate (nat (ir_MinimumAmount r)) j))) s = (None, s')" "ok s'"
    "contents s' = (contents s)(u \<mapsto> json_enc (JArr (replicate (nat (ir_MinimumAmount r)) j)))"
    by (rule write_obtain [OF assms(1,4)], rule that) simp_all
  then show ?thesis
    using assms(3,5-9) enc_all_replicate [OF assms(8)]
    by (simp add: iut_Start_def enc_purls_def write_body_body body_allowed_def)
qed

lemma iut_status_lists:
  assumes "ok s" "purl_lawful U" "u_parse L etosId = (u, None)" "u \<noteq> uuid_Nil" "w_status w = None"
    and "contents s u = Some (json_enc (JArr (replicate n j)))" "p_enc U p = Inr j"
  shows "\<exists>w' s'. iut_Status L U db etosId query (w, s) = (Returned (), w', s') \<and> ok s' \<and> contents s' = contents s
    \<and> w_status w' = Some 200
    \<and> w_body w' = w_body w @ json_enc (status_response L (fst (u_parse L query)) (JArr (replicate n j)))"
proof -
  have wf: "json_wf j" "p_dec U j = Inr p" using assms(2,7) by (auto simp: purl_lawful_def)
  obtain s' where "db_read db u s = (Inr (case contents s u of None \<Rightarrow> [] | Some v \<Rightarrow> v), s')" "ok s'" "contents s' = contents s"
    by (rule read_obtain [OF assms(1,4)])
  then have s': "db_read db u s = (Inr (json_enc (JArr (replicate n j))), s')" "ok s'" "contents s' = contents s"
    unfolding assms(6) option.case by blast+
  have "json_unmarshal (json_enc (JArr (replicate n j))) = Inr (JArr (replicate n j))"
    using wf by (intro json_unmarshal_enc) simp
  then show ?thesis
    using s' assms(3,5) enc_all_replicate [OF assms(7)] dec_elems_replicate [where dec = "p_dec U", OF wf(2)]
    by (simp add: iut_Status_def dec_slice_def enc_purls_def write_body_body body_allowed_def)
qed

lemma iut_stopped:
  assumes "ok s" "u_parse L etosId = (u, None)" "w_status w = None"
    and "iut_Stop L db canDelete etosId (w, s) = (r, w', s')" "w_status w' = Some 204"
  shows "ok s' \<and> contents s' = (contents s)(u := (if canDelete then None else Some []))"
proof (cases canDelete)
  case True
  then obtain d where d: "db_delete db u s = (d, s')"
    using assms(2,4) by (auto simp: iut_Stop_def split: prod.splits option.splits)
  moreover have "d = None" using assms(2-5) d True by (cases d) (auto simp: iut_Stop_def)
  ultimately show ?thesis using delete_done [OF assms(1)] True by simp
next
  case False
  then obtain d where d: "db_write db u [] s = (d, s')"
    using assms(2,4) by (auto simp: iut_Stop_def split: prod.splits option.splits)
  moreover have "d = None" using assms(2-5) d False by (cases d) (auto simp: iut_Stop_def)
  ultimately show ?thesis using write_done [OF assms(1)] False by simp
qed

lemma iut_status_empty:
  assumes "ok s" "u_parse L etosId = (u, None)" "u \<noteq> uuid_Nil" "w_status w = None"
    and "contents s u \<in> {None, Some []}"
  shows "\<exists>w' s'. iut_Status L U db etosId query (w, s) = (Returned (), w', s') \<and> w_status w' = Some 500"
proof -
  obtain s' where "db_read db u s = (Inr (case contents s u of None \<Rightarrow> [] | Some v \<Rightarrow> v), s')"
    by (rule read_obtain [OF assms(1,3)])
  moreover have "(case contents s u of None \<Rightarrow> [] | Some v \<Rightarrow> v) = []" using assms(5) by auto
  moreover have "\<not> is_ok (json_unmarshal [])" by code_simp
  ultimately show ?thesis
    using assms(2,4) by (cases "json_unmarshal []") (auto simp: iut_Status_def)
qed

end

subsection \<open>Properties\<close>

text \<open>
  C21: On a database that serves its requests, a start with a valid identity stores as many package
  URLs as the minimum amount asks for; a status request for the test run then lists exactly them,
  whatever checkout ID it names; and after a stop that was answered with no content it is an error.
\<close>

theorem iut_lifecycle:
  assumes "etcd_lawful c" "etcd_reliable c" "uuid_lawful L" "db = etcd_opener L c e0" "purl_lawful U"
    and "u_parse L etosId = (u, None)" "u \<noteq> uuid_Nil"
    and "decode_iut L eiffel body = Inr r" "p_from U (ir_ArtifactIdentity r) = Inr p" "p_enc U p = Inr j"
    and "0 \<le> ir_MinimumAmount r" "\<forall>w \<in> {w1, w2, w3, w4}. w_status w = None"
  shows "\<exists>w1' s1 w2' s2. iut_Start L eiffel U db cid etosId body (w1, s) = (Returned (), w1', s1) \<and> w_status w1' = Some 200
    \<and> iut_Status L U db etosId query (w2, s1) = (Returned (), w2', s2) \<and> w_status w2' = Some 200
    \<and> w_body w2' = w_body w2 @ json_enc (status_response L (fst (u_parse L query)) (JArr (replicate (nat (ir_MinimumAmount r)) j)))
    \<and> (\<forall>x w3' s3. iut_Stop L db canDelete etosId (w3, s2) = (x, w3', s3) \<longrightarrow> w_status w3' = Some 204 \<longrightarrow>
          (\<exists>w4' s4. iut_Status L U db etosId query' (w4, s3) = (Returned (), w4', s4) \<and> w_status w4' = Some 500))"
proof -
  have ok: "etcd_lawful c \<and> uuid_lawful L \<and> etcd_reliable c" using assms(1-3) by simp
  have w: "w_status w1 = None" "w_status w2 = None" "w_status w3 = None" "w_status w4 = None" using assms(12) by simp_all
  obtain w1' s1 where st: "iut_Start L eiffel U db cid etosId body (w1, s) = (Returned (), w1', s1)" "w_status w1' = Some 200"
    "etcd_contents L c s1 = (etcd_contents L c s)(u \<mapsto> json_enc (JArr (replicate (nat (ir_MinimumAmount r)) j)))"
    using etcd_reliable.iut_started [OF ok assms(5-7) w(1) assms(8-11), of e0 cid s] assms(4) by auto
  obtain w2' s2 where sq: "iut_Status L U db etosId query (w2, s1) = (Returned (), w2', s2)" "w_status w2' = Some 200"
    "w_body w2' = w_body w2 @ json_enc (status_response L (fst (u_parse L query)) (JArr (replicate (nat (ir_MinimumAmount r)) j)))"
    using etcd_reliable.iut_status_lists [OF ok assms(5-7) w(2) _ assms(10), of s1 "nat (ir_MinimumAmount r)" e0 query]
      assms(4) st(3) by auto
  have "\<exists>w4' s4. iut_Status L U db etosId query' (w4, s3) = (Returned (), w4', s4) \<and> w_status w4' = Some 500"
    if "iut_Stop L db canDelete etosId (w3, s2) = (x, w3', s3)" "w_status w3' = Some 204" for x w3' s3
  proof -
    have "etcd_contents L c s3 u \<in> {None, Some []}"
      using etcd_reliable.iut_stopped [OF ok assms(6) w(3) that [unfolded assms(4)]] by simp
    from etcd_reliable.iut_status_empty [OF ok assms(6,7) w(4) this] show ?thesis using assms(4) by simp
  qed
  with st(1,2) sq show ?thesis by blast
qed

definition ex_purl :: "string purl_lib" where
  "ex_purl =
     \<lparr>p_from = (\<lambda>s. if has_prefix ''pkg:'' s then Inr (drop 4 s) else Inl (Text ''scheme is missing'')),
      p_enc = (\<lambda>p. Inr (JObj [(''Name'', JStr p)])),
      p_dec = (\<lambda>j. case j of JObj [(_, JStr p)] \<Rightarrow> Inr p | _ \<Rightarrow> Inl (Text ''not a package URL''))\<rparr>"

lemma ex_purl_lawful: "purl_lawful ex_purl"
  by (auto simp: purl_lawful_def ex_purl_def)

lemma iut_lifecycle_witness:
  "\<exists>w1' s1 w2' s2. iut_Start ex_uuid (\<lambda>_ _. None) ex_purl (etcd_opener ex_uuid ex_client (etcd_New [])) 9 ''7''
        (Inr ''{\"minimum_amount\": 2, \"identity\": \"pkg:a\"}'') (new_writer, Map.empty) = (Returned (), w1', s1)
    \<and> iut_Status ex_uuid ex_purl (etcd_opener ex_uuid ex_client (etcd_New [])) ''7'' ''9'' (new_writer, s1) = (Returned (), w2', s2)
    \<and> w_status w2' = Some 200
    \<and> w_body w2' = json_enc (status_response ex_uuid 9 (JArr [JObj [(''Name'', JStr ''a'')], JObj [(''Name'', JStr ''a'')]]))"
proof -
  let ?r = "zero_iut\<lparr>ir_MinimumAmount := 2, ir_ArtifactIdentity := ''pkg:a''\<rparr>"
  have d: "decode_iut ex_uuid (\<lambda>_ _. None) (Inr ''{\"minimum_amount\": 2, \"identity\": \"pkg:a\"}'') = Inr ?r" by code_simp
  have f: "p_from ex_purl (ir_ArtifactIdentity ?r) = Inr ''a''" by code_simp
  have e: "p_enc ex_purl ''a'' = Inr (JObj [(''Name'', JStr ''a'')])" by (simp add: ex_purl_def)
  have u: "u_parse ex_uuid ''7'' = (7, None)" "(7 :: uuid) \<noteq> uuid_Nil" "u_parse ex_uuid ''9'' = (9, None)" by code_simp+
  have nw: "0 \<le> ir_MinimumAmount ?r" "\<forall>w \<in> {new_writer, new_writer, new_writer, new_writer}. w_status w = None"
    by (simp_all add: new_writer_def)
  have two: "replicate (nat (ir_MinimumAmount ?r)) x = [x, x]" for x :: json by (simp add: numeral_2_eq_2)
  have b: "w_body new_writer @ y = y" for y by (simp add: new_writer_def)
  show ?thesis
    using iut_lifecycle [OF ex_client_lawful ex_uuid_lawful refl ex_purl_lawful u(1,2) d f e nw,
        of "etcd_New []" 9 Map.empty "''9''" True "[]"]
    unfolding two b u(3) fst_conv by (elim exE conjE) (intro exI conjI; assumption)
qed

text \<open>
  A stop request whose test run ID does not parse is answered 500, and yet removes what is
  stored under the ID that \<open>uuid.Parse\<close> gave back with its error.
\<close>

theorem iut_stop_bad_id_deletes:
  assumes "etcd_lawful c" "uuid_lawful L" "u_parse L etosId = (u, Some err)" "w_status w = None"
    and "db_delete (etcd_opener L c e0) u s = (None, s')"
  shows "\<exists>w'. iut_Stop L (etcd_opener L c e0) True etosId (w, s) = (Returned (), w', s') \<and> w_status w' = Some 500
    \<and> etcd_contents L c s' = (etcd_contents L c s)(u := None)"
  using assms(3-5) bad_etos_id_status [OF assms(4,3)] etcd_store.delete_done [of c L e0 u s s'] assms(1,2)
  by (simp add: iut_Stop_def)

definition ex_partial :: uuid_lib where
  "ex_partial = ex_uuid\<lparr>u_parse := (\<lambda>s. case dec_nat s of None \<Rightarrow> (7, Some (Text ''invalid UUID format'')) | Some n \<Rightarrow> (of_nat n, None))\<rparr>"

lemma iut_stop_bad_id_deletes_witness:
  "\<exists>w'. iut_Stop ex_partial (etcd_opener ex_partial ex_client (etcd_New [])) True ''7x'' (new_writer, [''/7'' \<mapsto> ''[]''])
      = (Returned (), w', Map.empty) \<and> w_status w' = Some 500"
proof -
  have "uuid_lawful ex_partial"
    using ex_uuid_lawful by (auto simp: uuid_lawful_def ex_partial_def ex_uuid_def split: option.splits prod.splits)
  moreover have "u_parse ex_partial ''7x'' = (7, Some (Text ''invalid UUID format''))" by code_simp
  moreover have "w_status new_writer = None" by (simp add: new_writer_def)
  moreover have "u_string ex_partial 7 = ''7''" by code_simp
  then have "db_delete (etcd_opener ex_partial ex_client (etcd_New [])) 7 [''/7'' \<mapsto> ''[]''] = (None, Map.empty)"
    by (simp add: etcd_opener_def etcd_Delete_def ex_client_def)
  ultimately show ?thesis using iut_stop_bad_id_deletes [OF ex_client_lawful(1)] by blast
qed

end
