(* ===== verification/Go_Os.thy ===== *)
theory Go_Os
  imports Etos_Prelude "HOL-Library.AList" "HOL-Library.Sublist"
begin

text \<open>
  What the sources use of the file system: a finite tree of directories and files, paths resolved
  component by component, and the calls of \<open>os\<close> that the log area makes.  There are no symbolic
  links; \<open>os_access\<close>, \<open>os_modify\<close> and \<open>os_open\<close> say which paths the process may look up,
  change and read, and \<open>os_stuck\<close> which ones cannot be removed.
\<close>

datatype fs_node = Dir int | File int bytes

fun mtime :: "fs_node \<Rightarrow> int" where
  "mtime (Dir m) = m" | "mtime (File m _) = m"

type_synonym path = "string list"
type_synonym fs_tree = "(path \<times> fs_node) list"

record os =
  os_cwd :: path
  os_access :: "path \<Rightarrow> gerror option"
  os_modify :: "path \<Rightarrow> gerror option"
  os_open :: "path \<Rightarrow> gerror option"
  os_stuck :: "path list"

definition ENOENT :: gerror where "ENOENT = Sentinel ''no such file or directory''"
definition ENOTDIR :: gerror where "ENOTDIR = Sentinel ''not a directory''"
definition EISDIR :: gerror where "EISDIR = Sentinel ''is a directory''"

definition is_dir :: "fs_tree \<Rightarrow> path \<Rightarrow> bool" where
  "is_dir t p = (case map_of t p of Some (Dir _) \<Rightarrow> True | _ \<Rightarrow> False)"

definition components :: "string \<Rightarrow> string list" where
  "components s = split_on CHR ''/'' s"

definition start_dir :: "os \<Rightarrow> string \<Rightarrow> path" where
  "start_dir K s = (if has_prefix ''/'' s then [] else os_cwd K)"

fun walk :: "os \<Rightarrow> fs_tree \<Rightarrow> path \<Rightarrow> string list \<Rightarrow> gerror + path" where
  "walk K t cur [] = Inr cur"
| "walk K t cur (c # cs) =
     (if \<not> is_dir t cur then Inl ENOTDIR
      else if c = [] \<or> c = ''.'' then walk K t cur cs
      else if c = ''..'' then walk K t (butlast cur) cs
      else (case os_access K (cur @ [c]) of
          Some e \<Rightarrow> Inl e
        | None \<Rightarrow> (if map_of t (cur @ [c]) = None then Inl ENOENT else walk K t (cur @ [c]) cs)))"

definition os_Stat :: "os \<Rightarrow> fs_tree \<Rightarrow> string \<Rightarrow> gerror + path \<times> fs_node" where
  "os_Stat K t s =
     (if s = [] then Inl ENOENT
      else (case walk K t (start_dir K s) (components s) of
          Inl e \<Rightarrow> Inl e
        | Inr p \<Rightarrow> (case map_of t p of None \<Rightarrow> Inl ENOENT | Some n \<Rightarrow> Inr (p, n))))"

definition touch :: "int \<Rightarrow> path \<Rightarrow> fs_tree \<Rightarrow> fs_tree" where
  "touch now p t = (if is_dir t p then AList.update p (Dir now) t else t)"

text \<open>\<open>os.MkdirAll\<close> keeps the directories it has made when a later one fails.\<close>

fun mkdirs :: "os \<Rightarrow> int \<Rightarrow> path \<Rightarrow> string list \<Rightarrow> fs_tree \<Rightarrow> gerror option \<times> fs_tree" where
  "mkdirs K now cur [] t = (if is_dir t cur then None else Some ENOTDIR, t)"
| "mkdirs K now cur (c # cs) t =
     (if \<not> is_dir t cur then (Some ENOTDIR, t)
      else if c = [] \<or> c = ''.'' then mkdirs K now cur cs t
      else if c = ''..'' then mkdirs K now (butlast cur) cs t
      else (case os_access K (cur @ [c]) of
          Some e \<Rightarrow> (Some e, t)
        | None \<Rightarrow>
            (if map_of t (cur @ [c]) = None
             then (case os_modify K (cur @ [c]) of
                 Some e \<Rightarrow> (Some e, t)
               | None \<Rightarrow> mkdirs K now (cur @ [c]) cs (AList.update (cur @ [c]) (Dir now) (touch now cur t)))
             else mkdirs K now (cur @ [c]) cs t)))"

definition os_MkdirAll :: "os \<Rightarrow> int \<Rightarrow> string \<Rightarrow> fs_tree \<Rightarrow> gerror option \<times> fs_tree" where
  "os_MkdirAll K now s t =
     (if s = [] then (Some ENOENT, t) else mkdirs K now (start_dir K s) (components s) t)"

text \<open>\<open>os.Create\<close>: the path of the new or truncated file.\<close>

definition os_Create :: "os \<Rightarrow> int \<Rightarrow> string \<Rightarrow> fs_tree \<Rightarrow> gerror + path \<times> fs_tree" where
  "os_Create K now s t =
     (case walk K t (start_dir K s) (butlast (components s)) of
        Inl e \<Rightarrow> Inl e
      | Inr d \<Rightarrow>
          (let c = hd (rev (components s)); p = d @ [c] in
           if \<not> is_dir t d then Inl ENOTDIR
           else if c = [] \<or> c = ''.'' \<or> c = ''..'' \<or> is_dir t p then Inl EISDIR
           else (case os_access K p of Some e \<Rightarrow> Inl e
             | None \<Rightarrow> (case os_modify K p of Some e \<Rightarrow> Inl e
                 | None \<Rightarrow> Inr (p, AList.update p (File now [])
                     (if map_of t p = None then touch now d t else t))))))"

text \<open>The entries of a directory with their nodes.\<close>

definition os_ReadDir :: "os \<Rightarrow> string \<Rightarrow> fs_tree \<Rightarrow> gerror + path \<times> (string \<times> fs_node) list" where
  "os_ReadDir K s t =
     (case os_Stat K t s of
        Inl e \<Rightarrow> Inl e
      | Inr (p, File _ _) \<Rightarrow> Inl ENOTDIR
      | Inr (p, Dir _) \<Rightarrow> Inr (p, map (\<lambda>(k, n). (hd (rev k), n)) (filter (\<lambda>(k, n). k \<noteq> [] \<and> butlast k = p) t)))"

text \<open>
  \<open>os.RemoveAll\<close> removes what it can and reports an error when something is left; the
  modification time of the directory above is not followed.
\<close>

definition remains :: "os \<Rightarrow> path \<Rightarrow> path \<Rightarrow> bool" where
  "remains K p k = (\<not> prefix p k \<or> list_ex (\<lambda>s. prefix k s) (os_stuck K))"

definition os_RemoveAll :: "os \<Rightarrow> string \<Rightarrow> fs_tree \<Rightarrow> gerror option \<times> fs_tree" where
  "os_RemoveAll K s t =
     (case os_Stat K t s of
        Inl e \<Rightarrow> (if e = ENOENT then None else Some e, t)
      | Inr (p, _) \<Rightarrow>
          (let t' = filter (\<lambda>(k, _). remains K p k) t
           in (if map_of t' p = None then None else Some (Text ''could not remove''), t')))"

subsection \<open>Growing trees\<close>

definition grows :: "fs_tree \<Rightarrow> fs_tree \<Rightarrow> bool" where
  "grows t t' = (\<forall>k. (is_dir t k \<longrightarrow> is_dir t' k) \<and> (map_of t k \<noteq> None \<longrightarrow> map_of t' k \<noteq> None))"

lemma grows_refl [simp]: "grows t t" by (simp add: grows_def)
lemma grows_trans: "grows t t' \<Longrightarrow> grows t' t'' \<Longrightarrow> grows t t''" by (auto simp: grows_def)

lemma map_of_upd: "map_of (AList.update k v t) = (map_of t)(k \<mapsto> v)"
  by (rule update_conv')

lemma is_dir_upd: "is_dir (AList.update k v t) p = (if p = k then (case v of Dir _ \<Rightarrow> True | File _ _ \<Rightarrow> False) else is_dir t p)"
  by (simp add: is_dir_def map_of_upd)

lemma is_dir_present: "is_dir t p \<Longrightarrow> map_of t p \<noteq> None"
  by (auto simp: is_dir_def split: option.splits)

lemma grows_upd: "\<not> is_dir t k \<or> (\<exists>m. v = Dir m) \<Longrightarrow> grows t (AList.update k v t)"
  by (auto simp: grows_def is_dir_upd map_of_upd)

lemma grows_touch [simp]: "grows t (touch now p t)"
  by (auto simp: touch_def intro: grows_upd)

lemma touch_map: "map_of (touch now p t) k = (if k = p \<and> is_dir t p then Some (Dir now) else map_of t k)"
  by (auto simp: touch_def map_of_upd)

lemma walk_grows: "walk K t cur cs = Inr d \<Longrightarrow> grows t t' \<Longrightarrow> walk K t' cur cs = Inr d"
  by (induction K t cur cs rule: walk.induct) (auto simp: grows_def split: if_splits option.splits)

lemma walk_append:
  "walk K t cur (xs @ ys) = (case walk K t cur xs of Inl e \<Rightarrow> Inl e | Inr d \<Rightarrow> walk K t d ys)"
  by (induction K t cur xs rule: walk.induct) (auto split: option.splits)

lemma mkdirs_done:
  "mkdirs K now cur cs t = (None, t') \<Longrightarrow> grows t t' \<and> (\<exists>d. walk K t' cur cs = Inr d \<and> is_dir t' d)"
proof (induction K now cur cs t rule: mkdirs.induct)
  case (1 K now cur t)
  then show ?case by (auto split: if_splits)
next
  case (2 K now cur c cs t)
  have cur: "is_dir t cur" using 2 by (auto split: if_splits)
  show ?case
  proof (cases "c = [] \<or> c = ''.''")
    case True
    with 2(1) [OF _ True] 2(5) cur have "grows t t'" "\<exists>d. walk K t' cur cs = Inr d \<and> is_dir t' d" by auto
    then show ?thesis using cur True by (auto simp: grows_def)
  next
    case dot: False
    show ?thesis
    proof (cases "c = ''..''")
      case True
      with 2(2) [OF _ dot True] 2(5) cur dot
      have "grows t t'" "\<exists>d. walk K t' (butlast cur) cs = Inr d \<and> is_dir t' d" by auto
      then show ?thesis using cur True by (auto simp: grows_def)
    next
      case False
      have acc: "os_access K (cur @ [c]) = None" using 2(5) cur dot False by (auto split: option.splits)
      define t1 where "t1 = (if map_of t (cur @ [c]) = None
          then AList.update (cur @ [c]) (Dir now) (touch now cur t) else t)"
      have run: "mkdirs K now (cur @ [c]) cs t1 = (None, t')"
        using 2(5) cur dot False acc by (auto simp: t1_def split: if_splits option.splits)
      have "grows t1 t' \<and> (\<exists>d. walk K t' (cur @ [c]) cs = Inr d \<and> is_dir t' d)"
      proof (cases "map_of t (cur @ [c]) = None")
        case True
        then have "os_modify K (cur @ [c]) = None" using 2(5) cur dot False acc by (auto split: option.splits)
        then show ?thesis using 2(3) [OF _ dot False acc True] run cur True by (simp add: t1_def)
      next
        case p: False
        then have "t1 = t" by (auto simp: t1_def)
        then show ?thesis using 2(4) [OF _ dot False acc p] run cur by simp
      qed
      moreover have "grows t t1" unfolding t1_def
        by (auto intro: grows_trans [OF grows_touch] grows_upd)
      moreover have "map_of t1 (cur @ [c]) \<noteq> None" by (simp add: t1_def map_of_upd)
      ultimately show ?thesis using cur dot False acc by (auto simp: grows_def)
    qed
  qed
qed

text \<open>Making directories without climbing changes nothing outside of the directory one is in.\<close>

lemma mkdirs_inside:
  assumes "''..'' \<notin> set cs" "mkdirs K now cur cs t = (r, t')" "\<not> prefix cur k"
  shows "map_of t' k = map_of t k"
  using assms
proof (induction K now cur cs t rule: mkdirs.induct)
  case (2 K now cur c cs t)
  have far: "\<not> prefix (cur @ [c]) k" using 2(7) by (auto dest: append_prefixD)
  have far2: "k \<noteq> cur" "k \<noteq> cur @ [c]" using 2(7) by auto
  show ?case
    using 2(1-6) far 2(7) far2
    by (auto simp: map_of_upd touch_map split: if_splits option.splits)
qed auto

lemma walk_inside: "''..'' \<notin> set cs \<Longrightarrow> walk K t cur cs = Inr d \<Longrightarrow> prefix cur d"
  by (induction K t cur cs rule: walk.induct) (auto dest: append_prefixD split: if_splits option.splits)

lemma mkdirs_append:
  "walk K t cur xs = Inr d \<Longrightarrow> mkdirs K now cur (xs @ ys) t = mkdirs K now d ys t"
  by (induction K t cur xs rule: walk.induct) (auto split: if_splits option.splits)

lemma split_on_joined: "split_on c (x @ c # y) = split_on c x @ split_on c y"
  by (induction x) (auto split: list.splits)

lemma components_append: "components (x @ ''/'' @ y) = components x @ components y"
  by (simp add: components_def split_on_joined)

lemma components_join: "xs \<noteq> [] \<Longrightarrow> \<forall>x \<in> set xs. CHR ''/'' \<notin> set x \<Longrightarrow> components (join_with ''/'' xs) = xs"
  by (simp add: components_def split_join_with)

lemma components_free: "x \<in> set (components s) \<Longrightarrow> CHR ''/'' \<notin> set x"
  by (auto simp: components_def dest: split_on_free)

lemma components_not_Nil [simp]: "components s \<noteq> []"
  by (simp add: components_def)

end
