(* ===== verification/Log_Area.thy ===== *)
theory Log_Area
  imports Go_Os Go_Http
begin

text \<open>
  \<open>pkg/logarea/v1alpha\<close>: the service that stores uploaded logs below its upload path and serves
  them again, and the retention handler that removes old ones.  \<open>http.ServeFile\<close> is modelled for
  requests without ranges and conditions on the route's own URL.
\<close>

definition join_path :: "string \<Rightarrow> string \<Rightarrow> string" where
  "join_path uploadPath path = join_with ''/'' [uploadPath, path]"

definition ServeFile :: "os \<Rightarrow> string \<Rightarrow> path \<Rightarrow> fs_node \<Rightarrow> http_writer \<Rightarrow> http_writer" where
  "ServeFile K rawQuery p n w =
     (case os_open K p of
        Some _ \<Rightarrow> http_Error ''403 Forbidden'' 403 w
      | None \<Rightarrow>
          (case n of
             Dir _ \<Rightarrow> write_header 301 (set_header ''Location'' (''upload/?'' @ rawQuery) w)
           | File _ b \<Rightarrow> write_body b (write_header 200 w)))"

definition Download :: "os \<Rightarrow> string \<Rightarrow> string \<Rightarrow> string \<Rightarrow> string \<Rightarrow> http_writer \<times> fs_tree \<Rightarrow> http_writer" where
  "Download K uploadPath path contentType rawQuery rs =
     (if path = [] then RespondWithError 400 ''missing path query parameter'' (fst rs)
      else (let full = join_path uploadPath path; filename = hd (rev (components full))
        in case os_Stat K (snd rs) full of
             Inr (p, n) \<Rightarrow>
               ServeFile K rawQuery p n (set_header ''Content-Type'' contentType
                 (set_header ''Content-Disposition'' (''attachment; filename='' @ filename) (fst rs)))
           | Inl err \<Rightarrow>
               (if err = ENOENT then RespondWithError 404 ''file not found'' (fst rs)
                else RespondWithError 500 ''unknown error, please contact maintainers'' (fst rs))))"

text \<open>\<open>copied\<close> is what \<open>io.Copy\<close> took from the request's body, and its error.\<close>

definition Upload ::
  "os \<Rightarrow> string \<Rightarrow> int \<Rightarrow> string \<Rightarrow> bytes \<times> gerror option \<Rightarrow> http_writer \<times> fs_tree \<Rightarrow> http_writer \<times> fs_tree" where
  "Upload K uploadPath now path copied rs =
     (let (w, t) = rs in
      if path = [] then (RespondWithError 400 ''missing path query parameter'' w, t)
      else (let full = join_path uploadPath path; directory = join_with ''/'' (butlast (components full))
        in case os_MkdirAll K now directory t of
             (Some err, t1) \<Rightarrow> (RespondWithError 500 ''could not create the log directory'' w, t1)
           | (None, t1) \<Rightarrow>
               (case os_Create K now full t1 of
                  Inl err \<Rightarrow> (RespondWithError 500 ''could not create file on server'' w, t1)
                | Inr (p, t2) \<Rightarrow>
                    (let t3 = AList.update p (File now (fst copied)) t2
                     in case snd copied of
                          Some err \<Rightarrow> (RespondWithError 500 ''could not create file on server'' w, t3)
                        | None \<Rightarrow>
                            (RespondWithJSON 200 (JObj [(''bytes'', JStr (itoa (int (length (fst copied)))))]) w, t3)))))"

definition logarea_Selftest :: "http_writer \<Rightarrow> http_writer" where
  "logarea_Selftest w = write_header 204 w"

subsection \<open>Where an upload goes\<close>

lemma full_components: "components (join_path u p) = components u @ components p"
  using components_append [of u p] by (simp add: join_path_def)

lemma join_with_append: "xs \<noteq> [] \<Longrightarrow> ys \<noteq> [] \<Longrightarrow> join_with s (xs @ ys) = join_with s xs @ s @ join_with s ys"
proof (induction xs)
  case (Cons x xs)
  then show ?case by (cases "xs = []"; cases ys) (auto simp: join_with_Cons)
qed simp

lemma join_components: "join_with ''/'' (components u) = u"
  by (simp add: components_def)

lemma upload_directory:
  assumes "u \<noteq> []"
  shows "components (join_with ''/'' (butlast (components (join_path u p)))) = components u @ butlast (components p)"
    and "start_dir K (join_with ''/'' (butlast (components (join_path u p)))) = start_dir K u"
    and "join_with ''/'' (butlast (components (join_path u p))) \<noteq> []"
    and "start_dir K (join_path u p) = start_dir K u"
proof -
  have b: "butlast (components (join_path u p)) = components u @ butlast (components p)"
    by (simp add: full_components butlast_append)
  then show "components (join_with ''/'' (butlast (components (join_path u p)))) = components u @ butlast (components p)"
    using components_free [of _ u] components_free [of _ p]
    by (subst components_join) (auto dest: in_set_butlastD)
  have d: "join_with ''/'' (butlast (components (join_path u p)))
      = u @ (if butlast (components p) = [] then [] else ''/'' @ join_with ''/'' (butlast (components p)))"
    unfolding b by (simp add: join_with_append join_components)
  show "join_with ''/'' (butlast (components (join_path u p))) \<noteq> []" using assms by (simp add: d)
  have st: "start_dir K (u @ x) = start_dir K u" for x
    using assms by (cases u) (simp_all add: start_dir_def has_prefix_def)
  show "start_dir K (join_with ''/'' (butlast (components (join_path u p)))) = start_dir K u"
    and "start_dir K (join_path u p) = start_dir K u"
    by (simp only: d st, simp only: join_path_def join_with.simps st)
qed

lemma mkdirs_keeps_files:
  "mkdirs K now cur cs t = (r, t') \<Longrightarrow> map_of t k = Some (File m b) \<Longrightarrow> map_of t' k = Some (File m b)"
proof (induction K now cur cs t rule: mkdirs.induct)
  case (2 K now cur c cs t)
  have "map_of (AList.update (cur @ [c]) (Dir now) (touch now cur t)) k = Some (File m b)"
    if "map_of t (cur @ [c]) = None" "is_dir t cur"
    using that 2(6) by (auto simp: map_of_upd touch_map is_dir_def)
  then show ?case
    using 2(1-6) by (auto split: if_splits option.splits)
qed auto

text \<open>An upload that is answered 200, in terms of the calls it made.\<close>

lemma Upload_done:
  assumes "w_status w = None" "Upload K u now p copied (w, t) = (w', t')" "w_status w' = Some 200"
  obtains t1 t2 k where "p \<noteq> []" "os_MkdirAll K now (join_with ''/'' (butlast (components (join_path u p)))) t = (None, t1)"
    "os_Create K now (join_path u p) t1 = Inr (k, t2)" "t' = AList.update k (File now (fst copied)) t2" "snd copied = None"
proof -
  have p: "p \<noteq> []" using assms by (auto simp: Upload_def)
  obtain r t1 where m: "os_MkdirAll K now (join_with ''/'' (butlast (components (join_path u p)))) t = (r, t1)" by force
  have r: "r = None" using assms p m by (cases r) (auto simp: Upload_def)
  obtain k t2 where c: "os_Create K now (join_path u p) t1 = Inr (k, t2)"
    using assms p m r by (cases "os_Create K now (join_path u p) t1") (auto simp: Upload_def)
  have "snd copied = None \<and> t' = AList.update k (File now (fst copied)) t2"
    using assms p m r c by (cases "snd copied") (auto simp: Upload_def)
  with p m r c that show ?thesis by blast
qed

lemma os_Create_result:
  assumes "os_Create K now s t1 = Inr (k, t2)"
  obtains d c where "walk K t1 (start_dir K s) (butlast (components s)) = Inr d" "is_dir t1 d" "k = d @ [c]"
    "components s = butlast (components s) @ [c]" "c \<noteq> []" "c \<noteq> ''.''" "c \<noteq> ''..''" "os_access K k = None"
    "\<not> is_dir t1 k" "t2 = AList.update k (File now []) (if map_of t1 k = None then touch now d t1 else t1)"
proof -
  obtain d where d: "walk K t1 (start_dir K s) (butlast (components s)) = Inr d"
    using assms by (auto simp: os_Create_def split: sum.splits)
  define c where "c = hd (rev (components s))"
  have cs: "components s = butlast (components s) @ [c]"
    using append_butlast_last_id [OF components_not_Nil [of s]] by (simp add: c_def hd_rev)
  have "is_dir t1 d \<and> k = d @ [c] \<and> c \<noteq> [] \<and> c \<noteq> ''.'' \<and> c \<noteq> ''..'' \<and> os_access K k = None \<and> \<not> is_dir t1 k
    \<and> t2 = AList.update k (File now []) (if map_of t1 k = None then touch now d t1 else t1)"
    using assms d unfolding os_Create_def c_def [symmetric] Let_def
    by (auto split: if_splits option.splits)
  with d cs that show ?thesis by blast
qed

text \<open>
  C22: What was uploaded under a path and answered 200 is what a download of the path answers, with
  all its bytes; the upload has changed no other file.
\<close>

theorem upload_then_download:
  assumes "w_status w = None" "Upload K u now p copied (w, t) = (w', t')" "w_status w' = Some 200"
    and "u \<noteq> []" "\<forall>k. os_open K k = None" "w_status wd = None"
  shows "\<exists>k. map_of t' k = Some (File now (fst copied))
    \<and> w_status (Download K u p ctype q (wd, t')) = Some 200
    \<and> w_body (Download K u p ctype q (wd, t')) = w_body wd @ fst copied
    \<and> (\<forall>j m b. j \<noteq> k \<longrightarrow> map_of t j = Some (File m b) \<longrightarrow> map_of t' j = Some (File m b))"
proof -
  let ?s = "join_path u p"
  obtain t1 t2 k where up: "p \<noteq> []" "os_MkdirAll K now (join_with ''/'' (butlast (components ?s))) t = (None, t1)"
    "os_Create K now ?s t1 = Inr (k, t2)" "t' = AList.update k (File now (fst copied)) t2"
    by (rule Upload_done [OF assms(1-3)])
  obtain d c where cr: "walk K t1 (start_dir K ?s) (butlast (components ?s)) = Inr d" "is_dir t1 d" "k = d @ [c]"
    "components ?s = butlast (components ?s) @ [c]" "c \<noteq> []" "c \<noteq> ''.''" "c \<noteq> ''..''" "os_access K k = None"
    "\<not> is_dir t1 k" "t2 = AList.update k (File now []) (if map_of t1 k = None then touch now d t1 else t1)"
    by (rule os_Create_result [OF up(3)])
  have t': "map_of t' = (map_of (if map_of t1 k = None then touch now d t1 else t1))(k \<mapsto> File now (fst copied))"
    by (simp add: up(4) cr(10) map_of_upd)
  have "grows t1 t'"
    using cr(9) by (auto simp: grows_def t' is_dir_def touch_map split: option.splits)
  then have wk: "walk K t' (start_dir K ?s) (butlast (components ?s)) = Inr d" and dd: "is_dir t' d"
    using walk_grows [OF cr(1)] cr(2) by (simp_all add: grows_def)
  have stored: "map_of t' k = Some (File now (fst copied))" by (simp add: t')
  have "walk K t' (start_dir K ?s) (components ?s) = Inr k"
    using wk dd cr(5-8) stored unfolding cr(3) by (subst cr(4)) (simp add: walk_append)
  then have "os_Stat K t' ?s = Inr (k, File now (fst copied))"
    using stored by (simp add: os_Stat_def join_path_def)
  moreover have "\<forall>j m b. j \<noteq> k \<longrightarrow> map_of t j = Some (File m b) \<longrightarrow> map_of t' j = Some (File m b)"
  proof (intro allI impI)
    fix j m b assume j: "j \<noteq> k" "map_of t j = Some (File m b)"
    have "map_of t1 j = Some (File m b)"
      using up(2) j(2) by (auto simp: os_MkdirAll_def dest: mkdirs_keeps_files split: if_splits)
    then show "map_of t' j = Some (File m b)" using j(1) by (auto simp: t' touch_map is_dir_def)
  qed
  ultimately show ?thesis
    using assms(5,6) up(1) stored by (auto simp: Download_def ServeFile_def Let_def write_body_body body_allowed_def)
qed

definition ex_os :: os where
  "ex_os = \<lparr>os_cwd = [], os_access = (\<lambda>_. None), os_modify = (\<lambda>_. None), os_open = (\<lambda>_. None), os_stuck = []\<rparr>"

definition ex_tree :: fs_tree where
  "ex_tree = [([], Dir 0), ([''up''], Dir 0), ([''up'', ''old''], File 3 ''x'')]"

lemma upload_then_download_witness:
  "\<exists>w' t'. Upload ex_os ''/up'' 7 ''a/b'' (''hello'', None) (new_writer, ex_tree) = (w', t') \<and> w_status w' = Some 200
    \<and> w_body (Download ex_os ''/up'' ''a/b'' [] [] (new_writer, t')) = ''hello''"
proof -
  obtain w' t' where r: "Upload ex_os ''/up'' 7 ''a/b'' (''hello'', None) (new_writer, ex_tree) = (w', t')" by force
  have "w_status (fst (Upload ex_os ''/up'' 7 ''a/b'' (''hello'', None) (new_writer, ex_tree))) = Some 200" by code_simp
  then have st: "w_status w' = Some 200" using r by simp
  have nw: "w_status new_writer = None" "w_body new_writer = []" by (simp_all add: new_writer_def)
  have o: "''/up'' \<noteq> []" "\<forall>k. os_open ex_os k = None" by (simp_all add: ex_os_def)
  from upload_then_download [OF nw(1) r st o nw(1), of "[]" "[]"] show ?thesis using r st nw by auto
qed

subsection \<open>Staying below the upload path\<close>

lemma start_components: "start_dir K (join_path u p) = start_dir K u" if "u \<noteq> []"
  using upload_directory(4) [OF that] .

text \<open>
  C23: An upload whose path does not climb changes nothing outside of the upload directory,
  whether it succeeds or not.
\<close>

theorem upload_confined:
  assumes "Upload K u now p copied (w, t) = (w', t')" "u \<noteq> []" "''..'' \<notin> set (components p)"
    and "walk K t (start_dir K u) (components u) = Inr U" "\<not> prefix U k"
  shows "map_of t' k = map_of t k"
proof (cases "p = []")
  case True
  then show ?thesis using assms(1) by (simp add: Upload_def)
next
  case False
  let ?s = "join_path u p" and ?zs = "butlast (components p)"
  let ?dir = "join_with ''/'' (butlast (components ?s))"
  have zs: "''..'' \<notin> set ?zs" using assms(3) by (auto dest: in_set_butlastD)
  note dir = upload_directory [OF assms(2), where p = p]
  obtain r t1 where m: "os_MkdirAll K now ?dir t = (r, t1)" by force
  have mk: "mkdirs K now U ?zs t = (r, t1)"
    using m dir(3) mkdirs_append [OF assms(4), of now ?zs] by (simp add: os_MkdirAll_def dir(1,2))
  have t1: "map_of t1 k = map_of t k" by (rule mkdirs_inside [OF zs mk assms(5)])
  show ?thesis
  proof (cases "r = None \<and> (\<exists>j t2. os_Create K now ?s t1 = Inr (j, t2))")
    case no: False
    then have "t' = t1"
      using assms(1) False m by (cases r; cases "os_Create K now ?s t1") (auto simp: Upload_def)
    then show ?thesis using t1 by simp
  next
    case True
    then obtain j t2 where c: "r = None" "os_Create K now ?s t1 = Inr (j, t2)" by blast
    obtain d b where cr: "walk K t1 (start_dir K ?s) (butlast (components ?s)) = Inr d" "j = d @ [b]"
      "t2 = AList.update j (File now []) (if map_of t1 j = None then touch now d t1 else t1)"
      by (rule os_Create_result [OF c(2)])
    have "grows t t1" using mkdirs_done mk c(1) by blast
    then have "walk K t1 (start_dir K u) (components u) = Inr U" by (rule walk_grows [OF assms(4)])
    then have "walk K t1 U ?zs = Inr d"
      using cr(1) by (simp add: full_components butlast_append walk_append dir(4))
    then have "prefix U d" by (rule walk_inside [OF zs])
    then have "k \<noteq> d" "k \<noteq> j" using assms(5) by (auto simp: cr(2) intro: prefix_order.trans)
    moreover have "map_of t' = (map_of t2)(j \<mapsto> File now (fst copied))"
      using assms(1) False m c by (cases "snd copied") (auto simp: Upload_def map_of_upd)
    ultimately show ?thesis using t1 by (auto simp: cr(3) map_of_upd touch_map)
  qed
qed

lemma upload_confined_witness:
  "map_of (snd (Upload ex_os ''/up'' 7 ''a/b'' (''hello'', None) (new_writer, ex_tree))) [''etc''] = map_of ex_tree [''etc'']"
proof -
  obtain w' t' where r: "Upload ex_os ''/up'' 7 ''a/b'' (''hello'', None) (new_writer, ex_tree) = (w', t')" by force
  have "''..'' \<notin> set (components ''a/b'')" "walk ex_os ex_tree (start_dir ex_os ''/up'') (components ''/up'') = Inr [''up'']"
    by code_simp+
  moreover have "\<not> prefix [''up''] [''etc'']" by simp
  ultimately show ?thesis using upload_confined [OF r, of "[''up'']" "[''etc'']"] r by simp
qed

text \<open>
  A path that climbs leaves the upload directory: an upload of \<open>../f\<close> writes the file \<open>f\<close>
  beside it, and a download of \<open>../f\<close> serves it.
\<close>

theorem upload_escapes:
  assumes "u \<noteq> []" "walk K t (start_dir K u) (components u) = Inr U" "is_dir t U" "is_dir t (butlast U)"
    and "f \<notin> {[], ''.'', ''..''}" "CHR ''/'' \<notin> set f" "\<not> is_dir t (butlast U @ [f])"
    and "os_access K (butlast U @ [f]) = None" "os_modify K (butlast U @ [f]) = None" "\<forall>k. os_open K k = None"
    and "w_status w = None" "w_status wd = None" "U \<noteq> []"
  shows "\<exists>w' t'. Upload K u now (''../'' @ f) (b, None) (w, t) = (w', t') \<and> w_status w' = Some 200
    \<and> map_of t' (butlast U @ [f]) = Some (File now b) \<and> \<not> prefix U (butlast U @ [f])
    \<and> w_body (Download K u (''../'' @ f) ctype q (wd, t')) = w_body wd @ b"
proof -
  let ?p = "''../'' @ f" and ?k = "butlast U @ [f]"
  have cf: "components f = [f]" using assms(6) by (simp add: components_def split_on_no_sep)
  have cp: "components ?p = [''..'', f]" by (simp add: components_def split_on_no_sep [OF assms(6)])
  note dir = upload_directory [OF assms(1), where p = "?p"]
  have mk: "os_MkdirAll K now (join_with ''/'' (butlast (components (join_path u ?p)))) t = (None, t)"
    using dir(3) mkdirs_append [OF assms(2), of now "[''..'']"] assms(3,4)
    by (simp add: os_MkdirAll_def dir(1,2) cp del: append_Cons)
  have comps: "components (join_path u ?p) = (components u @ [''..'']) @ [f]"
    unfolding full_components cp by simp
  have wk: "walk K t (start_dir K (join_path u ?p)) (butlast (components (join_path u ?p))) = Inr (butlast U)"
    unfolding comps dir(4) butlast_snoc using assms(2-4) by (simp add: walk_append)
  define t2 where "t2 = AList.update ?k (File now []) (if map_of t ?k = None then touch now (butlast U) t else t)"
  have cr: "os_Create K now (join_path u ?p) t = Inr (?k, t2)"
    using assms(4,5,7-9) wk unfolding os_Create_def t2_def comps by (simp add: Let_def del: append_assoc)
  have up: "Upload K u now ?p (b, None) (w, t)
      = (RespondWithJSON 200 (JObj [(''bytes'', JStr (itoa (int (length b))))]) w, AList.update ?k (File now b) t2)"
    unfolding Upload_def Let_def prod.case mk option.case cr sum.case fst_conv snd_conv by simp
  let ?t' = "AList.update ?k (File now b) t2"
  have w200: "w_status (RespondWithJSON 200 (JObj [(''bytes'', JStr (itoa (int (length b))))]) w) = Some 200"
    using assms(11) by simp
  have t': "map_of ?t' ?k = Some (File now b)" by (simp add: map_of_upd)
  have gr: "grows t ?t'"
    using assms(7) by (auto simp: grows_def t2_def map_of_upd touch_map is_dir_def split: option.splits)
  have "walk K ?t' (start_dir K (join_path u ?p)) (components (join_path u ?p)) = Inr ?k"
    using walk_grows [OF wk gr] gr assms(4,5,8) t' unfolding comps
    by (simp add: walk_append grows_def del: append_assoc)
  then have "os_Stat K ?t' (join_path u ?p) = Inr (?k, File now b)"
    using t' by (simp add: os_Stat_def join_path_def)
  then have "w_body (Download K u ?p ctype q (wd, ?t')) = w_body wd @ b"
    using assms(10,12) by (simp add: Download_def ServeFile_def Let_def write_body_body body_allowed_def)
  moreover have "\<not> prefix U ?k \<or> U = ?k"
    using assms(13) by (metis append_butlast_last_id prefix_snoc prefix_length_le length_append_singleton not_less_eq_eq)
  moreover have "U \<noteq> ?k" using assms(3,7) by auto
  ultimately show ?thesis using up w200 t' by blast
qed

lemma upload_escapes_witness:
  "\<exists>w' t'. Upload ex_os ''/up'' 7 ''../passwd'' (''root'', None) (new_writer, ex_tree) = (w', t')
    \<and> map_of t' [''passwd''] = Some (File 7 ''root'')"
proof -
  have "walk ex_os ex_tree (start_dir ex_os ''/up'') (components ''/up'') = Inr [''up'']" "is_dir ex_tree [''up'']"
    "is_dir ex_tree (butlast [''up''])" "\<not> is_dir ex_tree (butlast [''up''] @ [''passwd''])" by code_simp+
  moreover have "''/up'' \<noteq> []" "''passwd'' \<notin> {[], ''.'', ''..''}" "CHR ''/'' \<notin> set ''passwd''" "[''up''] \<noteq> []"
    "w_status new_writer = None" by (simp_all add: new_writer_def)
  moreover have "os_access ex_os k = None" "os_modify ex_os k = None" "\<forall>k. os_open ex_os k = None" for k
    by (simp_all add: ex_os_def)
  ultimately show ?thesis
    using upload_escapes [of "''/up''" ex_os ex_tree "[''up'']" "''passwd''" new_writer new_writer 7 "''root''" "[]" "[]"] by auto
qed

end
