(* ===== verification/Retention.thy ===== *)
theory Retention
  imports Log_Area
begin

text \<open>
  \<open>pkg/logarea/v1alpha/retention.go\<close>: the handler that removes what lies directly below the
  upload path and has not been modified for the retention time.
\<close>

text \<open>
  The names to remove; \<open>vanished\<close> are entries whose \<open>Info\<close> fails because they are gone since
  the directory was read.
\<close>

definition stale_names :: "int \<Rightarrow> int \<Rightarrow> (string \<Rightarrow> bool) \<Rightarrow> (string \<times> fs_node) list \<Rightarrow> string list" where
  "stale_names now retention vanished es =
     map fst (filter (\<lambda>(n, nd). \<not> vanished n \<and> now - mtime nd > retention) es)"

fun remove_each :: "os \<Rightarrow> string \<Rightarrow> string list \<Rightarrow> fs_tree \<Rightarrow> fs_tree" where
  "remove_each K u [] t = t"
| "remove_each K u (n # ns) t = remove_each K u ns (snd (os_RemoveAll K (join_path u n) t))"

definition cleanup :: "os \<Rightarrow> string \<Rightarrow> int \<Rightarrow> (string \<Rightarrow> bool) \<Rightarrow> int \<Rightarrow> fs_tree \<Rightarrow> unit outcome \<times> fs_tree" where
  "cleanup K u retention vanished now t =
     (case os_ReadDir K u t of
        Inl err \<Rightarrow> (Panicked (err_string err), t)
      | Inr (p, es) \<Rightarrow> (Returned (), remove_each K u (stale_names now retention vanished es) t))"

text \<open>
  What the loop of \<open>run\<close> waits for: the quit signal, the timer at a time, with the entries that
  vanish during the cleanup, and meanwhile any change that others make to the files.
\<close>

datatype run_input = Quit | Timer int "string \<Rightarrow> bool" | Change fs_tree

fun retention_run :: "os \<Rightarrow> string \<Rightarrow> int \<Rightarrow> run_input list \<Rightarrow> fs_tree \<Rightarrow> unit outcome option \<times> fs_tree" where
  "retention_run K u retention [] t = (None, t)"
| "retention_run K u retention (Quit # xs) t = (Some (Returned ()), t)"
| "retention_run K u retention (Change t' # xs) t = retention_run K u retention xs t'"
| "retention_run K u retention (Timer now vanished # xs) t =
     (case cleanup K u retention vanished now t of
        (Panicked e, t') \<Rightarrow> (Some (Panicked e), t')
      | (Returned _, t') \<Rightarrow> retention_run K u retention xs t')"

lemma map_of_filter_key: "map_of (filter (\<lambda>(k, _). P k) t) k = (if P k then map_of t k else None)"
  by (induction t) auto

lemma walk_agree:
  assumes "''..'' \<notin> set cs" "walk K t cur cs = Inr d" "\<forall>k. prefix k d \<longrightarrow> map_of t' k = map_of t k"
  shows "walk K t' cur cs = Inr d"
  using assms
proof (induction K t cur cs rule: walk.induct)
  case (2 K t cur c cs)
  have "prefix cur d" using walk_inside [OF 2(4,5)] .
  then have "map_of t' cur = map_of t cur" using 2(6) by blast
  then have d: "is_dir t' cur = is_dir t cur" by (simp add: is_dir_def)
  show ?case
  proof (cases "c = [] \<or> c = ''.''")
    case True
    then show ?thesis using 2 d by (auto split: if_splits)
  next
    case False
    then have wk: "walk K t (cur @ [c]) cs = Inr d" "os_access K (cur @ [c]) = None" "is_dir t cur" "map_of t (cur @ [c]) \<noteq> None"
      "c \<noteq> ''..''" using 2(4,5) by (auto split: if_splits option.splits)
    then have "prefix (cur @ [c]) d" using walk_inside 2(4) by auto
    then have "map_of t' (cur @ [c]) = map_of t (cur @ [c])" using 2(6) by blast
    moreover have "walk K t' (cur @ [c]) cs = Inr d"
      using 2(3) 2(4,6) wk False by auto
    ultimately show ?thesis using wk False d by auto
  qed
qed simp

definition plain :: "string \<Rightarrow> bool" where
  "plain n = (n \<notin> {[], ''.'', ''..''} \<and> CHR ''/'' \<notin> set n)"

text \<open>
  What is left of \<open>t\<close> when the entries \<open>ns\<close> of the directory \<open>U\<close> have been removed, up to
  what is stuck.
\<close>

definition without :: "os \<Rightarrow> path \<Rightarrow> string set \<Rightarrow> fs_tree \<Rightarrow> path \<Rightarrow> fs_node option" where
  "without K U ns t k = (if (\<exists>n \<in> ns. \<not> remains K (U @ [n]) k) then None else map_of t k)"

lemma remove_each_without:
  assumes "u \<noteq> []" "''..'' \<notin> set (components u)" "walk K t (start_dir K u) (components u) = Inr U" "is_dir t U"
    and "\<forall>n \<in> set ns. plain n \<and> map_of t (U @ [n]) \<noteq> None \<and> os_access K (U @ [n]) = None" "distinct ns"
    and "map_of t0 = without K U D t" "D \<inter> set ns = {}"
  shows "map_of (remove_each K u ns t0) = without K U (D \<union> set ns) t"
  using assms(5-8)
proof (induction ns arbitrary: t0 D)
  case (Cons n ns)
  have n: "plain n" "map_of t (U @ [n]) \<noteq> None" "os_access K (U @ [n]) = None" "n \<notin> D"
    using Cons.prems by auto
  have keep: "without K U D t k = map_of t k" if "\<forall>m \<in> D. \<not> prefix (U @ [m]) k" for k
    using that by (auto simp: without_def remains_def)
  have up: "map_of t0 k = map_of t k" if "prefix k U" for k
  proof -
    have "\<forall>m \<in> D. \<not> prefix (U @ [m]) k"
    proof (intro ballI notI)
      fix m assume "prefix (U @ [m]) k"
      then have "prefix (U @ [m]) U" using that prefix_order.trans by blast
      then show False using prefix_length_le by fastforce
    qed
    then show ?thesis by (simp add: Cons.prems(3) keep)
  qed
  have "walk K t0 (start_dir K u) (components u) = Inr U"
    using walk_agree [OF assms(2,3)] up by blast
  moreover have "is_dir t0 U" using assms(4) up [of U] by (simp add: is_dir_def)
  moreover have here: "map_of t0 (U @ [n]) = map_of t (U @ [n])"
    unfolding Cons.prems(3) using n(4) by (intro keep) auto
  moreover have cn: "components n = [n]" using n(1) by (simp add: plain_def components_def split_on_no_sep)
  ultimately have "walk K t0 (start_dir K (join_path u n)) (components (join_path u n)) = Inr (U @ [n])"
    using n by (auto simp: upload_directory(4) [OF assms(1)] full_components walk_append plain_def)
  then obtain nd where st: "os_Stat K t0 (join_path u n) = Inr (U @ [n], nd)"
    using here n(2) by (auto simp: os_Stat_def join_path_def)
  let ?t1 = "snd (os_RemoveAll K (join_path u n) t0)"
  have m1: "map_of ?t1 = without K U (insert n D) t"
    by (rule ext) (simp add: os_RemoveAll_def st Let_def map_of_filter_key without_def Cons.prems(3))
  have "map_of (remove_each K u ns ?t1) = without K U (insert n D \<union> set ns) t"
    using Cons.IH [OF _ _ m1] Cons.prems(1,2,4) by auto
  then show ?case by simp
qed (simp add: without_def fun_eq_iff)

lemma ReadDir_names:
  assumes "os_ReadDir K u t = Inr (U, es)" "distinct (map fst t)"
  shows "distinct (map fst es)" and "(n, nd) \<in> set es \<longleftrightarrow> map_of t (U @ [n]) = Some nd"
proof -
  have es: "es = map (\<lambda>(k, n). (hd (rev k), n)) (filter (\<lambda>(k, n). k \<noteq> [] \<and> butlast k = U) t)"
    using assms(1) by (auto simp: os_ReadDir_def split: sum.splits prod.splits fs_node.splits)
  have k: "k = U @ [hd (rev k)]" if "k \<noteq> []" "butlast k = U" for k
    using that by (simp add: hd_rev flip: that(2))
  have "inj_on (\<lambda>k. hd (rev k)) {k. k \<noteq> [] \<and> butlast k = U}"
    using k by (auto intro!: inj_onI) metis
  moreover have "distinct (filter (\<lambda>k. k \<noteq> [] \<and> butlast k = U) (map fst t))" using assms(2) by simp
  ultimately have "distinct (map (\<lambda>k. hd (rev k)) (filter (\<lambda>k. k \<noteq> [] \<and> butlast k = U) (map fst t)))"
    by (simp add: distinct_map) (auto intro: inj_on_subset)
  moreover have "map fst es = map (\<lambda>k. hd (rev k)) (filter (\<lambda>k. k \<noteq> [] \<and> butlast k = U) (map fst t))"
    by (simp add: es filter_map comp_def case_prod_unfold)
  ultimately show "distinct (map fst es)" by simp
  have "(n, nd) \<in> set es \<longleftrightarrow> (U @ [n], nd) \<in> set t"
    using k by (force simp: es hd_rev)
  then show "(n, nd) \<in> set es \<longleftrightarrow> map_of t (U @ [n]) = Some nd"
    using assms(2) by simp
qed

text \<open>
  C25: A cleanup removes the entries below the upload path whose last modification is longer ago
  than the retention time, with everything in them, up to what cannot be removed, and nothing else.
\<close>

theorem cleanup_exact:
  assumes "distinct (map fst t)" "u \<noteq> []" "''..'' \<notin> set (components u)"
    and "walk K t (start_dir K u) (components u) = Inr U" "is_dir t U"
    and "\<forall>n. map_of t (U @ [n]) \<noteq> None \<longrightarrow> plain n \<and> os_access K (U @ [n]) = None"
  shows "\<exists>t'. cleanup K u retention vanished now t = (Returned (), t')
    \<and> (\<forall>k. map_of t' k =
        (if (\<exists>n nd. map_of t (U @ [n]) = Some nd \<and> now - mtime nd > retention \<and> \<not> vanished n
              \<and> prefix (U @ [n]) k) \<and> \<not> list_ex (prefix k) (os_stuck K)
         then None else map_of t k))"
proof -
  obtain m where "map_of t U = Some (Dir m)" using assms(5) by (auto simp: is_dir_def split: option.splits fs_node.splits)
  then have "os_Stat K t u = Inr (U, Dir m)" using assms(2,4) by (simp add: os_Stat_def)
  then obtain es where rd: "os_ReadDir K u t = Inr (U, es)" by (simp add: os_ReadDir_def)
  let ?ns = "stale_names now retention vanished es"
  have ns: "n \<in> set ?ns \<longleftrightarrow> (\<exists>nd. map_of t (U @ [n]) = Some nd \<and> now - mtime nd > retention \<and> \<not> vanished n)" for n
    using ReadDir_names(2) [OF rd assms(1)] by (force simp: stale_names_def)
  have d: "distinct ?ns" using ReadDir_names(1) [OF rd assms(1)] by (simp add: stale_names_def distinct_map_filter)
  have "map_of t = without K U {} t" by (simp add: without_def fun_eq_iff)
  then have "map_of (remove_each K u ?ns t) = without K U ({} \<union> set ?ns) t"
    using ns assms(6) by (intro remove_each_without [OF assms(2-5) _ d]) auto
  moreover have "without K U ({} \<union> set ?ns) t k = (if (\<exists>n nd. map_of t (U @ [n]) = Some nd \<and> now - mtime nd > retention \<and> \<not> vanished n
              \<and> prefix (U @ [n]) k) \<and> \<not> list_ex (prefix k) (os_stuck K)
         then None else map_of t k)" for k
    using ns by (auto simp: without_def remains_def)
  ultimately show ?thesis by (simp add: cleanup_def rd)
qed

lemma cleanup_exact_witness:
  "map_of (snd (cleanup ex_os ''/up'' 5 (\<lambda>_. False) 10 ex_tree)) [''up'', ''old''] = None"
proof -
  have w: "walk ex_os ex_tree (start_dir ex_os ''/up'') (components ''/up'') = Inr [''up'']" "is_dir ex_tree [''up'']"
    "distinct (map fst ex_tree)" "''..'' \<notin> set (components ''/up'')" by code_simp+
  have "\<forall>n. map_of ex_tree ([''up''] @ [n]) \<noteq> None \<longrightarrow> plain n \<and> os_access ex_os ([''up''] @ [n]) = None"
    by (auto simp: ex_tree_def ex_os_def plain_def)
  from cleanup_exact [OF w(3) _ w(4,1,2) this, of 5 "\<lambda>_. False" 10] obtain t' where
    "cleanup ex_os ''/up'' 5 (\<lambda>_. False) 10 ex_tree = (Returned (), t')"
    "map_of t' [''up'', ''old''] = (if (\<exists>n nd. map_of ex_tree ([''up''] @ [n]) = Some nd \<and> 10 - mtime nd > 5 \<and> \<not> False
              \<and> prefix ([''up''] @ [n]) [''up'', ''old'']) \<and> \<not> list_ex (prefix [''up'', ''old'']) (os_stuck ex_os)
         then None else map_of ex_tree [''up'', ''old''])" by auto
  then show ?thesis by (auto simp: ex_tree_def ex_os_def)
qed

end
