(* ===== verification/Kube_Jobs.thy ===== *)
theory Kube_Jobs
  imports Go_Http
begin

text \<open>
  \<open>internal/kubernetes/kubernetes.go\<close>: the lookup of suite runner jobs and of their log
  listeners, over job and pod lists that are cached for five seconds.  The Kubernetes API is a
  parameter: the lists it answers with.  Times are in nanoseconds.
\<close>

subsection \<open>The cache\<close>

record 'd cache_entry =
  ce_data :: 'd
  ce_timestamp :: int

type_synonym 'd sync_map = "string \<Rightarrow> 'd cache_entry option"

record kube_job =
  kj_Name :: string
  kj_Labels :: "(string \<times> string) list"
  kj_Succeeded :: int
  kj_Failed :: int

record kube_pod =
  kp_Labels :: "(string \<times> string) list"
  kp_IP :: string

record kube_cache =
  kc_jobs :: "kube_job list sync_map"
  kc_pods :: "kube_pod list sync_map"
  kc_TTL :: int

definition newKubernetesCache :: kube_cache where
  "newKubernetesCache = \<lparr>kc_jobs = (\<lambda>_. None), kc_pods = (\<lambda>_. None), kc_TTL = 5 * 10 ^ 9\<rparr>"

definition checkCache :: "int \<Rightarrow> int \<Rightarrow> string \<Rightarrow> 'd sync_map \<Rightarrow> 'd option" where
  "checkCache ttl now key m =
     (case m key of
        Some entry \<Rightarrow> if now - ce_timestamp entry < ttl then Some (ce_data entry) else None
      | None \<Rightarrow> None)"

text \<open>
  A lookup that runs alone: \<open>t1\<close>, \<open>t2\<close> and \<open>t3\<close> are the times of the first check, of the
  check under the lock, and of the answer of the API.
\<close>

definition cached_list ::
  "int \<Rightarrow> string \<Rightarrow> int \<times> int \<times> int \<Rightarrow> (gerror + 'd) \<Rightarrow> 'd sync_map \<Rightarrow> (gerror + 'd) \<times> 'd sync_map" where
  "cached_list ttl key ts api m =
     (case ts of (t1, t2, t3) \<Rightarrow>
        (case checkCache ttl t1 key m of
           Some d \<Rightarrow> (Inr d, m)
         | None \<Rightarrow>
             (case checkCache ttl t2 key m of
                Some d \<Rightarrow> (Inr d, m)
              | None \<Rightarrow>
                  (case api of
                     Inl err \<Rightarrow> (Inl err, m)
                   | Inr d \<Rightarrow> (Inr d, m(key \<mapsto> \<lparr>ce_data = d, ce_timestamp = t3\<rparr>))))))"

definition getAllJobs ::
  "string \<Rightarrow> int \<times> int \<times> int \<Rightarrow> (gerror + kube_job list) \<Rightarrow> kube_cache \<Rightarrow> (gerror + kube_job list) \<times> kube_cache" where
  "getAllJobs namespace ts api c =
     (case cached_list (kc_TTL c) (''all_jobs_'' @ namespace) ts api (kc_jobs c) of
        (r, m) \<Rightarrow> (r, c\<lparr>kc_jobs := m\<rparr>))"

definition getAllPods ::
  "string \<Rightarrow> int \<times> int \<times> int \<Rightarrow> (gerror + kube_pod list) \<Rightarrow> kube_cache \<Rightarrow> (gerror + kube_pod list) \<times> kube_cache" where
  "getAllPods namespace ts api c =
     (case cached_list (kc_TTL c) (''all_pods_'' @ namespace) ts api (kc_pods c) of
        (r, m) \<Rightarrow> (r, c\<lparr>kc_pods := m\<rparr>))"

subsection \<open>Lookups\<close>

definition keyPairExists :: "(string \<times> string) list \<Rightarrow> (string \<times> string) list \<Rightarrow> bool" where
  "keyPairExists labels keyPair = (\<forall>(k, v) \<in> set keyPair. map_of labels k = Some v)"

definition labelKeyPairs :: "string \<Rightarrow> (string \<times> string) list list" where
  "labelKeyPairs identifier =
     [[(''etos.eiffel-community.github.io/id'', identifier), (''app.kubernetes.io/name'', ''suite-runner'')],
      [(''id'', identifier), (''app'', ''suite-runner'')]]"

definition is_runner_job :: "string \<Rightarrow> kube_job \<Rightarrow> bool" where
  "is_runner_job identifier job = (\<exists>keyPair \<in> set (labelKeyPairs identifier). keyPairExists (kj_Labels job) keyPair)"

definition getJobsByIdentifier ::
  "string \<Rightarrow> int \<times> int \<times> int \<Rightarrow> (gerror + kube_job list) \<Rightarrow> string \<Rightarrow> kube_cache
   \<Rightarrow> (gerror + kube_job list) \<times> kube_cache" where
  "getJobsByIdentifier namespace ts api identifier c =
     (case getAllJobs namespace ts api c of
        (Inl err, c') \<Rightarrow> (Inl err, c')
      | (Inr allJobs, c') \<Rightarrow> (Inr (filter (is_runner_job identifier) allJobs), c'))"

text \<open>
  \<open>clientset\<close> makes a client once and keeps it; its configuration comes from the cluster.  The
  lookups take its error, if any, as \<open>kn_client\<close>.
\<close>

definition clientset ::
  "(gerror + 'cfg) \<Rightarrow> ('cfg \<Rightarrow> gerror + 'cli) \<Rightarrow> 'cli option \<times> 'cfg option \<Rightarrow> (gerror + 'cli) \<times> 'cli option \<times> 'cfg option" where
  "clientset inCluster newForConfig st =
     (let (client, config) = st;
          make = (\<lambda>cfg. case newForConfig cfg of Inl err \<Rightarrow> (Inl err, None, Some cfg) | Inr cli \<Rightarrow> (Inr cli, Some cli, Some cfg))
      in case client of Some cli \<Rightarrow> (Inr cli, st)
         | None \<Rightarrow>
             (case config of
                Some cfg \<Rightarrow> make cfg
              | None \<Rightarrow> (case inCluster of Inl err \<Rightarrow> (Inl err, None, None) | Inr cfg \<Rightarrow> make cfg)))"

lemma clientset_once:
  "clientset ic nc st = (Inr cli, st') \<Longrightarrow> clientset ic' nc' st' = (Inr cli, st')"
  by (cases st) (auto simp: clientset_def Let_def split: option.splits sum.splits)

record kube_env =
  kn_namespace :: string
  kn_client :: "gerror option"

definition IsFinished ::
  "kube_env \<Rightarrow> int \<times> int \<times> int \<Rightarrow> (gerror + kube_job list) \<Rightarrow> string \<Rightarrow> kube_cache \<Rightarrow> bool \<times> kube_cache" where
  "IsFinished E ts api identifier c =
     (case kn_client E of
        Some err \<Rightarrow> (False, c)
      | None \<Rightarrow>
          (case getJobsByIdentifier (kn_namespace E) ts api identifier c of
             (Inl err, c') \<Rightarrow> (False, c')
           | (Inr [], c') \<Rightarrow> (True, c')
           | (Inr (job # _), c') \<Rightarrow> (\<not> (kj_Succeeded job = 0 \<and> kj_Failed job = 0), c')))"

definition LogListenerIP ::
  "kube_env \<Rightarrow> int \<times> int \<times> int \<Rightarrow> int \<times> int \<times> int \<Rightarrow> (gerror + kube_job list) \<Rightarrow> (gerror + kube_pod list) \<Rightarrow> string \<Rightarrow> kube_cache
   \<Rightarrow> (gerror + string) \<times> kube_cache" where
  "LogListenerIP E ts ts' api api' identifier c =
     (case kn_client E of
        Some err \<Rightarrow> (Inl err, c)
      | None \<Rightarrow>
          (case getJobsByIdentifier (kn_namespace E) ts api identifier c of
             (Inl err, c') \<Rightarrow> (Inl err, c')
           | (Inr [], c') \<Rightarrow> (Inl (Text (''could not find esr job with id '' @ identifier)), c')
           | (Inr (job # _), c') \<Rightarrow>
               (case getAllPods (kn_namespace E) ts' api' c' of
                  (Inl err, c'') \<Rightarrow> (Inl err, c'')
                | (Inr allPods, c'') \<Rightarrow>
                    (case filter (\<lambda>pod. map_of (kp_Labels pod) ''job-name'' = Some (kj_Name job)) allPods of
                       [] \<Rightarrow> (Inl (Text (''could not find pod for job with id '' @ identifier)), c'')
                     | pod # _ \<Rightarrow> (Inr (kp_IP pod), c'')))))"

subsection \<open>Sequential properties\<close>

text \<open>
  A list is one that the API gave within the time to live: \<open>given\<close> records which list the API
  answered with at which time.
\<close>

definition cache_truthful :: "(int \<Rightarrow> 'd \<Rightarrow> bool) \<Rightarrow> 'd sync_map \<Rightarrow> bool" where
  "cache_truthful given m = (\<forall>k e. m k = Some e \<longrightarrow> given (ce_timestamp e) (ce_data e))"

lemma checkCache_Some:
  "checkCache ttl now key m = Some d \<longleftrightarrow> (\<exists>e. m key = Some e \<and> now - ce_timestamp e < ttl \<and> d = ce_data e)"
  by (auto simp: checkCache_def split: option.splits if_splits)

lemma cached_list_fresh:
  assumes "cache_truthful given m" "\<forall>d. api = Inr d \<longrightarrow> given t3 d" "t1 \<le> t2" "t2 \<le> t3"
    and "cached_list ttl key (t1, t2, t3) api m = (r, m')" "0 < ttl"
  shows "cache_truthful given m' \<and> (\<forall>d. r = Inr d \<longrightarrow> (\<exists>t. given t d \<and> t1 - ttl < t))"
proof (cases "checkCache ttl t1 key m")
  case (Some d)
  then have "r = Inr d" "m' = m" using assms(5) by (auto simp: cached_list_def)
  then show ?thesis using Some assms(1) by (force simp: checkCache_Some cache_truthful_def)
next
  case None
  note n1 = None
  show ?thesis
  proof (cases "checkCache ttl t2 key m")
    case (Some d)
    then have "r = Inr d" "m' = m" using assms(5) None by (auto simp: cached_list_def)
    then show ?thesis using Some assms(1,3) by (force simp: checkCache_Some cache_truthful_def)
  next
    case None
    show ?thesis
    proof (cases api)
      case (Inl e)
      then show ?thesis using n1 None assms(1,5) by (auto simp: cached_list_def)
    next
      case (Inr d)
      then have "r = Inr d" "m' = m(key \<mapsto> \<lparr>ce_data = d, ce_timestamp = t3\<rparr>)" "given t3 d"
        using n1 None assms(2,5) by (auto simp: cached_list_def)
      then show ?thesis using assms(1,3,4,6) by (auto simp: cache_truthful_def intro!: exI [of _ t3])
    qed
  qed
qed

lemma is_runner_job_iff:
  "is_runner_job uid job \<longleftrightarrow>
    (map_of (kj_Labels job) ''etos.eiffel-community.github.io/id'' = Some uid
       \<and> map_of (kj_Labels job) ''app.kubernetes.io/name'' = Some ''suite-runner'')
    \<or> (map_of (kj_Labels job) ''id'' = Some uid \<and> map_of (kj_Labels job) ''app'' = Some ''suite-runner'')"
  unfolding is_runner_job_def labelKeyPairs_def keyPairExists_def by (simp only: list.set ball_simps bex_simps prod.case) blast

definition kube_truthful :: "(int \<Rightarrow> kube_job list \<Rightarrow> bool) \<Rightarrow> (int \<Rightarrow> kube_pod list \<Rightarrow> bool) \<Rightarrow> kube_cache \<Rightarrow> bool" where
  "kube_truthful givenJ givenP c = (cache_truthful givenJ (kc_jobs c) \<and> cache_truthful givenP (kc_pods c) \<and> 0 < kc_TTL c)"

lemma getJobs_fresh:
  assumes "kube_truthful gj gp c" "\<forall>d. api = Inr d \<longrightarrow> gj t3 d" "t1 \<le> t2" "t2 \<le> t3"
    and "getJobsByIdentifier ns (t1, t2, t3) api uid c = (r, c')"
  shows "kube_truthful gj gp c' \<and> kc_TTL c' = kc_TTL c
    \<and> (\<forall>js. r = Inr js \<longrightarrow> (\<exists>t all. gj t all \<and> t1 - kc_TTL c < t \<and> js = filter (is_runner_job uid) all))"
proof -
  obtain q m where q: "cached_list (kc_TTL c) (''all_jobs_'' @ ns) (t1, t2, t3) api (kc_jobs c) = (q, m)" by force
  have "cache_truthful gj (kc_jobs c)" "0 < kc_TTL c" using assms(1) by (simp_all add: kube_truthful_def)
  note f = cached_list_fresh [OF this(1) assms(2-4) q this(2)]
  have "c' = c\<lparr>kc_jobs := m\<rparr>" "r = (case q of Inl e \<Rightarrow> Inl e | Inr all \<Rightarrow> Inr (filter (is_runner_job uid) all))"
    using assms(5) q unfolding getJobsByIdentifier_def getAllJobs_def by (auto split: sum.splits)
  then show ?thesis using f assms(1) by (auto simp: kube_truthful_def split: sum.splits)
qed

lemma getAllPods_fresh:
  assumes "kube_truthful gj gp c" "\<forall>d. api = Inr d \<longrightarrow> gp t3 d" "t1 \<le> t2" "t2 \<le> t3"
    and "getAllPods ns (t1, t2, t3) api c = (r, c')"
  shows "kube_truthful gj gp c' \<and> (\<forall>ps. r = Inr ps \<longrightarrow> (\<exists>t. gp t ps \<and> t1 - kc_TTL c < t))"
proof -
  obtain q m where q: "cached_list (kc_TTL c) (''all_pods_'' @ ns) (t1, t2, t3) api (kc_pods c) = (q, m)" by force
  have "cache_truthful gp (kc_pods c)" "0 < kc_TTL c" using assms(1) by (simp_all add: kube_truthful_def)
  note f = cached_list_fresh [OF this(1) assms(2-4) q this(2)]
  have "c' = c\<lparr>kc_pods := m\<rparr>" "r = q" using assms(5) q unfolding getAllPods_def by simp_all
  then show ?thesis using f assms(1) by (auto simp: kube_truthful_def)
qed

end
