(* ===== verification/Line_Scanner.thy ===== *)
theory Line_Scanner
  imports Sse_Events Kube_Jobs
begin

text \<open>
  What both older SSE protocols (\<open>pkg/sse/v1\<close>, \<open>pkg/sse/v1alpha\<close>) share: a log listener that is
  found by its IP and polled over HTTP, and a response body that is read line by line with
  \<open>bufio.Scanner\<close>.
\<close>

subsection \<open>Lines\<close>

text \<open>
  \<open>bufio.ScanLines\<close>: lines end in a line feed, before which one carriage return is dropped; the
  last line may lack its line feed.  A line that does not fit the scanner's buffer of 64 KiB ends the
  scan, and \<open>scanner.Err\<close> is not read, so what comes after it is lost without an error.  A body that
  breaks off is scanned as far as it was received.
\<close>

definition max_line :: int where "max_line = 65535"

definition drop_cr :: "string \<Rightarrow> string" where
  "drop_cr l = (if l \<noteq> [] \<and> List.last l = CHR 0x0D then butlast l else l)"

definition body_lines :: "string \<Rightarrow> string list" where
  "body_lines body = (let ls = split_on nl body in if List.last ls = [] then butlast ls else ls)"

definition scan_lines :: "string \<Rightarrow> string list" where
  "scan_lines body = map drop_cr (takeWhile (\<lambda>l. int (length l) \<le> max_line) (body_lines body))"

text \<open>The body that a list of lines makes, and the lines for which it is read back.\<close>

definition lines_body :: "string list \<Rightarrow> string" where
  "lines_body ls = concat (map (\<lambda>l. l @ [nl]) ls)"

definition plain_line :: "string \<Rightarrow> bool" where
  "plain_line l = (nl \<notin> set l \<and> CHR 0x0D \<notin> set l \<and> int (length l) \<le> max_line)"

lemma split_lines_body: "\<forall>l \<in> set ls. nl \<notin> set l \<Longrightarrow> split_on nl (lines_body ls) = ls @ [[]]"
proof (induction ls)
  case (Cons l ls)
  have "split_on nl (l @ nl # rest) = l # split_on nl rest" if "nl \<notin> set l" for rest
    using that by (induction l) auto
  then show ?case using Cons by (simp add: lines_body_def)
qed (simp add: lines_body_def)

lemma body_lines_lines_body: "\<forall>l \<in> set ls. nl \<notin> set l \<Longrightarrow> body_lines (lines_body ls) = ls"
  by (simp add: body_lines_def Let_def split_lines_body)

lemma drop_cr_plain: "CHR 0x0D \<notin> set l \<Longrightarrow> drop_cr l = l"
  by (metis drop_cr_def last_in_set)

lemma takeWhile_all: "\<forall>x \<in> set xs. P x \<Longrightarrow> takeWhile P xs = xs"
  by (induction xs) auto

lemma scan_lines_body:
  assumes "\<forall>l \<in> set ls. plain_line l"
  shows "scan_lines (lines_body ls) = ls"
proof -
  have "body_lines (lines_body ls) = ls" using assms by (intro body_lines_lines_body) (auto simp: plain_line_def)
  moreover have "takeWhile (\<lambda>l. int (length l) \<le> max_line) ls = ls" using assms by (intro takeWhile_all) (auto simp: plain_line_def)
  moreover have "map drop_cr ls = ls" using assms by (induction ls) (auto simp: plain_line_def drop_cr_plain)
  ultimately show ?thesis by (simp only: scan_lines_def)
qed

text \<open>What follows a line that is too long is lost.\<close>

lemma scan_lines_long:
  assumes "\<forall>l \<in> set ls. plain_line l" "nl \<notin> set l" "max_line < int (length l)" "\<forall>l \<in> set ls'. nl \<notin> set l"
  shows "scan_lines (lines_body (ls @ l # ls')) = ls"
proof -
  have "body_lines (lines_body (ls @ l # ls')) = ls @ l # ls'"
    using assms by (intro body_lines_lines_body) (auto simp: plain_line_def)
  moreover have "takeWhile (\<lambda>l. int (length l) \<le> max_line) (ls @ l # ls') = ls"
    using assms(1,3) by (induction ls) (auto simp: plain_line_def)
  moreover have "map drop_cr ls = ls" using assms(1) by (induction ls) (auto simp: plain_line_def drop_cr_plain)
  ultimately show ?thesis by (simp only: scan_lines_def)
qed

subsection \<open>Requests\<close>

definition listener_url :: "string \<Rightarrow> string \<Rightarrow> gerror + string \<Rightarrow> gerror + string" where
  "listener_url no_ip path ip =
     (case ip of Inl err \<Rightarrow> Inl err
      | Inr url \<Rightarrow> if url = [] then Inl (Text no_ip) else Inr (''http://'' @ url @ '':8000'' @ path))"

text \<open>The query encoding of \<open>net/url\<close>.\<close>

definition hex_upper :: "nat \<Rightarrow> char" where
  "hex_upper n = ''0123456789ABCDEF'' ! (n mod 16)"

definition query_unreserved :: "char \<Rightarrow> bool" where
  "query_unreserved c =
     (let n = of_char c :: nat
      in (48 \<le> n \<and> n \<le> 57) \<or> (65 \<le> n \<and> n \<le> 90) \<or> (97 \<le> n \<and> n \<le> 122) \<or> c \<in> {CHR ''-'', CHR ''_'', CHR ''.'', CHR ''~''})"

definition query_escape :: "string \<Rightarrow> string" where
  "query_escape s =
     concat (map (\<lambda>c. if query_unreserved c then [c] else if c = CHR '' '' then ''+''
        else [CHR ''%'', hex_upper (of_char c div 16), hex_upper (of_char c)]) s)"

text \<open>A Go \<open>int\<close> has 64 bits and wraps.\<close>

definition wrap64 :: "int \<Rightarrow> int" where
  "wrap64 n = (n + 2 ^ 63) mod 2 ^ 64 - 2 ^ 63"

lemma wrap64_id: "int64_min \<le> n \<Longrightarrow> n \<le> int64_max \<Longrightarrow> wrap64 n = n"
  by (simp add: wrap64_def int64_min_def int64_max_def)

definition sse_plain_headers :: "http_writer \<Rightarrow> http_writer" where
  "sse_plain_headers w =
     set_header ''Transfer-Encoding'' ''chunked''
       (set_header ''Connection'' ''keep-alive''
         (set_header ''Cache-Control'' ''no-cache''
           (set_header ''Content-Type'' ''text/event-stream'' w)))"

lemma sse_plain_headers_keep [simp]:
  "w_status (sse_plain_headers w) = w_status w" "w_body (sse_plain_headers w) = w_body w"
  by (simp_all add: sse_plain_headers_def)

text \<open>The selftest of the SSE services: 204, with its content type.\<close>

definition sse_Selftest :: "http_writer \<Rightarrow> http_writer" where
  "sse_Selftest w =
     write_header 204
       (set_header ''X-Content-Type-Options'' ''nosniff''
         (set_header ''Content-Type'' ''text/plain; charset=utf-8'' w))"

end
