(* ===== verification/Sse_V1.thy ===== *)
theory Sse_V1
  imports Line_Scanner
begin

text \<open>
  \<open>pkg/sse/v1/sse.go\<close>: the second SSE protocol.  The log listener sends events, one JSON document
  a line, from a given number on.  Unlike in the first protocol the handler stays until the
  subscriber has closed the channel.
\<close>

subsection \<open>Requests to the listener\<close>

definition v1_url :: "gerror + string \<Rightarrow> gerror + string" where
  "v1_url ip = listener_url ''esr has not started yet'' ''/v1/log'' ip"

text \<open>
  The listener is a function of the request: an error of the HTTP client, or the received body.  The
  status of the response is not looked at.
\<close>

type_synonym listener = "string \<Rightarrow> gerror + bytes"

fun v1_parse_lines :: "(string \<Rightarrow> string option) \<Rightarrow> string list \<Rightarrow> event list" where
  "v1_parse_lines flt [] = []"
| "v1_parse_lines flt (l # ls) =
     (case events_New flt l of
        Inl err \<Rightarrow> v1_parse_lines flt ls
      | Inr event \<Rightarrow> event # v1_parse_lines flt ls)"

definition v1_GetFrom :: "(string \<Rightarrow> string option) \<Rightarrow> listener \<Rightarrow> string \<Rightarrow> string \<Rightarrow> gerror + event list" where
  "v1_GetFrom flt listener url n =
     (case listener (url @ ''?start='' @ query_escape n) of
        Inl err \<Rightarrow> Inl err
      | Inr body \<Rightarrow> Inr (v1_parse_lines flt (scan_lines body)))"

text \<open>\<open>GetOne\<close>: the query's keys are sorted; the body may break off while it is read.\<close>

definition v1_GetOne ::
  "(string \<Rightarrow> string option) \<Rightarrow> (string \<Rightarrow> gerror + bytes \<times> gerror option) \<Rightarrow> string \<Rightarrow> string \<Rightarrow> gerror + event" where
  "v1_GetOne flt listener url n =
     (case listener (url @ ''?end='' @ query_escape n @ ''&start='' @ query_escape n) of
        Inl err \<Rightarrow> Inl err
      | Inr (body, Some err) \<Rightarrow> Inl err
      | Inr (body, None) \<Rightarrow> events_New flt body)"

definition v1_GetEvent ::
  "(string \<Rightarrow> string option) \<Rightarrow> bool \<Rightarrow> gerror + string \<Rightarrow> (string \<Rightarrow> gerror + bytes \<times> gerror option)
   \<Rightarrow> string \<Rightarrow> http_writer \<Rightarrow> http_writer" where
  "v1_GetEvent flt finished ip listener counter w =
     (if finished then http_NotFound w
      else (case v1_url ip of
          Inl err \<Rightarrow> http_NotFound w
        | Inr url \<Rightarrow>
            (case v1_GetOne flt listener url counter of
               Inl err \<Rightarrow> w
             | Inr event \<Rightarrow> write_body (event_Write event) w)))"

subsection \<open>The start of the handler\<close>

text \<open>A header that is not a number is logged; the value that \<open>Atoi\<close> gives then is used.\<close>

definition v1_last_id :: "string \<Rightarrow> int" where
  "v1_last_id lastEventID = (if lastEventID = [] then 1 else fst (parse_int64 lastEventID))"

definition v1_GetEvents_start ::
  "bool \<Rightarrow> gerror + string \<Rightarrow> bool \<Rightarrow> string \<Rightarrow> http_writer \<Rightarrow> (int \<times> string) option \<times> http_writer" where
  "v1_GetEvents_start finished ip flushable lastEventID w =
     (if finished then (None, http_NotFound w)
      else (case v1_url ip of
          Inl err \<Rightarrow> (None, http_NotFound w)
        | Inr url \<Rightarrow>
            (let w' = sse_plain_headers w
             in if \<not> flushable then (None, http_NotFound w')
                else (Some (v1_last_id lastEventID, url), w'))))"

subsection \<open>The subscriber and the handler\<close>

datatype v1_sub = Waiting | Sending "event list" | Closed

text \<open>
  The counter moves with each line sent; \<open>v1_canceled\<close> is the subscriber's context, a child of the
  request's, and \<open>v1_stopping\<close> the application's.
\<close>

record v1_state =
  v1_sub :: v1_sub
  v1_counter :: int
  v1_running :: bool
  v1_canceled :: bool
  v1_stopping :: bool
  v1_out :: "(event \<times> bool) list"

definition v1_init :: "int \<Rightarrow> v1_state" where
  "v1_init last_id = \<lparr>v1_sub = Waiting, v1_counter = last_id, v1_running = True, v1_canceled = False,
     v1_stopping = False, v1_out = []\<rparr>"

definition v1_ping :: event where
  "v1_ping = \<lparr>ev_id = 0, ev_event = ''ping'', ev_data = [], ev_json = JNull\<rparr>"

definition v1_shutdown :: event where
  "v1_shutdown = \<lparr>ev_id = 0, ev_event = ''shutdown'', ev_data = ''ESR finished, shutting down'', ev_json = JNull\<rparr>"

datatype v1_case = V1Done | V1Ping | V1Tick listener bool

text \<open>
  The counter is advanced after each send of a line.  It is read at the next tick only, so the model
  advances it when the lines are taken over.
\<close>

definition v1_select :: "(string \<Rightarrow> string option) \<Rightarrow> string \<Rightarrow> v1_case \<Rightarrow> v1_state \<Rightarrow> v1_state" where
  "v1_select flt url c s =
     (case c of
        V1Done \<Rightarrow> s\<lparr>v1_sub := Closed\<rparr>
      | V1Ping \<Rightarrow> s\<lparr>v1_sub := Sending [v1_ping]\<rparr>
      | V1Tick listener finished \<Rightarrow>
          (case v1_GetFrom flt listener url (itoa (v1_counter s)) of
             Inl err \<Rightarrow> if finished then s\<lparr>v1_sub := Sending [v1_shutdown]\<rparr> else s
           | Inr newEvents \<Rightarrow>
               s\<lparr>v1_sub := (if newEvents = [] then Waiting else Sending newEvents),
                 v1_counter := wrap64 (v1_counter s + int (length newEvents))\<rparr>))"

text \<open>
  The handler cancels the subscriber's context when the server stops, writes what it receives (and
  stays in its loop if a write fails), and returns when the channel is closed.
\<close>

inductive v1_step :: "(v1_case \<Rightarrow> bool) \<Rightarrow> (string \<Rightarrow> string option) \<Rightarrow> string \<Rightarrow> v1_state \<Rightarrow> v1_state \<Rightarrow> bool"
  for A flt url where
  client_leaves: "v1_step A flt url s (s\<lparr>v1_canceled := True\<rparr>)"
| server_stops: "v1_step A flt url s (s\<lparr>v1_stopping := True\<rparr>)"
| cancels: "v1_running s \<Longrightarrow> v1_stopping s \<Longrightarrow> v1_step A flt url s (s\<lparr>v1_canceled := True\<rparr>)"
| subscriber: "v1_sub s = Waiting \<Longrightarrow> A c \<Longrightarrow> c \<noteq> V1Done \<Longrightarrow> v1_step A flt url s (v1_select flt url c s)"
| subscriber_ends: "v1_sub s = Waiting \<Longrightarrow> v1_canceled s \<Longrightarrow> v1_step A flt url s (v1_select flt url V1Done s)"
| receive: "v1_sub s = Sending (e # es) \<Longrightarrow> v1_running s \<Longrightarrow>
     v1_step A flt url s (s\<lparr>v1_sub := (if es = [] then Waiting else Sending es), v1_out := v1_out s @ [(e, write_ok)]\<rparr>)"
| returns: "v1_sub s = Closed \<Longrightarrow> v1_running s \<Longrightarrow> v1_step A flt url s (s\<lparr>v1_running := False\<rparr>)"

inductive v1_reach :: "(v1_case \<Rightarrow> bool) \<Rightarrow> (string \<Rightarrow> string option) \<Rightarrow> string \<Rightarrow> v1_state \<Rightarrow> v1_state \<Rightarrow> bool"
  for A flt url s0 where
  start: "v1_reach A flt url s0 s0"
| more: "v1_reach A flt url s0 s \<Longrightarrow> v1_step A flt url s s' \<Longrightarrow> v1_reach A flt url s0 s'"

inductive_cases v1_stepE: "v1_step A flt url s s'"

lemma v1_reach_trans: "v1_reach A flt url b c \<Longrightarrow> v1_reach A flt url a b \<Longrightarrow> v1_reach A flt url a c"
  by (induction rule: v1_reach.induct) (auto intro: v1_reach.more)

subsection \<open>The handler never leaves the subscriber behind\<close>

definition v1_ok :: "v1_state \<Rightarrow> bool" where
  "v1_ok s = (v1_sub s \<noteq> Sending [] \<and> (\<not> v1_running s \<longrightarrow> v1_sub s = Closed))"

lemma v1_step_ok: "v1_step A flt url s s' \<Longrightarrow> v1_ok s \<Longrightarrow> v1_ok s'"
proof (cases rule: v1_step.cases, assumption)
  fix c
  assume "v1_ok s" "s' = v1_select flt url c s" "v1_sub s = Waiting"
  then show ?thesis by (cases c) (auto simp: v1_ok_def v1_select_def split: sum.splits)
qed (auto simp: v1_ok_def v1_select_def)

lemma v1_reach_ok: "v1_reach A flt url (v1_init l) s \<Longrightarrow> v1_ok s"
proof (induction rule: v1_reach.induct)
  case start
  show ?case by (simp add: v1_ok_def v1_init_def)
qed (rule v1_step_ok)

text \<open>What is pending is received, the subscriber closes the channel, and the handler returns.\<close>

definition v1_finished :: "v1_state \<Rightarrow> bool" where
  "v1_finished s = (v1_sub s = Closed \<and> \<not> v1_running s)"

lemma v1_drain:
  "v1_sub s = Sending es \<Longrightarrow> es \<noteq> [] \<Longrightarrow> v1_running s \<Longrightarrow>
   \<exists>s'. v1_reach A flt url s s' \<and> v1_sub s' = Waiting \<and> v1_running s'
     \<and> v1_canceled s' = v1_canceled s \<and> map fst (v1_out s') = map fst (v1_out s) @ es"
proof (induction es arbitrary: s)
  case (Cons e es)
  let ?s = "s\<lparr>v1_sub := (if es = [] then Waiting else Sending es), v1_out := v1_out s @ [(e, True)]\<rparr>"
  have st: "v1_reach A flt url s ?s"
    using v1_step.receive [OF Cons.prems(1,3)] by (rule v1_reach.more [OF v1_reach.start])
  show ?case
  proof (cases "es = []")
    case True
    then show ?thesis using st Cons.prems(3) by (intro exI [of _ ?s]) simp
  next
    case False
    then obtain s' where "v1_reach A flt url ?s s'" "v1_sub s' = Waiting" "v1_running s'"
      "v1_canceled s' = v1_canceled s" "map fst (v1_out s') = map fst (v1_out s) @ e # es"
      using Cons.IH [of ?s] Cons.prems(3) by auto
    then show ?thesis using v1_reach_trans [OF _ st] by blast
  qed
qed simp

lemma v1_running_finishes:
  assumes "v1_ok s" "v1_running s" "v1_canceled s \<or> v1_stopping s"
  shows "\<exists>s'. v1_reach (\<lambda>_. False) flt url s s' \<and> v1_finished s'
      \<and> map fst (v1_out s') = map fst (v1_out s) @ (case v1_sub s of Sending es \<Rightarrow> es | _ \<Rightarrow> [])"
proof -
  let ?F = "\<lambda>_ :: v1_case. False"
  let ?pending = "case v1_sub s of Sending es \<Rightarrow> es | _ \<Rightarrow> []"
  define s1 where "s1 = s\<lparr>v1_canceled := True\<rparr>"
  have r1: "v1_reach ?F flt url s s1"
  proof (cases "v1_canceled s")
    case True
    then have "s1 = s" by (simp add: s1_def)
    then show ?thesis by (simp add: v1_reach.start)
  next
    case False
    then have "v1_step ?F flt url s s1" unfolding s1_def using assms(2,3) by (blast intro: v1_step.cancels)
    then show ?thesis by (rule v1_reach.more [OF v1_reach.start])
  qed
  have "\<exists>s2. v1_reach ?F flt url s1 s2 \<and> v1_sub s2 \<in> {Waiting, Closed} \<and> v1_running s2 \<and> v1_canceled s2
      \<and> map fst (v1_out s2) = map fst (v1_out s) @ ?pending"
  proof (cases "v1_sub s")
    case (Sending es)
    then have "v1_sub s1 = Sending es" "es \<noteq> []" "v1_running s1" using assms(1,2) by (auto simp: s1_def v1_ok_def)
    then show ?thesis using v1_drain [of s1 es ?F flt url] Sending by (auto simp: s1_def)
  qed (use assms(2) v1_reach.start in \<open>auto simp: s1_def intro!: exI [of _ s1]\<close>)
  then obtain s2 where s2: "v1_reach ?F flt url s1 s2" "v1_sub s2 \<in> {Waiting, Closed}" "v1_running s2" "v1_canceled s2"
    "map fst (v1_out s2) = map fst (v1_out s) @ ?pending" by blast
  define s3 where "s3 = s2\<lparr>v1_sub := Closed\<rparr>"
  have r3: "v1_reach ?F flt url s2 s3"
  proof (cases "v1_sub s2 = Waiting")
    case True
    then have "v1_step ?F flt url s2 s3"
      using v1_step.subscriber_ends [OF True s2(4)] by (simp add: s3_def v1_select_def)
    then show ?thesis by (rule v1_reach.more [OF v1_reach.start])
  next
    case False
    then have "s3 = s2" using s2(2) by (simp add: s3_def)
    then show ?thesis by (simp add: v1_reach.start)
  qed
  define s4 where "s4 = s3\<lparr>v1_running := False\<rparr>"
  have "v1_step ?F flt url s3 s4" unfolding s4_def by (rule v1_step.returns) (simp_all add: s3_def s2)
  then have "v1_reach ?F flt url s s4"
    using r1 s2(1) r3 v1_reach.more v1_reach_trans by metis
  then show ?thesis using s2(5) by (intro exI [of _ s4]) (simp add: s4_def s3_def v1_finished_def)
qed

text \<open>
  C34: Stopping always works in the second protocol: in every reachable state the handler has
  returned only if the subscriber has closed its channel (so no goroutine is left in a send), and
  from every reachable state in which the client has left or the server stops, handler and
  subscriber can both finish with no further tick, ping or poll, and without losing an event that
  was already taken over from the listener.
\<close>

theorem v1_can_finish:
  assumes "v1_reach A flt url (v1_init l) s"
  shows "(\<not> v1_running s \<longrightarrow> v1_sub s = Closed)
    \<and> (v1_canceled s \<or> v1_stopping s \<longrightarrow>
      (\<exists>s'. v1_reach (\<lambda>_. False) flt url s s' \<and> v1_finished s'
        \<and> map fst (v1_out s') = map fst (v1_out s) @ (case v1_sub s of Sending es \<Rightarrow> es | _ \<Rightarrow> [])))"
proof -
  have ok: "v1_ok s" using v1_reach_ok [OF assms] .
  show ?thesis
  proof (cases "v1_running s")
    case False
    then have "v1_finished s" "v1_sub s = Closed" using ok by (simp_all add: v1_ok_def v1_finished_def)
    then show ?thesis using v1_reach.start by (intro conjI impI exI [of _ s]) simp_all
  next
    case True
    then show ?thesis using v1_running_finishes [OF ok] by blast
  qed
qed

subsection \<open>What the client gets\<close>

text \<open>
  A listener that serves the log \<open>L\<close>: a request for the lines from a number on is answered with
  those that are there so far, or fails.
\<close>

definition v1_serves :: "string list \<Rightarrow> string \<Rightarrow> listener \<Rightarrow> bool" where
  "v1_serves L url listener =
     (\<forall>c \<ge> 1. case listener (url @ ''?start='' @ itoa c) of Inl _ \<Rightarrow> True
        | Inr body \<Rightarrow> (\<exists>k. body = lines_body (drop (nat (c - 1)) (take k L))))"

text \<open>Lines that the events \<open>es\<close> make, none of which is one of the subscriber's own.\<close>

definition v1_own :: "event \<Rightarrow> bool" where
  "v1_own e = (e = v1_ping \<or> e = v1_shutdown)"

definition v1_log :: "(string \<Rightarrow> string option) \<Rightarrow> string list \<Rightarrow> event list \<Rightarrow> bool" where
  "v1_log flt L es = ((\<forall>l \<in> set L. plain_line l) \<and> map (events_New flt) L = map Inr es \<and> (\<forall>e \<in> set es. \<not> v1_own e))"

lemma query_escape_itoa: "0 \<le> c \<Longrightarrow> query_escape (itoa c) = itoa c"
proof -
  have "query_unreserved (digit_char d)" if "d < 10" for d
  proof -
    have "of_char (digit_char d) = (48 + d :: nat)" using that by (simp add: digit_char_def)
    then show ?thesis using that by (simp add: query_unreserved_def Let_def)
  qed
  then have "\<forall>ch \<in> set (nat_dec n). query_unreserved ch" for n by (auto dest: nat_dec_digits)
  moreover have "\<forall>ch \<in> set s. query_unreserved ch \<Longrightarrow> query_escape s = s" for s
    by (induction s) (auto simp: query_escape_def)
  moreover assume "0 \<le> c"
  ultimately show ?thesis by (simp add: itoa_def)
qed

lemma v1_parse_lines_map: "map (events_New flt) ls = map Inr es \<Longrightarrow> v1_parse_lines flt ls = es"
  by (induction ls arbitrary: es) auto

lemma v1_GetFrom_serves:
  assumes "v1_serves L url listener" "v1_log flt L es" "1 \<le> c"
  shows "(\<exists>err. v1_GetFrom flt listener url (itoa c) = Inl err)
    \<or> (\<exists>k. v1_GetFrom flt listener url (itoa c) = Inr (take k (drop (nat (c - 1)) es)))"
proof (cases "listener (url @ ''?start='' @ itoa c)")
  case (Inl err)
  then show ?thesis using assms(3) by (simp add: v1_GetFrom_def query_escape_itoa)
next
  case (Inr body)
  then obtain k where b: "body = lines_body (drop (nat (c - 1)) (take k L))"
    using assms(1,3) by (force simp: v1_serves_def)
  have p: "\<forall>l \<in> set (drop (nat (c - 1)) (take k L)). plain_line l"
    using assms(2) by (auto simp: v1_log_def dest: in_set_dropD in_set_takeD)
  have m: "map (events_New flt) (drop (nat (c - 1)) (take k L)) = map Inr (drop (nat (c - 1)) (take k es))"
    using assms(2) by (simp add: v1_log_def drop_map [symmetric] take_map [symmetric])
  have "v1_GetFrom flt listener url (itoa c) = Inr (drop (nat (c - 1)) (take k es))"
    using Inr assms(3) b scan_lines_body [OF p] v1_parse_lines_map [OF m]
    by (simp add: v1_GetFrom_def query_escape_itoa)
  then show ?thesis by (auto simp: drop_take)
qed

definition v1_pending :: "v1_state \<Rightarrow> event list" where
  "v1_pending s = (case v1_sub s of Sending es \<Rightarrow> es | _ \<Rightarrow> [])"

definition v1_taken :: "v1_state \<Rightarrow> event list" where
  "v1_taken s = filter (\<lambda>e. \<not> v1_own e) (map fst (v1_out s) @ v1_pending s)"

definition v1_inv :: "event list \<Rightarrow> int \<Rightarrow> v1_state \<Rightarrow> bool" where
  "v1_inv es l s = (\<exists>n \<le> length es - nat (l - 1). v1_counter s = l + int n \<and> v1_taken s = take n (drop (nat (l - 1)) es))"

lemma v1_own_own [simp]: "v1_own v1_ping" "v1_own v1_shutdown"
  by (simp_all add: v1_own_def)

lemma v1_inv_frame: "v1_inv es l s \<Longrightarrow> v1_counter s' = v1_counter s \<Longrightarrow> v1_taken s' = v1_taken s \<Longrightarrow> v1_inv es l s'"
  by (simp add: v1_inv_def)

lemma v1_tick_inv:
  assumes "v1_inv es l s" "1 \<le> l" "l \<le> int64_max" "int (length es) < int64_max" "v1_sub s = Waiting"
    and "v1_serves L url listener" "v1_log flt L es"
  shows "v1_inv es l (v1_select flt url (V1Tick listener fin) s)"
proof -
  obtain n where n: "n \<le> length es - nat (l - 1)" "v1_counter s = l + int n"
    "v1_taken s = take n (drop (nat (l - 1)) es)" using assms(1) by (auto simp: v1_inv_def)
  have old: "filter (\<lambda>e. \<not> v1_own e) (map fst (v1_out s)) = take n (drop (nat (l - 1)) es)"
    using n(3) assms(5) by (simp add: v1_taken_def v1_pending_def)
  consider (fails) err where "v1_GetFrom flt listener url (itoa (l + int n)) = Inl err"
    | (ok) k where "v1_GetFrom flt listener url (itoa (l + int n)) = Inr (take k (drop (nat (l + int n - 1)) es))"
    using v1_GetFrom_serves [OF assms(6,7), of "l + int n"] assms(2) by auto
  then show ?thesis
  proof cases
    case fails
    then show ?thesis using n old assms(5)
      by (intro v1_inv_frame [OF assms(1)]) (auto simp: v1_select_def v1_taken_def v1_pending_def)
  next
    case ok
    define new where "new = take k (drop (nat (l + int n - 1)) es)"
    have pos: "nat (l + int n - 1) = nat (l - 1) + n" using assms(2) by simp
    have own: "filter (\<lambda>e. \<not> v1_own e) new = new"
      using assms(7) by (auto simp: new_def v1_log_def filter_id_conv dest!: in_set_takeD in_set_dropD)
    have len: "n + length new \<le> length es - nat (l - 1)" using n(1) by (simp add: new_def pos)
    have w: "wrap64 (l + int n + int (length new)) = l + int (n + length new)"
      using len assms(2-4) by (subst wrap64_id) (auto simp: int64_min_def)
    have "take n (drop (nat (l - 1)) es) @ new = take (n + length new) (drop (nat (l - 1)) es)"
      by (simp add: new_def pos take_add min_def ac_simps)
    then have "v1_taken (v1_select flt url (V1Tick listener fin) s) = take (n + length new) (drop (nat (l - 1)) es)"
      using ok n(2) old own by (auto simp: v1_select_def v1_taken_def v1_pending_def new_def [symmetric])
    moreover have "v1_counter (v1_select flt url (V1Tick listener fin) s) = l + int (n + length new)"
      using ok n(2) w by (simp add: v1_select_def new_def [symmetric])
    ultimately show ?thesis using len unfolding v1_inv_def by blast
  qed
qed

lemma v1_reach_inv:
  assumes "v1_reach A flt url (v1_init l) s" "v1_log flt L es" "1 \<le> l" "l \<le> int64_max" "int (length es) < int64_max"
    and "\<forall>listener fin. A (V1Tick listener fin) \<longrightarrow> v1_serves L url listener"
  shows "v1_inv es l s"
  using assms(1)
proof (induction rule: v1_reach.induct)
  case start
  show ?case by (auto simp: v1_inv_def v1_init_def v1_taken_def v1_pending_def)
next
  case (more s s')
  show ?case
    using more.hyps(2)
  proof cases
    case (subscriber c)
    show ?thesis
    proof (cases c)
      case (V1Tick listener fin)
      have "v1_serves L url listener" using subscriber(3) assms(6) V1Tick by blast
      then show ?thesis
        unfolding subscriber(1) V1Tick by (rule v1_tick_inv [OF more.IH assms(3-5) subscriber(2) _ assms(2)])
    qed (use subscriber in \<open>auto intro!: v1_inv_frame [OF more.IH] simp: v1_select_def v1_taken_def v1_pending_def\<close>)
  next
    case (receive e es' ok)
    then show ?thesis by (intro v1_inv_frame [OF more.IH]) (auto simp: v1_taken_def v1_pending_def)
  qed (auto intro!: v1_inv_frame [OF more.IH] simp: v1_select_def v1_taken_def v1_pending_def)
qed


subsection \<open>Examples\<close>

definition v1_flt :: "string \<Rightarrow> string option" where
  "v1_flt l = (if valid_num l then Some l else None)"

definition v1_ex_line :: string where "v1_ex_line = ''{\"id\":1,\"event\":\"message\",\"data\":\"a\"}''"

definition v1_ex_line2 :: string where "v1_ex_line2 = ''{\"id\":2,\"event\":\"message\",\"data\":\"b\"}''"

definition v1_ex_event :: event where
  "v1_ex_event = \<lparr>ev_id = 1, ev_event = ''message'', ev_data = ''\"a\"'', ev_json = JStr ''a''\<rparr>"

definition v1_ex_event2 :: event where
  "v1_ex_event2 = \<lparr>ev_id = 2, ev_event = ''message'', ev_data = ''\"b\"'', ev_json = JStr ''b''\<rparr>"

lemma v1_ex_parse: "events_New v1_flt v1_ex_line = Inr v1_ex_event" "events_New v1_flt v1_ex_line2 = Inr v1_ex_event2"
  by code_simp+

text \<open>A listener for a given log: the number after the last \<open>=\<close> of the request.\<close>

definition v1_listen :: "string list \<Rightarrow> string \<Rightarrow> listener" where
  "v1_listen L url request =
     Inr (lines_body (drop (nat (fst (parse_int64 (drop (length url + 7) request)) - 1)) L))"

lemma v1_listen_serves:
  assumes "int (length L) < int64_max"
  shows "v1_serves L url (v1_listen L url)"
  unfolding v1_serves_def
proof (intro allI impI)
  fix c :: int
  assume c: "1 \<le> c"
  have d: "drop (length url + 7) (url @ ''?start='' @ itoa c) = itoa c" by simp
  have "\<exists>k. lines_body (drop (nat (fst (parse_int64 (itoa c)) - 1)) L) = lines_body (drop (nat (c - 1)) (take k L))"
  proof (cases "c \<le> int64_max")
    case True
    then have "fst (parse_int64 (itoa c)) = c" using c parse_int64_itoa [of c] by (simp add: int64_min_def)
    then show ?thesis by (intro exI [of _ "length L"]) simp
  next
    case False
    then have "fst (parse_int64 (itoa c)) = int64_max"
    proof -
      obtain ch cs where e: "nat_dec (nat c) = ch # cs" by (cases "nat_dec (nat c)") auto
      from dec_acc_nat_dec [of "nat c"] have "dec_acc 0 (ch # cs) = Some (nat c)" by (simp add: e)
      then show ?thesis using nat_dec_head [OF e] False c
        by (simp add: parse_int64_def itoa_def dec_nat_def e clamp_int64_def del: dec_acc.simps)
    qed
    then show ?thesis using assms False by (intro exI [of _ "length L"]) simp
  qed
  then show "case v1_listen L url (url @ ''?start='' @ itoa c) of Inl _ \<Rightarrow> True
      | Inr body \<Rightarrow> (\<exists>k. body = lines_body (drop (nat (c - 1)) (take k L)))"
    by (simp only: v1_listen_def d sum.case)
qed

definition v1_ex_url :: string where "v1_ex_url = ''http://10.0.0.1:8000/v1/log''"

definition v1_ex_cases :: "v1_case \<Rightarrow> bool" where
  "v1_ex_cases c = (c \<in> {V1Ping, V1Tick (v1_listen [v1_ex_line, v1_ex_line2] v1_ex_url) False})"

lemma v1_ex_log: "v1_log v1_flt [v1_ex_line, v1_ex_line2] [v1_ex_event, v1_ex_event2]"
proof -
  have "plain_line v1_ex_line" "plain_line v1_ex_line2" by code_simp+
  moreover have "\<not> v1_own v1_ex_event" "\<not> v1_own v1_ex_event2" by code_simp+
  ultimately show ?thesis by (simp add: v1_log_def v1_ex_parse)
qed

text \<open>A client that resumes at 2 gets event 2.\<close>

definition v1_ex_state :: v1_state where
  "v1_ex_state = v1_select v1_flt v1_ex_url (V1Tick (v1_listen [v1_ex_line, v1_ex_line2] v1_ex_url) False) (v1_init 2)"

lemma v1_ex_reach: "v1_reach v1_ex_cases v1_flt v1_ex_url (v1_init 2) v1_ex_state"
  unfolding v1_ex_state_def
  by (rule v1_reach.more [OF v1_reach.start v1_step.subscriber]) (simp_all add: v1_init_def v1_ex_cases_def)


theorem v1_can_finish_witness:
  "\<exists>s'. v1_reach (\<lambda>_. False) v1_flt v1_ex_url (v1_ex_state\<lparr>v1_stopping := True\<rparr>) s' \<and> v1_finished s'
     \<and> map fst (v1_out s') = [v1_ex_event2]"
proof -
  have "v1_reach v1_ex_cases v1_flt v1_ex_url (v1_init 2) (v1_ex_state\<lparr>v1_stopping := True\<rparr>)"
    by (rule v1_reach.more [OF v1_ex_reach v1_step.server_stops])
  from v1_can_finish [OF this] obtain s' where s: "v1_reach (\<lambda>_. False) v1_flt v1_ex_url (v1_ex_state\<lparr>v1_stopping := True\<rparr>) s'"
    "v1_finished s'" "map fst (v1_out s') = map fst (v1_out v1_ex_state) @ (case v1_sub v1_ex_state of Sending es \<Rightarrow> es | _ \<Rightarrow> [])"
    by auto
  have "map fst (v1_out v1_ex_state) @ (case v1_sub v1_ex_state of Sending es \<Rightarrow> es | _ \<Rightarrow> []) = [v1_ex_event2]" by code_simp
  then show ?thesis using s by auto
qed

text \<open>
  A line that is no event does not move the counter, so the requests fall behind by one for each of
  them: from a log of one such line and one event, the first poll takes over the event, and the next
  one, which asks for number 2, takes it over again.
\<close>

definition v1_bad_log :: "string list" where "v1_bad_log = [''starting'', v1_ex_line]"

definition v1_bad_tick :: v1_case where "v1_bad_tick = V1Tick (v1_listen v1_bad_log v1_ex_url) False"

definition v1_bad_run :: v1_state where
  "v1_bad_run =
     (let s1 = v1_select v1_flt v1_ex_url v1_bad_tick (v1_init 1);
          s2 = s1\<lparr>v1_sub := Waiting, v1_out := [(v1_ex_event, True)]\<rparr>
      in v1_select v1_flt v1_ex_url v1_bad_tick s2)"

lemma v1_bad_sent_twice: "v1_taken v1_bad_run = [v1_ex_event, v1_ex_event]"
  by code_simp

text \<open>A header that is no number starts the stream at 0.\<close>

lemma v1_last_id_cases:
  "v1_last_id ''x'' = 0" "v1_last_id [] = 1"
  by code_simp+

end
