(* ===== verification/Sse_V1alpha.thy ===== *)
theory Sse_V1alpha
  imports Line_Scanner
begin

text \<open>
  \<open>pkg/sse/v1alpha/sse.go\<close>: the first SSE protocol.  The subscriber goroutine polls all log lines
  and sends the new ones over an unbuffered channel; the handler writes them to the client.  The two
  goroutines, the client and the server's shutdown are a step relation.
\<close>

subsection \<open>Polling\<close>

text \<open>The response is an error of the HTTP client or the bytes of the body that were received.\<close>

definition va_GetFrom :: "gerror + bytes \<Rightarrow> gerror + string list" where
  "va_GetFrom response = (case response of Inl err \<Rightarrow> Inl err | Inr body \<Rightarrow> Inr (scan_lines body))"

definition va_url :: "gerror + string \<Rightarrow> gerror + string" where
  "va_url ip = listener_url ''No IP from ESR yet'' ''/log'' ip"

text \<open>
  The events of one poll: the slice from the counter on, numbered from the counter.  A slice with a
  bound that is negative panics; the counter is a machine integer.
\<close>

fun va_number :: "int \<Rightarrow> string list \<Rightarrow> event list" where
  "va_number counter [] = []"
| "va_number counter (message # ms) =
     \<lparr>ev_id = counter, ev_event = ''message'', ev_data = message, ev_json = JNull\<rparr> # va_number (wrap64 (counter + 1)) ms"

definition va_poll :: "int \<Rightarrow> string list \<Rightarrow> event list outcome" where
  "va_poll counter messages =
     (if int (length messages) \<ge> wrap64 (counter - 1) then
        (if wrap64 (counter - 1) < 0 then Panicked ''slice bounds out of range''
         else Returned (va_number counter (drop (nat (wrap64 (counter - 1))) messages)))
      else Returned [])"

subsection \<open>The subscriber and the handler\<close>

text \<open>
  The subscriber waits in its \<open>select\<close>, sends the events of one case one after the other (and ends
  afterwards, or goes on), has closed the channel, or has panicked, which ends the whole process.
\<close>

datatype va_sub = Waiting | Sending "event list" bool | Closed | Crashed

record va_state =
  va_sub :: va_sub
  va_counter :: int
  va_running :: bool
  va_client_gone :: bool
  va_stopping :: bool
  va_out :: "(event \<times> bool) list"
  va_killed :: bool

definition va_init :: "int \<Rightarrow> va_state" where
  "va_init last_id = \<lparr>va_sub = Waiting, va_counter = last_id, va_running = True, va_client_gone = False,
     va_stopping = False, va_out = [], va_killed = False\<rparr>"

definition va_ping :: event where
  "va_ping = \<lparr>ev_id = 0, ev_event = ''ping'', ev_data = [], ev_json = JNull\<rparr>"

definition va_shutdown :: event where
  "va_shutdown = \<lparr>ev_id = 0, ev_event = ''shutdown'', ev_data = [], ev_json = JNull\<rparr>"

definition va_send :: "event list \<Rightarrow> va_sub" where
  "va_send es = (if es = [] then Waiting else Sending es False)"

text \<open>One case of the subscriber's \<open>select\<close>; a tick has the response and whether the runner is finished.\<close>

datatype va_case = VaDone | VaPing | VaTick "gerror + bytes" bool

definition va_select :: "va_case \<Rightarrow> va_state \<Rightarrow> va_state" where
  "va_select c s =
     s\<lparr>va_sub :=
       (case c of
          VaDone \<Rightarrow> Closed
        | VaPing \<Rightarrow> Sending [va_ping] False
        | VaTick response finished \<Rightarrow>
            (case va_GetFrom response of
               Inl err \<Rightarrow> if finished then Sending [va_shutdown] True else Waiting
             | Inr messages \<Rightarrow>
                 (case va_poll (va_counter s) messages of
                    Panicked _ \<Rightarrow> Crashed
                  | Returned es \<Rightarrow> va_send es)))\<rparr>"

text \<open>
  The handler receives the next event: a shutdown event makes it kill the connection and return,
  anything else is written, unless the write fails (and the handler stays in its loop).  On the
  other side, the subscriber goes on; only log lines move its counter.
\<close>

definition va_receive :: "bool \<Rightarrow> event \<Rightarrow> event list \<Rightarrow> bool \<Rightarrow> va_state \<Rightarrow> va_state" where
  "va_receive write_ok e es ends s =
     (let s1 = s\<lparr>va_sub := (if es \<noteq> [] then Sending es ends else if ends then Closed else Waiting),
                 va_counter := (if ev_event e = ''message'' then wrap64 (va_counter s + 1) else va_counter s)\<rparr>
      in if ev_event e = ''shutdown'' then s1\<lparr>va_running := False, va_client_gone := True, va_killed := True\<rparr>
         else s1\<lparr>va_out := va_out s1 @ [(e, write_ok)]\<rparr>)"

text \<open>
  The cases that can happen are a parameter.  When the handler returns, \<open>net/http\<close> cancels the
  request's context, which is the subscriber's (\<open>va_client_gone\<close>).  A closed channel gives the
  handler the zero event, again and again.
\<close>

inductive va_step :: "(va_case \<Rightarrow> bool) \<Rightarrow> va_state \<Rightarrow> va_state \<Rightarrow> bool" for A where
  client_leaves: "va_step A s (s\<lparr>va_client_gone := True\<rparr>)"
| server_stops: "va_step A s (s\<lparr>va_stopping := True\<rparr>)"
| subscriber: "va_sub s = Waiting \<Longrightarrow> A c \<Longrightarrow> c = VaDone \<longrightarrow> va_client_gone s \<Longrightarrow> va_step A s (va_select c s)"
| receive: "va_sub s = Sending (e # es) ends \<Longrightarrow> va_running s \<Longrightarrow> va_step A s (va_receive write_ok e es ends s)"
| receive_closed: "va_sub s = Closed \<Longrightarrow> va_running s \<Longrightarrow>
     va_step A s (s\<lparr>va_out := va_out s @ [(empty_event, write_ok)]\<rparr>)"
| returns: "va_running s \<Longrightarrow> va_sub s \<noteq> Crashed \<Longrightarrow> va_client_gone s \<or> va_stopping s \<Longrightarrow>
     va_step A s (s\<lparr>va_running := False, va_client_gone := True\<rparr>)"

inductive va_reach :: "(va_case \<Rightarrow> bool) \<Rightarrow> va_state \<Rightarrow> va_state \<Rightarrow> bool" for A s0 where
  start: "va_reach A s0 s0"
| more: "va_reach A s0 s \<Longrightarrow> va_step A s s' \<Longrightarrow> va_reach A s0 s'"

inductive_cases va_stepE: "va_step A s s'"

subsection \<open>The handler's start\<close>

definition va_last_id :: "string \<Rightarrow> int option" where
  "va_last_id lastEventID =
     (if lastEventID = [] then Some 1
      else (case parse_int64 lastEventID of (n, None) \<Rightarrow> Some n | (n, Some _) \<Rightarrow> None))"

definition va_GetEvents_start ::
  "bool \<Rightarrow> gerror + string \<Rightarrow> bool \<Rightarrow> string \<Rightarrow> http_writer \<Rightarrow> (int \<times> string) option \<times> http_writer" where
  "va_GetEvents_start finished ip flushable lastEventID w =
     (if finished then (None, http_NotFound w)
      else (case va_url ip of
          Inl err \<Rightarrow> (None, http_NotFound w)
        | Inr url \<Rightarrow>
            (case va_last_id lastEventID of
               None \<Rightarrow> (None, http_Error ''Bad Request'' 400 w)
             | Some last_id \<Rightarrow>
                 if \<not> flushable then (None, http_NotFound w)
                 else (Some (last_id, url), sse_plain_headers w))))"

text \<open>\<open>forceKillConnection\<close>: whether the writer can be hijacked, and whether that succeeded.\<close>

definition forceKillConnection :: "bool \<Rightarrow> gerror option \<Rightarrow> http_writer \<Rightarrow> bool \<times> http_writer" where
  "forceKillConnection hijacker err w =
     (if \<not> hijacker then (False, http_Error ''Internal Server Error'' 500 w)
      else case err of Some _ \<Rightarrow> (False, http_Error ''Internal Server Error'' 500 w) | None \<Rightarrow> (True, w))"

subsection \<open>What the client gets\<close>

definition va_line :: "int \<Rightarrow> string \<Rightarrow> event" where
  "va_line k message = \<lparr>ev_id = k, ev_event = ''message'', ev_data = message, ev_json = JNull\<rparr>"

definition va_lines :: "event list \<Rightarrow> event list" where
  "va_lines es = filter (\<lambda>e. ev_event e = ''message'') es"

lemma va_number_Cons [simp]: "va_number c (m # ms) = va_line c m # va_number (wrap64 (c + 1)) ms"
  by (simp add: va_line_def)

declare va_number.simps(2) [simp del]

lemma va_number_simple:
  "int64_min \<le> c \<Longrightarrow> c + int (length ms) \<le> int64_max + 1 \<Longrightarrow>
   va_number c ms = map (\<lambda>i. va_line (c + int i) (ms ! i)) [0..<length ms]"
proof (induction ms arbitrary: c)
  case (Cons m ms)
  show ?case
  proof (cases ms)
    case (Cons m' ms')
    then have w: "wrap64 (c + 1) = c + 1" using Cons.prems by (intro wrap64_id) auto
    have "map (\<lambda>i. va_line (c + int i) ((m # ms) ! i)) [0..<Suc (length ms)]
        = va_line c m # map (\<lambda>i. va_line (c + 1 + int i) (ms ! i)) [0..<length ms]"
      by (simp only: upt_conv_Cons map_Suc_upt [symmetric] list.map map_map o_def nth_Cons_Suc) (simp add: add.assoc)
    then show ?thesis using Cons.IH [of "c + 1"] Cons.prems w by simp
  qed simp
qed simp

lemma va_line_kinds [simp]:
  "ev_event (va_line k m) = ''message''" "ev_event va_ping = ''ping''" "ev_event va_shutdown = ''shutdown''"
  "ev_event empty_event = []"
  by (simp_all add: va_line_def va_ping_def va_shutdown_def empty_event_def)

text \<open>
  What a pending send can be: a ping, the shutdown, or the lines of the log from the counter on.
  \<open>L\<close> is the log in the end; every answer of the listener is a beginning of it.
\<close>

definition va_pending :: "string list \<Rightarrow> int \<Rightarrow> va_sub \<Rightarrow> bool" where
  "va_pending L c p =
     (case p of
        Sending es ends \<Rightarrow> es = [va_ping] \<or> es = [va_shutdown]
          \<or> (\<not> ends \<and> (\<exists>k. es = va_number c (take k (drop (nat (c - 1)) L))))
      | Crashed \<Rightarrow> False
      | _ \<Rightarrow> True)"

definition va_written :: "string list \<Rightarrow> int \<Rightarrow> nat \<Rightarrow> va_state \<Rightarrow> bool" where
  "va_written L l n s =
     (va_counter s = l + int n \<and> n \<le> length L - nat (l - 1)
      \<and> va_lines (map fst (va_out s)) = map (\<lambda>i. va_line (l + int i) (L ! (nat (l - 1) + i))) [0..<n]
      \<and> va_pending L (l + int n) (va_sub s))"

definition growing_log :: "string list \<Rightarrow> (va_case \<Rightarrow> bool) \<Rightarrow> bool" where
  "growing_log L A = (\<forall>r fin. A (VaTick r fin) \<longrightarrow> (case va_GetFrom r of Inl _ \<Rightarrow> True | Inr ms \<Rightarrow> ms = take (length ms) L))"

lemma va_written_frame:
  "va_written L l n s \<Longrightarrow> va_counter s' = va_counter s \<Longrightarrow> va_sub s' = va_sub s \<Longrightarrow>
   va_lines (map fst (va_out s')) = va_lines (map fst (va_out s)) \<Longrightarrow> va_written L l n s'"
  by (simp add: va_written_def)

lemma va_select_written:
  assumes "va_written L l n s" "1 \<le> l" "l + int n \<le> int64_max" "growing_log L A" "A c"
  shows "va_written L l n (va_select c s)"
proof -
  have w: "wrap64 (l + int n - 1) = l + int n - 1"
    using assms(2,3) by (intro wrap64_id) (auto simp: int64_min_def)
  have c: "va_counter s = l + int n" using assms(1) by (simp add: va_written_def)
  have "va_pending L (l + int n) (va_sub (va_select c s))"
  proof (cases c)
    case (VaTick r fin)
    show ?thesis
    proof (cases "va_GetFrom r")
      case (Inl e)
      then show ?thesis using VaTick by (simp add: va_select_def va_pending_def)
    next
      case (Inr ms)
      have ms: "ms = take (length ms) L" using assms(4,5) VaTick Inr by (auto simp: growing_log_def)
      have d: "drop k ms = take (length ms - k) (drop k L)" for k
        by (subst ms) (simp add: drop_take)
      have p: "va_poll (l + int n) ms = Returned [] \<or> va_poll (l + int n) ms
          = Returned (va_number (l + int n) (drop (nat (l + int n - 1)) ms))"
        using assms(2) w by (auto simp: va_poll_def)
      then obtain k where "va_poll (l + int n) ms = Returned (va_number (l + int n) (take k (drop (nat (l + int n - 1)) L)))"
      proof (elim disjE)
        assume "va_poll (l + int n) ms = Returned []"
        then show ?thesis using that [of 0] by simp
      qed (use d that in simp)
      then show ?thesis using VaTick Inr c by (auto simp: va_select_def va_pending_def va_send_def)
    qed
  qed (auto simp: va_select_def va_pending_def)
  then show ?thesis using assms(1) by (simp add: va_written_def va_select_def)
qed

lemma va_receive_written:
  assumes "va_written L l n s" "1 \<le> l" "int (length L) < int64_max"
    and "va_sub s = Sending (e # es) ends" "l + int n \<le> int64_max"
  shows "\<exists>n'. va_written L l n' (va_receive ok e es ends s)"
proof -
  let ?c = "l + int n"
  have inv: "va_counter s = ?c" "n \<le> length L - nat (l - 1)"
    "va_lines (map fst (va_out s)) = map (\<lambda>i. va_line (l + int i) (L ! (nat (l - 1) + i))) [0..<n]"
    using assms(1) by (simp_all add: va_written_def)
  consider (other) "e \<noteq> va_ping \<longrightarrow> e = va_shutdown" "es = []"
    | (line) k where "\<not> ends" "e # es = va_number ?c (take k (drop (nat (?c - 1)) L))"
  proof -
    have "va_pending L ?c (Sending (e # es) ends)" using assms(1,4) by (simp add: va_written_def)
    then show thesis using that by (auto simp: va_pending_def)
  qed
  then show ?thesis
  proof cases
    case other
    then have "va_written L l n (va_receive ok e es ends s)"
      using inv by (auto simp: va_written_def va_receive_def va_pending_def va_lines_def Let_def)
    then show ?thesis by blast
  next
    case line
    then obtain m ms where t: "take k (drop (nat (?c - 1)) L) = m # ms"
      by (cases "take k (drop (nat (?c - 1)) L)") auto
    then have lt: "nat (?c - 1) < length L" by (cases "nat (?c - 1) < length L") auto
    have pos: "nat (?c - 1) = nat (l - 1) + n" using assms(2) by simp
    have m: "m = L ! (nat (l - 1) + n)" using t lt pos by (metis Cons_nth_drop_Suc list.sel(1) take_Suc_Cons take_eq_Nil2 take_Cons' list.distinct(1))
    have ms: "ms = take (k - 1) (drop (nat (l - 1) + Suc n) L)"
      using t lt pos by (metis Cons_nth_drop_Suc add_Suc_right drop_Suc list.sel(3) take_Cons' list.distinct(1) take0)
    have w: "wrap64 (?c + 1) = ?c + 1"
      using lt assms(2,3) by (intro wrap64_id) (auto simp: int64_min_def)
    have ev: "e = va_line ?c m" "es = va_number (?c + 1) ms" using line(2) t w by simp_all
    have "nat (?c + 1 - 1) = nat (l - 1) + Suc n" using assms(2) by simp
    then have "va_written L l (Suc n) (va_receive ok e es ends s)"
      using inv ev m ms lt pos line(1) w
      by (auto simp: va_written_def va_receive_def va_pending_def va_lines_def Let_def algebra_simps intro!: exI [of _ "k - 1"])
    then show ?thesis by blast
  qed
qed

lemma va_written_bound:
  "va_written L l n s \<Longrightarrow> 1 \<le> l \<Longrightarrow> l \<le> int64_max \<Longrightarrow> int (length L) < int64_max \<Longrightarrow> l + int n \<le> int64_max"
  unfolding va_written_def by linarith

lemma va_reach_written:
  assumes "va_reach A (va_init l) s" "growing_log L A" "1 \<le> l" "l \<le> int64_max" "int (length L) < int64_max"
  shows "\<exists>n. va_written L l n s"
  using assms(1)
proof (induction rule: va_reach.induct)
  case start
  have "va_written L l 0 (va_init l)" by (simp add: va_written_def va_init_def va_lines_def va_pending_def)
  then show ?case by blast
next
  case (more s s')
  then obtain n where i: "va_written L l n s" by blast
  note b = va_written_bound [OF i assms(3-5)]
  show ?case
    using more.hyps(2)
  proof cases
    case (subscriber c)
    then show ?thesis using va_select_written [OF i assms(3) b assms(2)] by blast
  next
    case (receive e es ends ok)
    then show ?thesis using va_receive_written [OF i assms(3,5) _ b] by blast
  qed (use i in \<open>force intro!: exI [of _ n] elim!: va_written_frame simp: va_lines_def\<close>)+
qed

subsection \<open>Properties\<close>


text \<open>Two polls, a ping between them, and a resumption at line 2.\<close>

definition va_ex_case :: "va_case \<Rightarrow> bool" where
  "va_ex_case c = (c \<in> {VaPing, VaTick (Inr (lines_body [''a'', ''b''])) False,
     VaTick (Inr (lines_body [''a'', ''b'', ''c''])) False})"

definition va_ex_log :: "string list" where "va_ex_log = [''a'', ''b'', ''c'']"

lemma va_ex_growing: "growing_log va_ex_log va_ex_case"
proof -
  have "va_GetFrom (Inr (lines_body [''a'', ''b''])) = Inr [''a'', ''b'']"
    "va_GetFrom (Inr (lines_body [''a'', ''b'', ''c''])) = Inr [''a'', ''b'', ''c'']" by code_simp+
  then show ?thesis by (auto simp: growing_log_def va_ex_case_def va_ex_log_def)
qed

text \<open>The steps as a function, to build runs with.\<close>

fun va_do :: "va_case option \<Rightarrow> va_state \<Rightarrow> va_state" where
  "va_do (Some c) s = va_select c s"
| "va_do None s = (case va_sub s of Sending (e # es) ends \<Rightarrow> va_receive True e es ends s | _ \<Rightarrow> s)"

definition va_can :: "va_case option \<Rightarrow> va_state \<Rightarrow> bool" where
  "va_can i s = (case i of
     Some c \<Rightarrow> (case va_sub s of Waiting \<Rightarrow> c \<noteq> VaDone | _ \<Rightarrow> False)
   | None \<Rightarrow> va_running s \<and> (case va_sub s of Sending (e # es) ends \<Rightarrow> True | _ \<Rightarrow> False))"

fun va_play :: "va_case option list \<Rightarrow> va_state \<Rightarrow> va_state option" where
  "va_play [] s = Some s"
| "va_play (i # is) s = (if va_can i s then va_play is (va_do i s) else None)"

lemma va_do_step: "va_can i s \<Longrightarrow> (\<And>c. i = Some c \<Longrightarrow> A c) \<Longrightarrow> va_step A s (va_do i s)"
  by (cases i) (auto simp: va_can_def split: va_sub.splits list.splits intro: va_step.intros)

lemma va_play_reach:
  "va_reach A s0 s \<Longrightarrow> \<forall>c. Some c \<in> set is \<longrightarrow> A c \<Longrightarrow> va_play is s = Some s' \<Longrightarrow> va_reach A s0 s'"
proof (induction "is" arbitrary: s)
  case (Cons i "is")
  have c: "va_can i s" and p: "va_play is (va_do i s) = Some s'" using Cons.prems(3) by (simp_all split: if_splits)
  have "va_step A s (va_do i s)" using c Cons.prems(2) by (intro va_do_step) auto
  then show ?case using Cons.IH [OF va_reach.more [OF Cons.prems(1)]] Cons.prems(2) p by simp
qed simp

definition va_ex_run :: "va_case option list" where
  "va_ex_run = [Some (VaTick (Inr (lines_body [''a'', ''b''])) False), None, Some VaPing, None,
     Some (VaTick (Inr (lines_body [''a'', ''b'', ''c''])) False), None]"


text \<open>When the process can crash.  Pending lines are the ones that still move the counter.\<close>

definition va_safe :: "va_state \<Rightarrow> bool" where
  "va_safe s =
     (let c = va_counter s; p = (case va_sub s of Sending es _ \<Rightarrow> length (va_lines es) | _ \<Rightarrow> 0)
      in va_sub s \<noteq> Crashed \<and> ((c = int64_min \<and> p = 0) \<or> (1 \<le> c \<and> c + int p \<le> int64_max)))"

definition short_answers :: "(va_case \<Rightarrow> bool) \<Rightarrow> bool" where
  "short_answers A = (\<forall>r fin ms. A (VaTick r fin) \<longrightarrow> va_GetFrom r = Inr ms \<longrightarrow> int (length ms) < int64_max)"

lemma va_lines_number: "length (va_lines (va_number c ms)) = length ms"
  by (induction ms arbitrary: c) (simp_all add: va_lines_def)

lemma va_poll_safe:
  assumes "c = int64_min \<or> 1 \<le> c \<and> c \<le> int64_max" "int (length ms) < int64_max"
  shows "\<exists>es. va_poll c ms = Returned es \<and> (c = int64_min \<longrightarrow> es = [])
    \<and> (1 \<le> c \<longrightarrow> c + int (length (va_lines es)) \<le> int64_max)"
proof (cases "c = int64_min")
  case True
  have "wrap64 (int64_min - 1) = int64_max" by (simp add: wrap64_def int64_min_def int64_max_def)
  then show ?thesis using True assms(2) by (auto simp: va_poll_def va_lines_def int64_min_def)
next
  case False
  then have c: "1 \<le> c" "c \<le> int64_max" using assms(1) by auto
  then have w: "wrap64 (c - 1) = c - 1" by (intro wrap64_id) (auto simp: int64_min_def)
  show ?thesis using w c assms(2) False
    by (auto simp: va_poll_def va_lines_number) (auto simp: va_lines_def)
qed

lemma va_step_safe: "va_step A s s' \<Longrightarrow> short_answers A \<Longrightarrow> va_safe s \<Longrightarrow> va_safe s'"
proof (cases rule: va_step.cases, assumption)
  fix c
  assume h: "short_answers A" "va_safe s" "s' = va_select c s" "va_sub s = Waiting" "A c"
  have i: "va_counter s = int64_min \<or> 1 \<le> va_counter s \<and> va_counter s \<le> int64_max"
    using h(2,4) by (auto simp: va_safe_def Let_def)
  show ?thesis
  proof (cases "\<exists>r fin ms. c = VaTick r fin \<and> va_GetFrom r = Inr ms")
    case True
    then obtain r fin ms where t: "c = VaTick r fin" "va_GetFrom r = Inr ms" by blast
    then have "int (length ms) < int64_max" using h(1,5) by (auto simp: short_answers_def)
    then obtain es where "va_poll (va_counter s) ms = Returned es"
      "va_counter s = int64_min \<longrightarrow> es = []" "1 \<le> va_counter s \<longrightarrow> va_counter s + int (length (va_lines es)) \<le> int64_max"
      using va_poll_safe [OF i] by blast
    then show ?thesis using h i t by (auto simp: va_safe_def va_select_def va_send_def Let_def va_lines_def)
  next
    case False
    then show ?thesis using h(3) i by (cases c) (auto simp: va_safe_def va_select_def Let_def va_lines_def split: sum.splits)
  qed
next
  fix e es ends ok
  assume h: "va_safe s" "s' = va_receive ok e es ends s" "va_sub s = Sending (e # es) ends"
  have w: "1 \<le> va_counter s \<Longrightarrow> va_counter s + 1 \<le> int64_max \<Longrightarrow> wrap64 (va_counter s + 1) = va_counter s + 1"
    by (intro wrap64_id) (auto simp: int64_min_def)
  show ?thesis using h w by (auto simp: va_safe_def va_receive_def Let_def va_lines_def split: if_splits)
qed (auto simp: va_safe_def)

lemma va_reach_safe: "va_reach A s0 s \<Longrightarrow> short_answers A \<Longrightarrow> va_safe s0 \<Longrightarrow> va_safe s"
  by (induction rule: va_reach.induct) (auto intro: va_step_safe)

text \<open>
  C40: A \<open>Last-Event-ID\<close> of zero or below crashes the server: for any ID \<open>l\<close> the header can carry,
  the subscriber's goroutine, which nothing recovers, can reach the panic of the slice expression
  exactly when \<open>l \<le> 0\<close> (the least integer apart, whose predecessor wraps around), as soon as a poll
  succeeds.  The handler accepts such an ID.
\<close>

theorem v1alpha_crash_iff:
  assumes "int64_min \<le> l" "l \<le> int64_max" "short_answers A" "A (VaTick r fin)" "va_GetFrom r = Inr ms"
  shows "(\<exists>s. va_reach A (va_init l) s \<and> va_sub s = Crashed) \<longleftrightarrow> int64_min < l \<and> l \<le> 0"
proof
  assume "\<exists>s. va_reach A (va_init l) s \<and> va_sub s = Crashed"
  then obtain s where s: "va_reach A (va_init l) s" "va_sub s = Crashed" by blast
  show "int64_min < l \<and> l \<le> 0"
  proof (rule ccontr)
    assume "\<not> (int64_min < l \<and> l \<le> 0)"
    then have "va_safe (va_init l)" using assms(1,2) by (auto simp: va_safe_def va_init_def)
    then show False using va_reach_safe [OF s(1) assms(3)] s(2) by (simp add: va_safe_def Let_def)
  qed
next
  assume l: "int64_min < l \<and> l \<le> 0"
  then have "wrap64 (l - 1) = l - 1" by (intro wrap64_id) (auto simp: int64_max_def)
  then have "va_poll l ms = Panicked ''slice bounds out of range''" using l by (simp add: va_poll_def)
  then have "va_sub (va_select (VaTick r fin) (va_init l)) = Crashed"
    using assms(5) by (simp add: va_select_def va_init_def)
  moreover have "va_reach A (va_init l) (va_select (VaTick r fin) (va_init l))"
    using va_step.subscriber [of "va_init l" A "VaTick r fin"] assms(4) by (intro va_reach.more [OF va_reach.start]) (simp add: va_init_def)
  ultimately show "\<exists>s. va_reach A (va_init l) s \<and> va_sub s = Crashed" by blast
qed

theorem v1alpha_crash_iff_witness:
  "va_last_id ''0'' = Some 0
   \<and> (\<exists>s. va_reach (\<lambda>c. c = VaTick (Inr []) False) (va_init 0) s \<and> va_sub s = Crashed)"
proof -
  have e: "va_GetFrom (Inr []) = Inr []" by code_simp
  have s: "short_answers (\<lambda>c. c = VaTick (Inr []) False)" using e by (auto simp: short_answers_def int64_max_def)
  have h: "va_last_id ''0'' = Some 0" by code_simp
  show ?thesis using h v1alpha_crash_iff [of 0, OF _ _ s refl e] by (simp add: int64_min_def int64_max_def)
qed

text \<open>
  A handler that returns abandons its subscriber: once it has returned while the subscriber is
  sending, no later step of the client, the server or the goroutines ever completes that send, so
  the goroutine stays for the life of the process.
\<close>

theorem v1alpha_leak:
  assumes "va_sub s = Sending es ends" "\<not> va_running s" "va_reach A s s'"
  shows "va_sub s' = Sending es ends \<and> \<not> va_running s'"
  using assms(3,1,2) by (induction rule: va_reach.induct) (auto elim!: va_stepE)

theorem v1alpha_leak_witness:
  "\<exists>s. va_reach (\<lambda>c. c = VaPing) (va_init 1) s \<and> va_sub s = Sending [va_ping] False \<and> \<not> va_running s
     \<and> (\<forall>s'. va_reach (\<lambda>c. c = VaPing) s s' \<longrightarrow> va_sub s' = Sending [va_ping] False)"
proof -
  let ?A = "\<lambda>c. c = VaPing"
  let ?s1 = "va_select VaPing (va_init 1)"
  let ?s2 = "?s1\<lparr>va_stopping := True\<rparr>"
  let ?s3 = "?s2\<lparr>va_running := False, va_client_gone := True\<rparr>"
  have "va_step ?A (va_init 1) ?s1" by (rule va_step.subscriber) (simp_all add: va_init_def)
  moreover have "va_step ?A ?s1 ?s2" by (rule va_step.server_stops)
  moreover have "va_step ?A ?s2 ?s3" by (rule va_step.returns) (simp_all add: va_select_def va_init_def)
  ultimately have r: "va_reach ?A (va_init 1) ?s3" by (blast intro: va_reach.intros)
  have s: "va_sub ?s3 = Sending [va_ping] False" "\<not> va_running ?s3" by (simp_all add: va_select_def)
  show ?thesis using r s v1alpha_leak [OF s] by blast
qed

end
