(* ===== verification/Kube_Cache.thy ===== *)
theory Kube_Cache
  imports Kube_Jobs
begin

text \<open>
  The cache of \<open>internal/kubernetes/kubernetes.go\<close> under concurrent lookups of one list:
  \<open>cc_step\<close> takes the steps of \<open>getAllJobs\<close> (and \<open>getAllPods\<close>, which is the same) one
  shared access at a time.  Besides the entry and the mutex the state has the clock, and for
  reference the successful calls of the API with the times they began and ended.
\<close>

datatype 'd cc_pc = Idle | Blocked | Holding | Fetching int | Finished int "gerror + 'd"

record 'd cc_state =
  cc_now :: int
  cc_entry :: "'d cache_entry option"
  cc_lock :: "nat option"
  cc_pc :: "nat \<Rightarrow> 'd cc_pc"
  cc_calls :: "(int \<times> int) list"

text \<open>
  The steps: the clock moves; a goroutine makes the first check; takes the mutex; checks again
  under it and, when that fails, calls the API; has the API's answer, stores it and releases the
  mutex; and makes a new lookup.
\<close>

datatype 'd cc_action = Pass nat | Check nat | Lock nat | Recheck nat | Answer nat "gerror + 'd" | Again nat

definition cc_check :: "int \<Rightarrow> 'd cc_state \<Rightarrow> 'd option" where
  "cc_check ttl s = checkCache ttl (cc_now s) [] (\<lambda>_. cc_entry s)"

fun cc_step :: "int \<Rightarrow> 'd cc_action \<Rightarrow> 'd cc_state \<Rightarrow> 'd cc_state option" where
  "cc_step ttl (Pass n) s = Some (s\<lparr>cc_now := cc_now s + int n\<rparr>)"
| "cc_step ttl (Check i) s =
     (if cc_pc s i = Idle then
        Some (s\<lparr>cc_pc := (cc_pc s)(i := (case cc_check ttl s of Some d \<Rightarrow> Finished (cc_now s) (Inr d) | None \<Rightarrow> Blocked))\<rparr>)
      else None)"
| "cc_step ttl (Lock i) s =
     (if cc_pc s i = Blocked \<and> cc_lock s = None then Some (s\<lparr>cc_lock := Some i, cc_pc := (cc_pc s)(i := Holding)\<rparr>) else None)"
| "cc_step ttl (Recheck i) s =
     (if cc_pc s i = Holding then
        (case cc_check ttl s of
           Some d \<Rightarrow> Some (s\<lparr>cc_lock := None, cc_pc := (cc_pc s)(i := Finished (cc_now s) (Inr d))\<rparr>)
         | None \<Rightarrow> Some (s\<lparr>cc_pc := (cc_pc s)(i := Fetching (cc_now s))\<rparr>))
      else None)"
| "cc_step ttl (Answer i r) s =
     (case cc_pc s i of
        Fetching t0 \<Rightarrow>
          (let s' = s\<lparr>cc_lock := None, cc_pc := (cc_pc s)(i := Finished (cc_now s) r)\<rparr>
           in case r of
                Inl err \<Rightarrow> Some s'
              | Inr d \<Rightarrow> Some (s'\<lparr>cc_entry := Some \<lparr>ce_data = d, ce_timestamp = cc_now s\<rparr>,
                                  cc_calls := (t0, cc_now s) # cc_calls s\<rparr>))
      | _ \<Rightarrow> None)"
| "cc_step ttl (Again i) s =
     (case cc_pc s i of Finished _ _ \<Rightarrow> Some (s\<lparr>cc_pc := (cc_pc s)(i := Idle)\<rparr>) | _ \<Rightarrow> None)"

fun cc_run :: "int \<Rightarrow> 'd cc_action list \<Rightarrow> 'd cc_state \<Rightarrow> 'd cc_state option" where
  "cc_run ttl [] s = Some s"
| "cc_run ttl (a # as) s = (case cc_step ttl a s of None \<Rightarrow> None | Some s' \<Rightarrow> cc_run ttl as s')"

definition cc_init :: "int \<Rightarrow> 'd cc_state" where
  "cc_init now = \<lparr>cc_now = now, cc_entry = None, cc_lock = None, cc_pc = (\<lambda>_. Idle), cc_calls = []\<rparr>"

subsection \<open>A lookup without interference is the sequential one\<close>

lemma cc_check_now: "cc_check ttl (s\<lparr>cc_now := t\<rparr>) = checkCache ttl t [] (\<lambda>_. cc_entry s)"
  by (simp add: cc_check_def)

text \<open>One goroutine on its own ends with the result of \<open>cached_list\<close>.\<close>

lemma cc_alone:
  assumes "cc_pc s i = Idle" "cc_lock s = None" "cc_now s = t1"
    and "cached_list ttl key (t1, t1 + int a, t1 + int a + int b) api (\<lambda>_. cc_entry s) = (r, m)"
  shows "\<exists>as s'. cc_run ttl as s = Some s' \<and> (\<exists>t. cc_pc s' i = Finished t r)
    \<and> cc_entry s' = m key \<and> (\<forall>j. j \<noteq> i \<longrightarrow> cc_pc s' j = cc_pc s j) \<and> cc_lock s' = None"
proof -
  have key: "checkCache ttl t k m = checkCache ttl t [] (\<lambda>_. m k)" for t k and m :: "'a sync_map"
    by (simp add: checkCache_def)
  show ?thesis
  proof (cases "cc_check ttl s")
    case (Some d)
    then have "r = Inr d" "m key = cc_entry s" using assms(3,4) key [of t1 key "\<lambda>_. cc_entry s"] by (auto simp: cached_list_def cc_check_def)
    then show ?thesis using assms(1,2) Some by (intro exI [of _ "[Check i]"]) simp
  next
    case c1: None
    let ?t2 = "t1 + int a"
    show ?thesis
    proof (cases "checkCache ttl ?t2 key (\<lambda>_. cc_entry s)")
      case (Some d)
      then have "r = Inr d" "m key = cc_entry s" using assms(3,4) c1 key [of _ key "\<lambda>_. cc_entry s"] by (auto simp: cached_list_def cc_check_def)
      then show ?thesis
        using assms(1-3) c1 Some key [of _ key "\<lambda>_. cc_entry s"]
        by (intro exI [of _ "[Check i, Pass a, Lock i, Recheck i]"]) (simp add: cc_check_def)
    next
      case c2: None
      then have "r = api" "m key = (case api of Inl e \<Rightarrow> cc_entry s | Inr d \<Rightarrow> Some \<lparr>ce_data = d, ce_timestamp = t1 + int a + int b\<rparr>)"
        using assms(3,4) c1 key [of _ key "\<lambda>_. cc_entry s"] by (auto simp: cached_list_def cc_check_def split: sum.splits)
      then show ?thesis
        using assms(1-3) c1 c2 key [of _ key "\<lambda>_. cc_entry s"]
        by (intro exI [of _ "[Check i, Pass a, Lock i, Recheck i, Pass b, Answer i api]"])
           (auto simp: cc_check_def Let_def split: sum.splits)
    qed
  qed
qed

subsection \<open>The invariant\<close>

definition inside :: "'d cc_pc \<Rightarrow> bool" where
  "inside pc = (case pc of Holding \<Rightarrow> True | Fetching _ \<Rightarrow> True | _ \<Rightarrow> False)"

fun spaced :: "int \<Rightarrow> (int \<times> int) list \<Rightarrow> bool" where
  "spaced ttl [] = True"
| "spaced ttl [c] = (fst c \<le> snd c)"
| "spaced ttl (c # d # cs) = (fst c \<le> snd c \<and> snd d + ttl \<le> fst c \<and> spaced ttl (d # cs))"

definition entry_ok :: "(int \<times> int) list \<Rightarrow> 'd cache_entry option \<Rightarrow> int \<Rightarrow> bool" where
  "entry_ok calls entry now =
     (case calls of [] \<Rightarrow> entry = None
      | c # _ \<Rightarrow> (\<exists>d. entry = Some \<lparr>ce_data = d, ce_timestamp = snd c\<rparr>) \<and> snd c \<le> now)"

definition cc_inv :: "int \<Rightarrow> 'd cc_state \<Rightarrow> bool" where
  "cc_inv ttl s =
     ((\<forall>i. inside (cc_pc s i) \<longleftrightarrow> cc_lock s = Some i)
      \<and> entry_ok (cc_calls s) (cc_entry s) (cc_now s)
      \<and> spaced ttl (cc_calls s)
      \<and> (\<forall>i t0. cc_pc s i = Fetching t0 \<longrightarrow> t0 \<le> cc_now s \<and> (\<forall>c cs. cc_calls s = c # cs \<longrightarrow> snd c + ttl \<le> t0)))"

lemma cc_inv_init: "cc_inv ttl (cc_init now)"
  by (simp add: cc_inv_def cc_init_def inside_def entry_ok_def)

lemma inside_simps [simp]:
  "\<not> inside Idle" "\<not> inside Blocked" "inside Holding" "inside (Fetching t)" "\<not> inside (Finished t r)"
  by (simp_all add: inside_def)

lemma cc_check_None:
  "cc_inv ttl s \<Longrightarrow> cc_check ttl s = None \<Longrightarrow> cc_calls s = c # cs \<Longrightarrow> snd c + ttl \<le> cc_now s"
  by (auto simp: cc_inv_def entry_ok_def cc_check_def checkCache_def split: if_splits)

lemma spaced_Cons: "spaced ttl (c # cs) \<longleftrightarrow> fst c \<le> snd c \<and> (\<forall>d ds. cs = d # ds \<longrightarrow> snd d + ttl \<le> fst c) \<and> spaced ttl cs"
  by (cases cs) auto

lemma cc_inv_step:
  assumes "cc_inv ttl s" "cc_step ttl a s = Some s'"
  shows "cc_inv ttl s'"
proof -
  have lk: "inside (cc_pc s i) \<longleftrightarrow> cc_lock s = Some i" for i using assms(1) by (simp add: cc_inv_def)
  show ?thesis
  proof (cases a)
    case (Pass n)
    have "entry_ok cs e t \<Longrightarrow> entry_ok cs e (t + int n)" for cs t and e :: "'a cache_entry option"
      by (auto simp: entry_ok_def split: list.splits)
    then show ?thesis using Pass assms by (fastforce simp: cc_inv_def)
  next
    case (Check i)
    then have "cc_pc s i = Idle" using assms by (auto split: if_splits)
    moreover from this have "cc_lock s \<noteq> Some i" using lk [of i] by simp
    ultimately show ?thesis using Check assms by (auto simp: cc_inv_def split: option.splits if_splits)
  next
    case (Lock i)
    then show ?thesis using assms by (auto simp: cc_inv_def split: if_splits)
  next
    case (Recheck i)
    then have pc: "cc_pc s i = Holding" using assms by (auto split: if_splits)
    then have lk: "cc_lock s = Some i" using assms(1) by (force simp: cc_inv_def)
    show ?thesis
    proof (cases "cc_check ttl s")
      case None
      then have "s' = s\<lparr>cc_pc := (cc_pc s)(i := Fetching (cc_now s))\<rparr>" using assms Recheck pc by simp
      then show ?thesis using assms(1) pc lk cc_check_None [OF assms(1) None] by (auto simp: cc_inv_def)
    next
      case (Some d)
      then have "s' = s\<lparr>cc_lock := None, cc_pc := (cc_pc s)(i := Finished (cc_now s) (Inr d))\<rparr>" using assms Recheck pc by simp
      then show ?thesis using assms(1) pc lk by (auto simp: cc_inv_def)
    qed
  next
    case (Answer i r)
    then obtain t0 where pc: "cc_pc s i = Fetching t0" using assms by (auto split: cc_pc.splits)
    then have lk: "cc_lock s = Some i" using assms(1) by (force simp: cc_inv_def)
    show ?thesis
    proof (cases r)
      case (Inl e)
      then have "s' = s\<lparr>cc_lock := None, cc_pc := (cc_pc s)(i := Finished (cc_now s) r)\<rparr>" using assms Answer pc by (simp add: Let_def)
      then show ?thesis using assms(1) pc lk by (auto simp: cc_inv_def)
    next
      case (Inr d)
      then have s': "s' = s\<lparr>cc_lock := None, cc_pc := (cc_pc s)(i := Finished (cc_now s) r),
          cc_entry := Some \<lparr>ce_data = d, ce_timestamp = cc_now s\<rparr>, cc_calls := (t0, cc_now s) # cc_calls s\<rparr>"
        using assms Answer pc by (simp add: Let_def)
      have others: "\<not> inside (cc_pc s j)" if "j \<noteq> i" for j using assms(1) lk that by (simp add: cc_inv_def)
      then have "cc_pc s j \<noteq> Fetching t" if "j \<noteq> i" for j t using that by (metis inside_simps(4))
      then show ?thesis using assms(1) pc lk others unfolding s' by (auto simp: cc_inv_def entry_ok_def spaced_Cons)
    qed
  next
    case (Again i)
    then obtain t r where pc: "cc_pc s i = Finished t r" using assms by (auto split: cc_pc.splits)
    moreover from this have "cc_lock s \<noteq> Some i" using lk [of i] by simp
    ultimately show ?thesis using Again assms by (auto simp: cc_inv_def split: if_splits)
  qed
qed

lemma cc_inv_run: "cc_inv ttl s \<Longrightarrow> cc_run ttl as s = Some s' \<Longrightarrow> cc_inv ttl s'"
  by (induction as arbitrary: s) (auto split: option.splits dest: cc_inv_step)

lemma cc_run_append:
  "cc_run ttl (as @ bs) s = (case cc_run ttl as s of None \<Rightarrow> None | Some s' \<Rightarrow> cc_run ttl bs s')"
  by (induction as arbitrary: s) (auto split: option.splits)

subsection \<open>Properties\<close>


definition ex_actions :: "nat cc_action list" where
  "ex_actions = [Check 0, Check 1, Lock 0, Recheck 0, Pass 1, Answer 0 (Inr 7), Lock 1, Recheck 1, Pass 6, Check 2, Lock 2, Recheck 2,
     Answer 2 (Inr 8)]"


text \<open>A goroutine inside the mutex can end its lookup, which leaves the others where they are.\<close>

lemma cc_inside_finishes:
  assumes "inside (cc_pc s i)"
  shows "\<exists>bs s' t' r. cc_run ttl bs s = Some s' \<and> cc_pc s' i = Finished t' r \<and> cc_lock s' = None \<and> length bs \<le> 2
      \<and> (\<forall>j. j \<noteq> i \<longrightarrow> cc_pc s' j = cc_pc s j)"
proof (cases "cc_pc s i")
  case Holding
  show ?thesis
  proof (cases "cc_check ttl s")
    case (Some d)
    then show ?thesis using Holding by (intro exI [of _ "[Recheck i]"]) simp
  next
    case None
    then show ?thesis using Holding by (intro exI [of _ "[Recheck i, Answer i (Inl io_EOF)]"]) (simp add: Let_def)
  qed
next
  case (Fetching a)
  then show ?thesis by (intro exI [of _ "[Answer i (Inl io_EOF)]"]) (simp add: Let_def)
qed (use assms in simp_all)

text \<open>A blocked one can once the holder, if any, has ended its own.\<close>

lemma cc_blocked_finishes:
  assumes pc: "cc_pc s i = Blocked" and lk: "\<forall>j. cc_lock s = Some j \<longrightarrow> inside (cc_pc s j)"
  shows "\<exists>bs s' t' r. cc_run ttl bs s = Some s' \<and> cc_pc s' i = Finished t' r \<and> length bs \<le> 5"
proof -
  have "\<exists>bs s1. cc_run ttl bs s = Some s1 \<and> cc_pc s1 i = Blocked \<and> cc_lock s1 = None \<and> length bs \<le> 2"
  proof (cases "cc_lock s")
    case None
    then show ?thesis using pc by (intro exI [of _ "[]"]) simp
  next
    case (Some j)
    then have "inside (cc_pc s j)" "j \<noteq> i" using lk pc by auto
    with cc_inside_finishes [of s j ttl] pc show ?thesis by metis
  qed
  then obtain bs s1 where s1: "cc_run ttl bs s = Some s1" "cc_pc s1 i = Blocked" "cc_lock s1 = None" "length bs \<le> 2" by blast
  let ?s2 = "s1\<lparr>cc_lock := Some i, cc_pc := (cc_pc s1)(i := Holding)\<rparr>"
  have "cc_run ttl (bs @ [Lock i]) s = Some ?s2" using s1 by (simp add: cc_run_append)
  moreover obtain cs s3 t' r where "cc_run ttl cs ?s2 = Some s3" "cc_pc s3 i = Finished t' r" "length cs \<le> 2"
    using cc_inside_finishes [of ?s2 i ttl] by auto
  ultimately show ?thesis using s1(4)
    by (intro exI [of _ "(bs @ [Lock i]) @ cs"] exI [of _ s3]) (simp add: cc_run_append [of ttl "bs @ [Lock i]"] del: append_assoc)
qed

text \<open>
  The mutex never wedges: from every state that lookups can reach, each goroutine can be brought
  to the end of its lookup, with at most two goroutines moving.
\<close>

theorem cache_lookups_finish:
  assumes "cc_run ttl as (cc_init t) = Some s"
  shows "\<exists>bs s' t' r. cc_run ttl bs s = Some s' \<and> cc_pc s' i = Finished t' r \<and> length bs \<le> 7"
proof -
  have inv: "cc_inv ttl s" using cc_inv_run [OF cc_inv_init assms] .
  have lk: "\<forall>j. cc_lock s = Some j \<longrightarrow> inside (cc_pc s j)" using inv by (simp add: cc_inv_def)
  show ?thesis
  proof (cases "cc_pc s i")
    case Idle
    show ?thesis
    proof (cases "cc_check ttl s")
      case (Some d)
      then show ?thesis using Idle by (intro exI [of _ "[Check i]"]) simp
    next
      case None
      let ?s1 = "s\<lparr>cc_pc := (cc_pc s)(i := Blocked)\<rparr>"
      have "cc_step ttl (Check i) s = Some ?s1" using Idle None by simp
      moreover have "\<forall>j. cc_lock ?s1 = Some j \<longrightarrow> inside (cc_pc ?s1 j)" using lk Idle by auto
      ultimately obtain bs s' t' r where "cc_run ttl (Check i # bs) s = Some s'" "cc_pc s' i = Finished t' r" "length bs \<le> 5"
        using cc_blocked_finishes [of ?s1 i ttl] by auto
      then show ?thesis by (intro exI [of _ "Check i # bs"] exI [of _ s']) simp
    qed
  next
    case Blocked
    from cc_blocked_finishes [OF this lk] show ?thesis by fastforce
  next
    case Holding
    with cc_inside_finishes [of s i] show ?thesis by fastforce
  next
    case (Fetching a)
    with cc_inside_finishes [of s i] show ?thesis by fastforce
  next
    case (Finished t' r)
    then show ?thesis by (intro exI [of _ "[]"]) simp
  qed
qed

lemma cache_lookups_finish_witness:
  "\<exists>s bs s' t' r. cc_run 5 [Check 0, Check 1, Lock 0] (cc_init 0 :: nat cc_state) = Some s \<and> cc_pc s 1 = Blocked
    \<and> cc_run 5 bs s = Some s' \<and> cc_pc s' 1 = Finished t' r"
proof -
  have "map_option (\<lambda>s. cc_pc s 1) (cc_run 5 [Check 0, Check 1, Lock 0] (cc_init 0 :: nat cc_state)) = Some Blocked" by code_simp
  then obtain s where s: "cc_run 5 [Check 0, Check 1, Lock 0] (cc_init 0 :: nat cc_state) = Some s" "cc_pc s 1 = Blocked" by blast
  with cache_lookups_finish [OF s(1), of 1] show ?thesis by blast
qed

subsection \<open>What the lookups say\<close>

definition jobs_finished :: "string \<Rightarrow> kube_job list \<Rightarrow> bool" where
  "jobs_finished uid all = (case filter (is_runner_job uid) all of [] \<Rightarrow> True
     | job # _ \<Rightarrow> \<not> (kj_Succeeded job = 0 \<and> kj_Failed job = 0))"

text \<open>
  When a suite runner is reported finished, Kubernetes listed its first job as succeeded or
  failed, or no job of it, at most the time to live before; the same list is behind an answer that
  it is not finished, unless the list could not be had.
\<close>

theorem IsFinished_meaning:
  assumes "kube_truthful gj gp c" "\<forall>d. api = Inr d \<longrightarrow> gj t3 d" "t1 \<le> t2" "t2 \<le> t3" "kn_client E = None"
    and "IsFinished E (t1, t2, t3) api uid c = (b, c')"
  shows "kube_truthful gj gp c'
    \<and> ((\<exists>t all. gj t all \<and> t1 - kc_TTL c < t \<and> b = jobs_finished uid all) \<or> (\<not> b \<and> (\<exists>err. api = Inl err)))"
proof -
  obtain r c1 where g: "getJobsByIdentifier (kn_namespace E) (t1, t2, t3) api uid c = (r, c1)" by force
  note f = getJobs_fresh [OF assms(1-4) g]
  have c1: "c' = c1" using assms(5,6) g by (auto simp: IsFinished_def split: sum.splits list.splits)
  show ?thesis
  proof (cases r)
    case (Inl e)
    then have "\<exists>err. api = Inl err"
      using g by (auto simp: getJobsByIdentifier_def getAllJobs_def cached_list_def split: prod.splits sum.splits option.splits)
    moreover have "\<not> b" using Inl assms(5,6) g by (simp add: IsFinished_def)
    ultimately show ?thesis using f c1 by blast
  next
    case (Inr js)
    then obtain t all where t: "gj t all" "t1 - kc_TTL c < t" "js = filter (is_runner_job uid) all" using f by blast
    have "b = jobs_finished uid all"
      using assms(5,6) g Inr t(3) by (auto simp: IsFinished_def jobs_finished_def split: list.splits)
    then show ?thesis using f c1 t by blast
  qed
qed

definition ex_job :: kube_job where
  "ex_job = \<lparr>kj_Name = ''esr'', kj_Labels = [(''id'', ''t''), (''app'', ''suite-runner'')], kj_Succeeded = 0, kj_Failed = 0\<rparr>"

definition ex_kenv :: kube_env where "ex_kenv = \<lparr>kn_namespace = ''ns'', kn_client = None\<rparr>"

lemma ex_cache_truthful: "kube_truthful gj gp newKubernetesCache"
  by (simp add: kube_truthful_def cache_truthful_def newKubernetesCache_def)

lemma IsFinished_meaning_witness:
  "\<not> fst (IsFinished ex_kenv (1, 2, 3) (Inr [ex_job]) ''t'' newKubernetesCache) \<and> \<not> jobs_finished ''t'' [ex_job]"
proof -
  obtain b c' where r: "IsFinished ex_kenv (1, 2, 3) (Inr [ex_job]) ''t'' newKubernetesCache = (b, c')" by force
  have "\<forall>d. (Inr [ex_job] :: gerror + _) = Inr d \<longrightarrow> (\<lambda>t d. d = [ex_job]) (3 :: int) d" by simp
  from IsFinished_meaning [OF ex_cache_truthful this _ _ _ r] have "b = jobs_finished ''t'' [ex_job]"
    by (simp add: ex_kenv_def)
  moreover have "\<not> jobs_finished ''t'' [ex_job]" by code_simp
  ultimately show ?thesis using r by simp
qed

text \<open>
  A suite runner that has just been created is reported finished, whatever Kubernetes says now,
  as long as a list from before its creation is cached.
\<close>

theorem new_runner_taken_for_finished:
  assumes "kn_client E = None" "kc_jobs c (''all_jobs_'' @ kn_namespace E) = Some \<lparr>ce_data = old, ce_timestamp = t0\<rparr>"
    and "t1 - t0 < kc_TTL c" "\<forall>job \<in> set old. \<not> is_runner_job uid job"
  shows "IsFinished E (t1, t2, t3) api uid c = (True, c)"
proof -
  have "checkCache (kc_TTL c) t1 (''all_jobs_'' @ kn_namespace E) (kc_jobs c) = Some old"
    using assms(2,3) by (simp only: checkCache_def option.case cache_entry.select_convs if_True)
  then have "getJobsByIdentifier (kn_namespace E) (t1, t2, t3) api uid c = (Inr (filter (is_runner_job uid) old), c)"
    unfolding getJobsByIdentifier_def getAllJobs_def cached_list_def
    by (simp only: prod.case option.case sum.case) simp
  moreover have "filter (is_runner_job uid) old = []" using assms(4) by (simp add: filter_empty_conv)
  ultimately show ?thesis using assms(1) by (simp add: IsFinished_def)
qed

lemma new_runner_taken_for_finished_witness:
  "fst (IsFinished ex_kenv (4, 5, 6) (Inr [ex_job]) ''t''
     (snd (IsFinished ex_kenv (1, 2, 3) (Inr []) ''t'' newKubernetesCache)))"
proof -
  let ?c = "snd (IsFinished ex_kenv (1, 2, 3) (Inr []) ''t'' newKubernetesCache)"
  have c: "?c = newKubernetesCache\<lparr>kc_jobs := [''all_jobs_ns'' \<mapsto> \<lparr>ce_data = [], ce_timestamp = 3\<rparr>]\<rparr>"
    by (simp add: IsFinished_def ex_kenv_def getJobsByIdentifier_def getAllJobs_def cached_list_def checkCache_def newKubernetesCache_def)
  have "IsFinished ex_kenv (4, 5, 6) (Inr [ex_job]) ''t'' ?c = (True, ?c)"
    unfolding c by (rule new_runner_taken_for_finished [of _ _ "[]" 3]) (simp_all add: ex_kenv_def newKubernetesCache_def)
  then show ?thesis by simp
qed

text \<open>
  The address of a log listener is that of the first pod of the first job that carries the
  test run's labels, in lists that Kubernetes gave at most the time to live before.
\<close>

theorem LogListenerIP_right:
  assumes "kube_truthful gj gp c" "\<forall>d. api = Inr d \<longrightarrow> gj t3 d" "t1 \<le> t2" "t2 \<le> t3"
    and "\<forall>d. api' = Inr d \<longrightarrow> gp t6 d" "t4 \<le> t5" "t5 \<le> t6"
    and "LogListenerIP E (t1, t2, t3) (t4, t5, t6) api api' uid c = (Inr ip, c')"
  shows "\<exists>t js t' ps job pod. gj t js \<and> t1 - kc_TTL c < t \<and> gp t' ps \<and> t4 - kc_TTL c < t'
    \<and> job \<in> set js \<and> pod \<in> set ps \<and> map_of (kp_Labels pod) ''job-name'' = Some (kj_Name job) \<and> kp_IP pod = ip
    \<and> (map_of (kj_Labels job) ''app.kubernetes.io/name'' = Some ''suite-runner''
          \<and> map_of (kj_Labels job) ''etos.eiffel-community.github.io/id'' = Some uid
       \<or> map_of (kj_Labels job) ''app'' = Some ''suite-runner'' \<and> map_of (kj_Labels job) ''id'' = Some uid)"
proof -
  obtain r c1 where g: "getJobsByIdentifier (kn_namespace E) (t1, t2, t3) api uid c = (r, c1)" by force
  note f = getJobs_fresh [OF assms(1-4) g]
  have cl: "kn_client E = None" using assms(8) by (auto simp: LogListenerIP_def split: option.splits)
  then obtain job js where r: "r = Inr (job # js)"
    using assms(8) g by (auto simp: LogListenerIP_def split: sum.splits list.splits)
  then obtain t all where t: "gj t all" "t1 - kc_TTL c < t" "job # js = filter (is_runner_job uid) all" using f by blast
  have "job \<in> set (filter (is_runner_job uid) all)" using t(3) by (metis list.set_intros(1))
  then have job: "job \<in> set all" "is_runner_job uid job" by simp_all
  obtain q c2 where p: "getAllPods (kn_namespace E) (t4, t5, t6) api' c1 = (q, c2)" by force
  have k1: "kube_truthful gj gp c1" "kc_TTL c1 = kc_TTL c" using f by simp_all
  note fp = getAllPods_fresh [OF k1(1) assms(5-7) p]
  obtain ps where q: "q = Inr ps" using assms(8) cl g r p by (auto simp: LogListenerIP_def split: sum.splits)
  then obtain pod rest where pod: "filter (\<lambda>pod. map_of (kp_Labels pod) ''job-name'' = Some (kj_Name job)) ps = pod # rest" "kp_IP pod = ip"
    using assms(8) cl g r p by (auto simp: LogListenerIP_def split: list.splits)
  have "pod \<in> set (filter (\<lambda>pod. map_of (kp_Labels pod) ''job-name'' = Some (kj_Name job)) ps)" using pod(1) by simp
  then have pod': "pod \<in> set ps" "map_of (kp_Labels pod) ''job-name'' = Some (kj_Name job)" by simp_all
  obtain t' where t': "gp t' ps" "t4 - kc_TTL c < t'" using fp q k1(2) by auto
  show ?thesis
    using t(1,2) t' job(1) pod' pod(2) job(2) [unfolded is_runner_job_iff] by blast
qed

definition ex_kpod :: kube_pod where "ex_kpod = \<lparr>kp_Labels = [(''job-name'', ''esr'')], kp_IP = ''10.0.0.7''\<rparr>"

lemma LogListenerIP_right_witness:
  "\<exists>job \<in> {ex_job}. map_of (kj_Labels job) ''id'' = Some ''t''
    \<and> fst (LogListenerIP ex_kenv (1, 2, 3) (4, 5, 6) (Inr [ex_job]) (Inr [ex_kpod]) ''t'' newKubernetesCache) = Inr ''10.0.0.7''"
proof -
  have e: "fst (LogListenerIP ex_kenv (1, 2, 3) (4, 5, 6) (Inr [ex_job]) (Inr [ex_kpod]) ''t'' newKubernetesCache) = Inr ''10.0.0.7''"
    by code_simp
  then obtain c' where r: "LogListenerIP ex_kenv (1, 2, 3) (4, 5, 6) (Inr [ex_job]) (Inr [ex_kpod]) ''t'' newKubernetesCache = (Inr ''10.0.0.7'', c')"
    by (metis prod.collapse)
  have a: "\<forall>d. (Inr [ex_job] :: gerror + _) = Inr d \<longrightarrow> (\<lambda>t d. d = [ex_job]) (3 :: int) d"
    "\<forall>d. (Inr [ex_kpod] :: gerror + _) = Inr d \<longrightarrow> (\<lambda>t d. d = [ex_kpod]) (6 :: int) d" by simp_all
  have "map_of (kj_Labels ex_job) ''id'' = Some ''t''"
    using LogListenerIP_right [OF ex_cache_truthful a(1) _ _ a(2) _ _ r] by (auto simp: ex_job_def)
  with e show ?thesis by blast
qed

end
