(* ===== verification/Sse_Connect.thy ===== *)
theory Sse_Connect
  imports Sse_V1 Sse_V1alpha Kube_Cache
begin

text \<open>
  The start of a stream of the older protocols: \<open>GetEvents\<close> of \<open>pkg/sse/v1\<close> and of
  \<open>pkg/sse/v1alpha\<close> with the lookups of \<open>internal/kubernetes\<close> they make.  The locale
  \<open>runner_lookup\<close> is what the handlers rely on; it is interpreted on the cached lookups.
\<close>

subsection \<open>The handlers with their lookups\<close>

definition v1_open ::
  "('c \<Rightarrow> bool \<times> 'c) \<Rightarrow> ('c \<Rightarrow> (gerror + string) \<times> 'c) \<Rightarrow> bool \<Rightarrow> string \<Rightarrow> http_writer \<Rightarrow> 'c
   \<Rightarrow> (int \<times> string) option \<times> http_writer \<times> 'c" where
  "v1_open finished ip flushable lastEventID w c =
     (case finished c of
        (True, c') \<Rightarrow> (None, http_NotFound w, c')
      | (False, c') \<Rightarrow>
          (case ip c' of (r, c'') \<Rightarrow>
             (case v1_GetEvents_start False r flushable lastEventID w of (res, w') \<Rightarrow> (res, w', c''))))"

definition va_open ::
  "('c \<Rightarrow> bool \<times> 'c) \<Rightarrow> ('c \<Rightarrow> (gerror + string) \<times> 'c) \<Rightarrow> bool \<Rightarrow> string \<Rightarrow> http_writer \<Rightarrow> 'c
   \<Rightarrow> (int \<times> string) option \<times> http_writer \<times> 'c" where
  "va_open finished ip flushable lastEventID w c =
     (case finished c of
        (True, c') \<Rightarrow> (None, http_NotFound w, c')
      | (False, c') \<Rightarrow>
          (case ip c' of (r, c'') \<Rightarrow>
             (case va_GetEvents_start False r flushable lastEventID w of (res, w') \<Rightarrow> (res, w', c''))))"

lemma listener_url_Inr:
  "listener_url m path r = Inr u \<longleftrightarrow> (\<exists>a. r = Inr a \<and> a \<noteq> [] \<and> u = ''http://'' @ a @ '':8000'' @ path)"
  by (auto simp: listener_url_def split: sum.splits if_splits)

lemma v1_start_Some:
  "v1_GetEvents_start fin r fl h w = (Some (n, u), w') \<Longrightarrow>
   \<not> fin \<and> v1_url r = Inr u \<and> fl \<and> n = v1_last_id h \<and> w' = sse_plain_headers w"
  by (auto simp: v1_GetEvents_start_def Let_def split: if_splits sum.splits)

lemma va_start_Some:
  "va_GetEvents_start fin r fl h w = (Some (n, u), w') \<Longrightarrow>
   \<not> fin \<and> va_url r = Inr u \<and> fl \<and> va_last_id h = Some n \<and> w' = sse_plain_headers w"
  by (auto simp: va_GetEvents_start_def split: if_splits sum.splits option.splits)

subsection \<open>The interface\<close>

text \<open>
  The laws: the first lookup keeps the state good; from a good state, an address that the second one
  gives serves the test run, and a report of \<open>finished\<close> has its reason.
\<close>

locale runner_lookup =
  fixes finished :: "'c \<Rightarrow> bool \<times> 'c" and ip :: "'c \<Rightarrow> (gerror + string) \<times> 'c"
    and good :: "'c \<Rightarrow> bool" and serves :: "string \<Rightarrow> bool" and ended :: bool
  assumes finished_good: "good c \<Longrightarrow> finished c = (b, c') \<Longrightarrow> good c'"
    and finished_ended: "good c \<Longrightarrow> finished c = (True, c') \<Longrightarrow> ended"
    and ip_serves: "good c \<Longrightarrow> ip c = (Inr a, c') \<Longrightarrow> serves a"
begin

lemma v1_opens:
  assumes "good c" "v1_open finished ip fl h w c = (Some (n, u), w', c')"
  shows "\<exists>a. serves a \<and> a \<noteq> [] \<and> u = ''http://'' @ a @ '':8000/v1/log'' \<and> w_status w' = w_status w"
proof -
  obtain c1 r where f: "finished c = (False, c1)" "ip c1 = (r, c')" and s: "v1_GetEvents_start False r fl h w = (Some (n, u), w')"
    using assms(2) by (auto simp: v1_open_def split: prod.splits bool.splits)
  obtain a where a: "r = Inr a" "a \<noteq> []" "u = ''http://'' @ a @ '':8000/v1/log''"
    using v1_start_Some [OF s] by (auto simp: v1_url_def listener_url_Inr)
  then show ?thesis using ip_serves [OF finished_good [OF assms(1) f(1)]] f(2) v1_start_Some [OF s] by auto
qed

lemma va_opens:
  assumes "good c" "va_open finished ip fl h w c = (Some (n, u), w', c')"
  shows "\<exists>a. serves a \<and> a \<noteq> [] \<and> u = ''http://'' @ a @ '':8000/log'' \<and> w_status w' = w_status w"
proof -
  obtain c1 r where f: "finished c = (False, c1)" "ip c1 = (r, c')" and s: "va_GetEvents_start False r fl h w = (Some (n, u), w')"
    using assms(2) by (auto simp: va_open_def split: prod.splits bool.splits)
  obtain a where a: "r = Inr a" "a \<noteq> []" "u = ''http://'' @ a @ '':8000/log''"
    using va_start_Some [OF s] by (auto simp: va_url_def listener_url_Inr)
  then show ?thesis using ip_serves [OF finished_good [OF assms(1) f(1)]] f(2) va_start_Some [OF s] by auto
qed

lemma refused_by_finished:
  assumes "good c" "finished c = (True, c')"
  shows "ended \<and> v1_open finished ip fl h w c = (None, http_NotFound w, c')
    \<and> va_open finished ip fl h w c = (None, http_NotFound w, c')"
  using finished_ended [OF assms] assms(2) by (simp add: v1_open_def va_open_def)

end

subsection \<open>The cached lookups\<close>

text \<open>What Kubernetes answers to one request, and when: for \<open>IsFinished\<close>, then for \<open>LogListenerIP\<close>.\<close>

record kube_answers =
  ka_times1 :: "int \<times> int \<times> int"
  ka_jobs1 :: "gerror + kube_job list"
  ka_times2 :: "int \<times> int \<times> int"
  ka_jobs2 :: "gerror + kube_job list"
  ka_times3 :: "int \<times> int \<times> int"
  ka_pods :: "gerror + kube_pod list"

definition finished_q :: "kube_env \<Rightarrow> kube_answers \<Rightarrow> string \<Rightarrow> kube_cache \<Rightarrow> bool \<times> kube_cache" where
  "finished_q E Q uid c = IsFinished E (ka_times1 Q) (ka_jobs1 Q) uid c"

definition listener_q :: "kube_env \<Rightarrow> kube_answers \<Rightarrow> string \<Rightarrow> kube_cache \<Rightarrow> (gerror + string) \<times> kube_cache" where
  "listener_q E Q uid c = LogListenerIP E (ka_times2 Q) (ka_times3 Q) (ka_jobs2 Q) (ka_pods Q) uid c"

definition answered :: "(int \<Rightarrow> 'd \<Rightarrow> bool) \<Rightarrow> int \<times> int \<times> int \<Rightarrow> gerror + 'd \<Rightarrow> bool" where
  "answered given ts api = (case ts of (t1, t2, t3) \<Rightarrow> t1 \<le> t2 \<and> t2 \<le> t3 \<and> (\<forall>d. api = Inr d \<longrightarrow> given t3 d))"

definition lookup_good ::
  "(int \<Rightarrow> kube_job list \<Rightarrow> bool) \<Rightarrow> (int \<Rightarrow> kube_pod list \<Rightarrow> bool) \<Rightarrow> int \<Rightarrow> kube_answers \<Rightarrow> kube_cache \<Rightarrow> bool" where
  "lookup_good gj gp ttl Q c =
     (kube_truthful gj gp c \<and> kc_TTL c = ttl \<and> answered gj (ka_times1 Q) (ka_jobs1 Q)
      \<and> answered gj (ka_times2 Q) (ka_jobs2 Q) \<and> answered gp (ka_times3 Q) (ka_pods Q))"

text \<open>
  The address of a pod of a job of the test run, in lists that Kubernetes gave at most the time to
  live before; and a list, as young, in which the runner's first job is over or absent.
\<close>

definition runner_address ::
  "(int \<Rightarrow> kube_job list \<Rightarrow> bool) \<Rightarrow> (int \<Rightarrow> kube_pod list \<Rightarrow> bool) \<Rightarrow> int \<Rightarrow> kube_answers \<Rightarrow> string \<Rightarrow> string \<Rightarrow> bool" where
  "runner_address gj gp ttl Q uid a =
     (\<exists>t js t' ps job pod. gj t js \<and> fst (ka_times2 Q) - ttl < t \<and> gp t' ps \<and> fst (ka_times3 Q) - ttl < t'
        \<and> job \<in> set js \<and> is_runner_job uid job \<and> pod \<in> set ps
        \<and> map_of (kp_Labels pod) ''job-name'' = Some (kj_Name job) \<and> kp_IP pod = a)"

definition seen_ended :: "(int \<Rightarrow> kube_job list \<Rightarrow> bool) \<Rightarrow> int \<Rightarrow> kube_answers \<Rightarrow> string \<Rightarrow> bool" where
  "seen_ended gj ttl Q uid = (\<exists>t all. gj t all \<and> fst (ka_times1 Q) - ttl < t \<and> jobs_finished uid all)"

lemma IsFinished_keeps:
  assumes "kube_truthful gj gp c" "answered gj ts api" "IsFinished E ts api uid c = (b, c')"
  shows "kube_truthful gj gp c' \<and> kc_TTL c' = kc_TTL c
    \<and> (b \<longrightarrow> (\<exists>t all. gj t all \<and> fst ts - kc_TTL c < t \<and> jobs_finished uid all))"
proof (cases "kn_client E")
  case (Some e)
  then show ?thesis using assms(1,3) by (simp add: IsFinished_def)
next
  case None
  obtain t1 t2 t3 where ts: "ts = (t1, t2, t3)" by (cases ts) auto
  then have a: "\<forall>d. api = Inr d \<longrightarrow> gj t3 d" "t1 \<le> t2" "t2 \<le> t3" using assms(2) by (simp_all add: answered_def)
  obtain r c1 where g: "getJobsByIdentifier (kn_namespace E) (t1, t2, t3) api uid c = (r, c1)" by force
  have "c' = c1" using None assms(3) g ts by (auto simp: IsFinished_def split: sum.splits list.splits)
  then show ?thesis
    using getJobs_fresh [OF assms(1) a g] IsFinished_meaning [OF assms(1) a None assms(3) [unfolded ts]] ts by auto
qed

interpretation kube_lookup: runner_lookup "finished_q E Q uid" "listener_q E Q uid" "lookup_good gj gp ttl Q"
  "runner_address gj gp ttl Q uid" "seen_ended gj ttl Q uid" for E Q uid gj gp ttl
proof unfold_locales
  fix c b c'
  assume g: "lookup_good gj gp ttl Q c" and f: "finished_q E Q uid c = (b, c')"
  then show "lookup_good gj gp ttl Q c'"
    using IsFinished_keeps [of gj gp c "ka_times1 Q" "ka_jobs1 Q" E uid b c'] by (simp add: lookup_good_def finished_q_def)
next
  fix c c'
  assume "lookup_good gj gp ttl Q c" "finished_q E Q uid c = (True, c')"
  then show "seen_ended gj ttl Q uid"
    using IsFinished_keeps [of gj gp c "ka_times1 Q" "ka_jobs1 Q" E uid True c']
    by (auto simp: lookup_good_def finished_q_def seen_ended_def)
next
  fix c a c'
  assume g: "lookup_good gj gp ttl Q c" and i: "listener_q E Q uid c = (Inr a, c')"
  obtain t1 t2 t3 where ts: "ka_times2 Q = (t1, t2, t3)" by (cases "ka_times2 Q") auto
  obtain t4 t5 t6 where ts': "ka_times3 Q = (t4, t5, t6)" by (cases "ka_times3 Q") auto
  have a: "kube_truthful gj gp c" "\<forall>d. ka_jobs2 Q = Inr d \<longrightarrow> gj t3 d" "t1 \<le> t2" "t2 \<le> t3"
    "\<forall>d. ka_pods Q = Inr d \<longrightarrow> gp t6 d" "t4 \<le> t5" "t5 \<le> t6" "kc_TTL c = ttl"
    using g ts ts' by (simp_all add: lookup_good_def answered_def)
  from LogListenerIP_right [OF a(1-7) i [unfolded listener_q_def ts ts']] show "runner_address gj gp ttl Q uid a"
    unfolding runner_address_def is_runner_job_iff ts ts' fst_conv a(8) by blast
qed

subsection \<open>Properties\<close>

text \<open>
  C35: An older stream that opens reads the right log: both handlers then talk to the port of the log
  listener at the address of a pod of a suite runner job of this test run, in job and pod lists that
  Kubernetes gave at most the cache's time to live before; and the response is still open.
\<close>

theorem stream_opens_right_log:
  assumes "lookup_good gj gp ttl Q c"
  shows "(v1_open (finished_q E Q uid) (listener_q E Q uid) fl h w c = (Some (n, u), w', c') \<longrightarrow>
      (\<exists>a. runner_address gj gp ttl Q uid a \<and> a \<noteq> [] \<and> u = ''http://'' @ a @ '':8000/v1/log'' \<and> w_status w' = w_status w))
    \<and> (va_open (finished_q E Q uid) (listener_q E Q uid) fl h w c = (Some (n, u), w', c') \<longrightarrow>
      (\<exists>a. runner_address gj gp ttl Q uid a \<and> a \<noteq> [] \<and> u = ''http://'' @ a @ '':8000/log'' \<and> w_status w' = w_status w))"
  using kube_lookup.v1_opens [OF assms] kube_lookup.va_opens [OF assms] by blast

definition ex_answers :: kube_answers where
  "ex_answers = \<lparr>ka_times1 = (1, 2, 3), ka_jobs1 = Inr [ex_job], ka_times2 = (4, 5, 6), ka_jobs2 = Inr [ex_job],
     ka_times3 = (7, 8, 9), ka_pods = Inr [ex_kpod]\<rparr>"

lemma ex_answers_good:
  "lookup_good (\<lambda>_ d. d = [ex_job]) (\<lambda>_ d. d = [ex_kpod]) (5 * 10 ^ 9) ex_answers newKubernetesCache"
  by (simp add: lookup_good_def answered_def ex_answers_def kube_truthful_def cache_truthful_def newKubernetesCache_def)

theorem stream_opens_right_log_witness:
  "\<exists>w' c'. v1_open (finished_q ex_kenv ex_answers ''t'') (listener_q ex_kenv ex_answers ''t'') True [] new_writer newKubernetesCache
       = (Some (1, ''http://10.0.0.7:8000/v1/log''), w', c') \<and> w_status w' = None
     \<and> runner_address (\<lambda>_ d. d = [ex_job]) (\<lambda>_ d. d = [ex_kpod]) (5 * 10 ^ 9) ex_answers ''t'' ''10.0.0.7''"
proof -
  let ?r = "v1_open (finished_q ex_kenv ex_answers ''t'') (listener_q ex_kenv ex_answers ''t'') True [] new_writer newKubernetesCache"
  have "fst ?r = Some (1, ''http://10.0.0.7:8000/v1/log'')" by code_simp
  then have r: "?r = (Some (1, ''http://10.0.0.7:8000/v1/log''), fst (snd ?r), snd (snd ?r))" by (metis prod.collapse)
  obtain a where a: "runner_address (\<lambda>_ d. d = [ex_job]) (\<lambda>_ d. d = [ex_kpod]) (5 * 10 ^ 9) ex_answers ''t'' a"
    "''http://10.0.0.7:8000/v1/log'' = ''http://'' @ a @ '':8000/v1/log''" "w_status (fst (snd ?r)) = w_status new_writer"
    using stream_opens_right_log [OF ex_answers_good] r by blast
  have "w_status new_writer = None" by code_simp
  moreover have "a = ''10.0.0.7''" using a(2) by (simp add: append_eq_append_conv2 append_eq_Cons_conv Cons_eq_append_conv)
  ultimately show ?thesis using r a by metis
qed

text \<open>
  A suite runner that has just been created cannot be listened to: while a job list from before
  its creation is cached, its first job counts as finished, and both handlers answer 404, whatever
  Kubernetes would say.
\<close>

theorem new_runner_refused:
  assumes "kn_client E = None" and "kc_jobs c (''all_jobs_'' @ kn_namespace E) = Some \<lparr>ce_data = old, ce_timestamp = t0\<rparr>"
    and "fst (ka_times1 Q) - t0 < kc_TTL c" and "\<forall>job \<in> set old. \<not> is_runner_job uid job"
  shows "v1_open (finished_q E Q uid) (listener_q E Q uid) fl h w c = (None, http_NotFound w, c)
    \<and> va_open (finished_q E Q uid) (listener_q E Q uid) fl h w c = (None, http_NotFound w, c)"
proof -
  obtain t1 t2 t3 where ts: "ka_times1 Q = (t1, t2, t3)" by (cases "ka_times1 Q") auto
  have "finished_q E Q uid c = (True, c)"
    unfolding finished_q_def ts using assms(3) ts
    by (intro new_runner_taken_for_finished [OF assms(1,2) _ assms(4)]) simp
  then show ?thesis by (simp add: v1_open_def va_open_def)
qed

definition ex_old_cache :: kube_cache where
  "ex_old_cache = newKubernetesCache\<lparr>kc_jobs := [''all_jobs_ns'' \<mapsto> \<lparr>ce_data = [], ce_timestamp = 0\<rparr>]\<rparr>"

theorem new_runner_refused_witness:
  "is_runner_job ''t'' ex_job \<and> ka_jobs1 ex_answers = Inr [ex_job]
   \<and> fst (snd (v1_open (finished_q ex_kenv ex_answers ''t'') (listener_q ex_kenv ex_answers ''t'') True [] new_writer ex_old_cache))
      = http_NotFound new_writer"
proof -
  have j: "is_runner_job ''t'' ex_job" by code_simp
  have c: "kn_client ex_kenv = None" "kc_jobs ex_old_cache (''all_jobs_'' @ kn_namespace ex_kenv) = Some \<lparr>ce_data = [], ce_timestamp = 0\<rparr>"
    "fst (ka_times1 ex_answers) - 0 < kc_TTL ex_old_cache" "\<forall>job \<in> set []. \<not> is_runner_job ''t'' job"
    by (simp_all add: ex_kenv_def ex_old_cache_def ex_answers_def newKubernetesCache_def)
  show ?thesis using j new_runner_refused [OF c] by (simp add: ex_answers_def)
qed

end
