(* ===== verification/Config.thy ===== *)
theory Config
  imports Etos_Prelude
begin

text \<open>
  \<open>internal/config\<close>: the settings of the services, from command line flags, environment variables
  and defaults.  The parser of \<open>flag\<close> is modelled as far as string and duration flags go; it exits
  the process on an error.  \<open>time.ParseDuration\<close> is a parameter, in nanoseconds.
\<close>

subsection \<open>Environment and flags\<close>

record process =
  pc_env :: "string \<Rightarrow> string option"
  pc_read :: "string \<Rightarrow> gerror + bytes"
  pc_duration :: "string \<Rightarrow> gerror + int"
  pc_args :: "string list"

definition EnvOrDefault :: "process \<Rightarrow> string \<Rightarrow> string \<Rightarrow> string" where
  "EnvOrDefault K key fallback = (case pc_env K key of Some v \<Rightarrow> v | None \<Rightarrow> fallback)"

abbreviation Getenv :: "process \<Rightarrow> string \<Rightarrow> string" where
  "Getenv K key \<equiv> EnvOrDefault K key []"

definition ReadNamespaceOrEnv :: "process \<Rightarrow> string \<Rightarrow> string" where
  "ReadNamespaceOrEnv K envKey =
     (case pc_read K ''/var/run/secrets/kubernetes.io/serviceaccount/namespace'' of
        Inl err \<Rightarrow> Getenv K envKey
      | Inr inClusterNamespace \<Rightarrow> inClusterNamespace)"

datatype flag_value = VStr string | VDur int

type_synonym flags = "(string \<times> flag_value) list"

text \<open>A flag that is defined twice panics.\<close>

fun define_flags :: "flags \<Rightarrow> flags \<Rightarrow> flags outcome" where
  "define_flags [] fs = Returned fs"
| "define_flags ((n, v) # new) fs =
     (if n \<in> fst ` set fs then Panicked (''flag redefined: '' @ n) else define_flags new (fs @ [(n, v)]))"

definition set_flag :: "process \<Rightarrow> flag_value \<Rightarrow> string \<Rightarrow> flag_value option" where
  "set_flag K old s =
     (case old of VStr _ \<Rightarrow> Some (VStr s)
      | VDur _ \<Rightarrow> (case pc_duration K s of Inl err \<Rightarrow> None | Inr d \<Rightarrow> Some (VDur d)))"

definition put_flag :: "string \<Rightarrow> flag_value \<Rightarrow> flags \<Rightarrow> flags" where
  "put_flag n v fs = map (\<lambda>(k, w). if k = n then (k, v) else (k, w)) fs"

text \<open>One argument's name, and its value if it has one: \<open>-name\<close>, \<open>--name\<close>, \<open>-name=value\<close>.\<close>

definition flag_name :: "string \<Rightarrow> string" where
  "flag_name s = (if take 2 s = ''--'' then drop 2 s else drop 1 s)"

definition flag_split :: "string \<Rightarrow> string \<times> string option" where
  "flag_split name =
     (let n = takeWhile (\<lambda>c. c \<noteq> CHR ''='') name
      in if n = name then (n, None) else (n, Some (drop (length n + 1) name)))"

text \<open>The exit code of a process whose arguments are refused, or the flags after parsing.\<close>

fun flag_Parse :: "process \<Rightarrow> string list \<Rightarrow> flags \<Rightarrow> int + flags" where
  "flag_Parse K [] fs = Inr fs"
| "flag_Parse K (s # args) fs =
     (if length s < 2 \<or> hd s \<noteq> CHR ''-'' \<or> s = ''--'' then Inr fs
      else if flag_name s = [] \<or> hd (flag_name s) \<in> {CHR ''-'', CHR ''=''} then Inl 2
      else (case flag_split (flag_name s) of
          (n, val) \<Rightarrow>
            (case map_of fs n of
               None \<Rightarrow> Inl (if n \<in> {''help'', ''h''} then 0 else 2)
             | Some old \<Rightarrow>
                 (case val of
                    Some v \<Rightarrow> (case set_flag K old v of None \<Rightarrow> Inl 2 | Some v' \<Rightarrow> flag_Parse K args (put_flag n v' fs))
                  | None \<Rightarrow>
                      (case args of
                         [] \<Rightarrow> Inl 2
                       | v # args' \<Rightarrow> (case set_flag K old v of None \<Rightarrow> Inl 2 | Some v' \<Rightarrow> flag_Parse K args' (put_flag n v' fs)))))))"

text \<open>A configuration is ready, or the process exits, or panics.\<close>

datatype 'c configured = Exits int | Panics string | Configured 'c

definition configure :: "process \<Rightarrow> flags \<Rightarrow> flags \<Rightarrow> flags configured" where
  "configure K own base =
     (case define_flags (own @ base) [] of
        Panicked m \<Rightarrow> Panics m
      | Returned fs \<Rightarrow> (case flag_Parse K (pc_args K) fs of Inl code \<Rightarrow> Exits code | Inr fs' \<Rightarrow> Configured fs'))"

definition flag_str :: "flags \<Rightarrow> string \<Rightarrow> string" where
  "flag_str fs n = (case map_of fs n of Some (VStr s) \<Rightarrow> s | _ \<Rightarrow> [])"

definition flag_dur :: "flags \<Rightarrow> string \<Rightarrow> int" where
  "flag_dur fs n = (case map_of fs n of Some (VDur d) \<Rightarrow> d | _ \<Rightarrow> 0)"

subsection \<open>The configurations\<close>

record baseCfg =
  serviceHost :: string
  servicePort :: string
  stripPrefix :: string
  logLevel :: string
  logFilePath :: string
  etosNamespace :: string
  databaseHost :: string
  databasePort :: string
  publicKeyPath :: string

definition base_flags :: "process \<Rightarrow> flags" where
  "base_flags K =
     [(''address'', VStr (EnvOrDefault K ''SERVICE_HOST'' ''127.0.0.1'')),
      (''port'', VStr (EnvOrDefault K ''SERVICE_PORT'' ''8080'')),
      (''stripprefix'', VStr (EnvOrDefault K ''STRIP_PREFIX'' [])),
      (''loglevel'', VStr (EnvOrDefault K ''LOGLEVEL'' ''INFO'')),
      (''logfilepath'', VStr (Getenv K ''LOG_FILE_PATH'')),
      (''etosnamespace'', VStr (ReadNamespaceOrEnv K ''ETOS_NAMESPACE'')),
      (''databasehost'', VStr (EnvOrDefault K ''ETOS_ETCD_HOST'' ''etcd-client'')),
      (''databaseport'', VStr (EnvOrDefault K ''ETOS_ETCD_PORT'' ''2379'')),
      (''publickeypath'', VStr (Getenv K ''PUBLIC_KEY_PATH''))]"

definition base_of :: "flags \<Rightarrow> baseCfg" where
  "base_of fs =
     \<lparr>serviceHost = flag_str fs ''address'', servicePort = flag_str fs ''port'', stripPrefix = flag_str fs ''stripprefix'',
      logLevel = flag_str fs ''loglevel'', logFilePath = flag_str fs ''logfilepath'',
      etosNamespace = flag_str fs ''etosnamespace'', databaseHost = flag_str fs ''databasehost'',
      databasePort = flag_str fs ''databaseport'', publicKeyPath = flag_str fs ''publickeypath''\<rparr>"

definition DatabaseURI :: "baseCfg \<Rightarrow> string" where
  "DatabaseURI c = databaseHost c @ '':'' @ databasePort c"

text \<open>A key without a path is no bytes, without an error.\<close>

definition PublicKey :: "process \<Rightarrow> baseCfg \<Rightarrow> gerror + bytes" where
  "PublicKey K c = (if publicKeyPath c = [] then Inr [] else pc_read K (publicKeyPath c))"

record sseCfg =
  sse_base :: baseCfg
  rabbitmqURI :: string
  rabbitmqStreamName :: string

definition NewSSEConfig :: "process \<Rightarrow> sseCfg configured" where
  "NewSSEConfig K =
     (case configure K [(''rabbitmquri'', VStr (Getenv K ''ETOS_RABBITMQ_URI'')),
          (''rabbitmqstreamname'', VStr (Getenv K ''ETOS_RABBITMQ_STREAM_NAME''))] (base_flags K) of
        Exits c \<Rightarrow> Exits c | Panics m \<Rightarrow> Panics m
      | Configured fs \<Rightarrow> Configured \<lparr>sse_base = base_of fs, rabbitmqURI = flag_str fs ''rabbitmquri'',
          rabbitmqStreamName = flag_str fs ''rabbitmqstreamname''\<rparr>)"

definition NewIUTConfig :: "process \<Rightarrow> baseCfg configured" where
  "NewIUTConfig K =
     (case configure K [] (base_flags K) of
        Exits c \<Rightarrow> Exits c | Panics m \<Rightarrow> Panics m | Configured fs \<Rightarrow> Configured (base_of fs))"

record keyCfg =
  key_base :: baseCfg
  privateKeyPath :: string

definition NewKeyConfig :: "process \<Rightarrow> keyCfg configured" where
  "NewKeyConfig K =
     (case configure K [(''privatekeypath'', VStr (Getenv K ''PRIVATE_KEY_PATH''))] (base_flags K) of
        Exits c \<Rightarrow> Exits c | Panics m \<Rightarrow> Panics m
      | Configured fs \<Rightarrow> Configured \<lparr>key_base = base_of fs, privateKeyPath = flag_str fs ''privatekeypath''\<rparr>)"

definition PrivateKey :: "process \<Rightarrow> keyCfg \<Rightarrow> gerror + bytes" where
  "PrivateKey K c = (if privateKeyPath c = [] then Inr [] else pc_read K (privateKeyPath c))"

record logAreaCfg =
  la_base :: baseCfg
  uploadPath :: string
  la_retention :: int

definition NewLogAreaConfig :: "process \<Rightarrow> logAreaCfg configured" where
  "NewLogAreaConfig K =
     (case pc_duration K (EnvOrDefault K ''RETENTION'' ''24h'') of
        Inl err \<Rightarrow> Panics (err_string err)
      | Inr defaultRetention \<Rightarrow>
          (case configure K [(''uploadpath'', VStr (EnvOrDefault K ''UPLOAD_PATH'' ''/tmp/files'')),
               (''retention'', VDur defaultRetention)] (base_flags K) of
             Exits c \<Rightarrow> Exits c | Panics m \<Rightarrow> Panics m
           | Configured fs \<Rightarrow> Configured \<lparr>la_base = base_of fs, uploadPath = flag_str fs ''uploadpath'',
               la_retention = flag_dur fs ''retention''\<rparr>))"

record executionSpaceCfg =
  es_base :: baseCfg
  hostname :: string
  es_timeout :: int
  es_waitTimeout :: int
  rabbitmqHookURL :: string
  rabbitmqHookExchange :: string
  eiffelGoerURL :: string
  encryptionKeySecretName :: string

definition es_flags :: "process \<Rightarrow> int \<Rightarrow> int \<Rightarrow> flags" where
  "es_flags K defaultTimeout waitTimeout =
     [(''hostname'', VStr (EnvOrDefault K ''PROVIDER_HOSTNAME'' ''http://localhost'')),
      (''timeout'', VDur defaultTimeout), (''executionSpaceWaitTimeout'', VDur waitTimeout),
      (''rabbitmq_hook_url'', VStr (Getenv K ''ETOS_RABBITMQ_URL'')),
      (''rabbitmq_hook_exchange'', VStr (Getenv K ''ETOS_RABBITMQ_EXCHANGE'')),
      (''event_repository_host'', VStr (Getenv K ''EIFFEL_GOER_URL'')),
      (''encryption_key_secret_name'', VStr (EnvOrDefault K ''ENCRYPTION_KEY_SECRET_NAME'' ''etos-encryption-key''))]"

definition NewExecutionSpaceConfig :: "process \<Rightarrow> executionSpaceCfg configured" where
  "NewExecutionSpaceConfig K =
     (case pc_duration K (EnvOrDefault K ''REQUEST_TIMEOUT'' ''1m'') of
        Inl err \<Rightarrow> Panics (err_string err)
      | Inr defaultTimeout \<Rightarrow>
          (case pc_duration K (EnvOrDefault K ''EXECUTION_SPACE_WAIT_TIMEOUT'' ''1h'') of
             Inl err \<Rightarrow> Panics (err_string err)
           | Inr waitTimeout \<Rightarrow>
               (case configure K (es_flags K defaultTimeout waitTimeout) (base_flags K) of
                  Exits c \<Rightarrow> Exits c | Panics m \<Rightarrow> Panics m
                | Configured fs \<Rightarrow>
                    Configured \<lparr>es_base = base_of fs, hostname = flag_str fs ''hostname'', es_timeout = flag_dur fs ''timeout'',
                      es_waitTimeout = flag_dur fs ''executionSpaceWaitTimeout'', rabbitmqHookURL = flag_str fs ''rabbitmq_hook_url'',
                      rabbitmqHookExchange = flag_str fs ''rabbitmq_hook_exchange'',
                      eiffelGoerURL = flag_str fs ''event_repository_host'',
                      encryptionKeySecretName = flag_str fs ''encryption_key_secret_name''\<rparr>)))"

subsection \<open>Parsing\<close>

lemma define_flags_distinct:
  "distinct (map fst (fs @ new)) \<Longrightarrow> define_flags new fs = Returned (fs @ new)"
proof (induction new arbitrary: fs)
  case (Cons p new)
  obtain n v where p: "p = (n, v)" by force
  have "n \<notin> fst ` set fs" using Cons.prems p by auto
  then show ?case using Cons.IH [of "fs @ [p]"] Cons.prems p by simp
qed simp

lemma put_flag_names [simp]: "map fst (put_flag n v fs) = map fst fs"
  by (induction fs) (auto simp: put_flag_def)

lemma map_of_put_flag: "map_of (put_flag n v fs) k = (if k = n \<and> map_of fs n \<noteq> None then Some v else map_of fs k)"
  by (induction fs) (auto simp: put_flag_def)

text \<open>Arguments that give values to flags, one after the other.\<close>

definition flag_args :: "(string \<times> string) list \<Rightarrow> string list" where
  "flag_args asg = concat (map (\<lambda>(n, v). [''-'' @ n, v]) asg)"

definition plain_name :: "string \<Rightarrow> bool" where
  "plain_name n = (n \<noteq> [] \<and> hd n \<noteq> CHR ''-'' \<and> CHR ''='' \<notin> set n)"

definition setting :: "(string \<times> string) list \<Rightarrow> string \<Rightarrow> string \<Rightarrow> string" where
  "setting asg n d = (case map_of (rev asg) n of Some v \<Rightarrow> v | None \<Rightarrow> d)"

lemma flag_split_plain: "CHR ''='' \<notin> set n \<Longrightarrow> flag_split n = (n, None)"
  by (simp add: flag_split_def Let_def takeWhile_eq_all_conv)

lemma flag_Parse_step:
  assumes "plain_name n" "map_of fs n = Some (VStr old)"
  shows "flag_Parse K ((''-'' @ n) # v # args) fs = flag_Parse K args (put_flag n (VStr v) fs)"
proof -
  obtain c cs where n: "n = c # cs" "c \<noteq> CHR ''-''" "c \<noteq> CHR ''=''" using assms(1) by (cases n) (auto simp: plain_name_def)
  have "flag_name (''-'' @ n) = n" using n by (simp add: flag_name_def)
  moreover have "flag_split n = (n, None)" using assms(1) by (intro flag_split_plain) (simp add: plain_name_def)
  ultimately show ?thesis using assms(2) n by (simp add: set_flag_def)
qed

lemma flag_Parse_args:
  assumes "\<forall>(n, v) \<in> set asg. plain_name n \<and> (\<exists>old. map_of fs n = Some (VStr old))"
  shows "\<exists>fs'. flag_Parse K (flag_args asg) fs = Inr fs' \<and> map fst fs' = map fst fs
    \<and> (\<forall>n old. map_of fs n = Some (VStr old) \<longrightarrow> map_of fs' n = Some (VStr (setting asg n old)))
    \<and> (\<forall>n d. map_of fs n = Some (VDur d) \<longrightarrow> map_of fs' n = Some (VDur d))"
  using assms
proof (induction asg arbitrary: fs)
  case Nil
  then show ?case by (simp add: flag_args_def setting_def)
next
  case (Cons p asg)
  obtain n v where p: "p = (n, v)" by force
  obtain old where n: "plain_name n" "map_of fs n = Some (VStr old)" using Cons.prems p by auto
  let ?fs = "put_flag n (VStr v) fs"
  have "\<forall>(k, w) \<in> set asg. plain_name k \<and> (\<exists>old. map_of ?fs k = Some (VStr old))"
    using Cons.prems n by (fastforce simp: map_of_put_flag)
  then obtain fs' where fs': "flag_Parse K (flag_args asg) ?fs = Inr fs'" "map fst fs' = map fst ?fs"
    "\<forall>k old. map_of ?fs k = Some (VStr old) \<longrightarrow> map_of fs' k = Some (VStr (setting asg k old))"
    "\<forall>k d. map_of ?fs k = Some (VDur d) \<longrightarrow> map_of fs' k = Some (VDur d)"
    using Cons.IH [of ?fs] by auto
  have parse: "flag_Parse K (flag_args (p # asg)) fs = flag_Parse K (flag_args asg) ?fs"
    using flag_Parse_step [OF n] by (simp add: flag_args_def p)
  have set: "setting (p # asg) k w = setting asg k (if k = n then v else w)" for k w
    by (simp add: setting_def p map_add_def split: option.splits)
  have dur: "\<forall>k d. map_of fs k = Some (VDur d) \<longrightarrow> map_of fs' k = Some (VDur d)"
  proof (intro allI impI)
    fix k d
    assume d: "map_of fs k = Some (VDur d)"
    then have "k \<noteq> n" using n(2) by auto
    then show "map_of fs' k = Some (VDur d)" using d fs'(4) by (simp add: map_of_put_flag)
  qed
  show ?case
    using fs'(1-3) n dur unfolding parse set by (intro exI [of _ fs']) (auto simp: map_of_put_flag)
qed

text \<open>The flags of a service after its arguments.\<close>

lemma configure_settings:
  assumes "distinct (map fst (own @ base))" "pc_args K = flag_args asg"
    and "\<forall>(n, v) \<in> set asg. plain_name n \<and> (\<exists>old. map_of (own @ base) n = Some (VStr old))"
  shows "\<exists>fs. configure K own base = Configured fs
    \<and> (\<forall>n old. map_of (own @ base) n = Some (VStr old) \<longrightarrow> flag_str fs n = setting asg n old)
    \<and> (\<forall>n d. map_of (own @ base) n = Some (VDur d) \<longrightarrow> flag_dur fs n = d)"
proof -
  have "define_flags (own @ base) [] = Returned (own @ base)" using define_flags_distinct [of "[]"] assms(1) by simp
  then show ?thesis
    using flag_Parse_args [OF assms(3), of K] assms(2) by (auto simp: configure_def flag_str_def flag_dur_def)
qed

subsection \<open>Properties\<close>

definition base_names :: "string list" where
  "base_names = [''address'', ''port'', ''stripprefix'', ''loglevel'', ''logfilepath'', ''etosnamespace'', ''databasehost'',
     ''databaseport'', ''publickeypath'']"

lemma base_flags_names: "map fst (base_flags K) = base_names"
  by (simp add: base_flags_def base_names_def)

lemma es_flags_names: "map fst (es_flags K a b) = [''hostname'', ''timeout'', ''executionSpaceWaitTimeout'',
   ''rabbitmq_hook_url'', ''rabbitmq_hook_exchange'', ''event_repository_host'', ''encryption_key_secret_name'']"
  by (simp add: es_flags_def)

text \<open>No service defines a flag twice.\<close>

lemma service_flags_distinct:
  "distinct ([''rabbitmquri'', ''rabbitmqstreamname''] @ base_names)"
  "distinct ([''privatekeypath''] @ base_names)"
  "distinct ([''uploadpath'', ''retention''] @ base_names)"
  "distinct ([''hostname'', ''timeout'', ''executionSpaceWaitTimeout'', ''rabbitmq_hook_url'', ''rabbitmq_hook_exchange'',
     ''event_repository_host'', ''encryption_key_secret_name''] @ base_names)"
  by code_simp+

definition sse_flags :: "process \<Rightarrow> flags" where
  "sse_flags K = [(''rabbitmquri'', VStr (Getenv K ''ETOS_RABBITMQ_URI'')),
     (''rabbitmqstreamname'', VStr (Getenv K ''ETOS_RABBITMQ_STREAM_NAME''))]"

lemma sse_flags_names: "map fst (sse_flags K @ base_flags K) = [''rabbitmquri'', ''rabbitmqstreamname''] @ base_names"
  by (simp add: sse_flags_def base_flags_names)

lemma sse_flags_strings:
  assumes "n \<in> set ([''rabbitmquri'', ''rabbitmqstreamname''] @ base_names)"
  shows "plain_name n \<and> (\<exists>old. map_of (sse_flags K @ base_flags K) n = Some (VStr old))"
proof -
  have "list_all plain_name ([''rabbitmquri'', ''rabbitmqstreamname''] @ base_names)" by code_simp
  moreover have "n \<in> fst ` set (sse_flags K @ base_flags K)" using assms sse_flags_names [of K] by (metis list.set_map)
  then obtain w where w: "map_of (sse_flags K @ base_flags K) n = Some w" by (metis map_of_eq_None_iff not_None_eq)
  moreover have "\<forall>p \<in> set (sse_flags K @ base_flags K). \<exists>old. snd p = VStr old"
    by (simp add: sse_flags_def base_flags_def)
  ultimately have "\<exists>old. snd (n, w) = VStr old" "plain_name n" using assms map_of_SomeD [OF w] by (blast, simp only: list_all_iff)
  then show ?thesis using w by auto
qed

text \<open>
  The settings of the SSE server come from the last flag that gives them, else from their
  environment variable, even an empty one, else from their default (the namespace from the cluster's
  file first); with flags of the form \<open>-name value\<close> it always starts.
\<close>

theorem sse_settings:
  assumes "pc_args K = flag_args asg"
    and "\<forall>(n, v) \<in> set asg. n \<in> set ([''rabbitmquri'', ''rabbitmqstreamname''] @ base_names)"
  shows "\<exists>c. NewSSEConfig K = Configured c
    \<and> rabbitmqURI c = setting asg ''rabbitmquri'' (Getenv K ''ETOS_RABBITMQ_URI'')
    \<and> rabbitmqStreamName c = setting asg ''rabbitmqstreamname'' (Getenv K ''ETOS_RABBITMQ_STREAM_NAME'')
    \<and> serviceHost (sse_base c) = setting asg ''address'' (EnvOrDefault K ''SERVICE_HOST'' ''127.0.0.1'')
    \<and> servicePort (sse_base c) = setting asg ''port'' (EnvOrDefault K ''SERVICE_PORT'' ''8080'')
    \<and> stripPrefix (sse_base c) = setting asg ''stripprefix'' (EnvOrDefault K ''STRIP_PREFIX'' [])
    \<and> logLevel (sse_base c) = setting asg ''loglevel'' (EnvOrDefault K ''LOGLEVEL'' ''INFO'')
    \<and> logFilePath (sse_base c) = setting asg ''logfilepath'' (Getenv K ''LOG_FILE_PATH'')
    \<and> etosNamespace (sse_base c) = setting asg ''etosnamespace'' (ReadNamespaceOrEnv K ''ETOS_NAMESPACE'')
    \<and> DatabaseURI (sse_base c) = setting asg ''databasehost'' (EnvOrDefault K ''ETOS_ETCD_HOST'' ''etcd-client'')
        @ '':'' @ setting asg ''databaseport'' (EnvOrDefault K ''ETOS_ETCD_PORT'' ''2379'')
    \<and> publicKeyPath (sse_base c) = setting asg ''publickeypath'' (Getenv K ''PUBLIC_KEY_PATH'')"
proof -
  have d: "distinct (map fst (sse_flags K @ base_flags K))" unfolding sse_flags_names by (rule service_flags_distinct)
  have s: "\<forall>(n, v) \<in> set asg. plain_name n \<and> (\<exists>old. map_of (sse_flags K @ base_flags K) n = Some (VStr old))"
    using assms(2) sse_flags_strings by blast
  obtain fs where c: "configure K (sse_flags K) (base_flags K) = Configured fs"
    and v: "\<And>n old. map_of (sse_flags K @ base_flags K) n = Some (VStr old) \<Longrightarrow> flag_str fs n = setting asg n old"
    using configure_settings [OF d assms(1) s] by blast
  have "NewSSEConfig K = Configured \<lparr>sse_base = base_of fs, rabbitmqURI = flag_str fs ''rabbitmquri'',
      rabbitmqStreamName = flag_str fs ''rabbitmqstreamname''\<rparr>"
    using c by (simp add: NewSSEConfig_def sse_flags_def)
  then show ?thesis
    by (intro exI conjI, assumption) (simp_all add: v base_of_def DatabaseURI_def sse_flags_def base_flags_def)
qed

definition ex_process :: process where
  "ex_process = \<lparr>pc_env = [''SERVICE_PORT'' \<mapsto> ''9090'', ''LOGLEVEL'' \<mapsto> []], pc_read = (\<lambda>_. Inl (Text ''no such file'')),
     pc_duration = (\<lambda>_. Inr 0), pc_args = flag_args [(''port'', ''1''), (''address'', ''0.0.0.0''), (''port'', ''2'')]\<rparr>"

theorem sse_settings_witness:
  "\<exists>c. NewSSEConfig ex_process = Configured c \<and> servicePort (sse_base c) = ''2'' \<and> serviceHost (sse_base c) = ''0.0.0.0''
     \<and> logLevel (sse_base c) = [] \<and> DatabaseURI (sse_base c) = ''etcd-client:2379''"
proof -
  have a: "pc_args ex_process = flag_args [(''port'', ''1''), (''address'', ''0.0.0.0''), (''port'', ''2'')]"
    by (simp add: ex_process_def)
  show ?thesis
    using sse_settings [OF a] by (auto simp: setting_def EnvOrDefault_def ex_process_def base_names_def)
qed

end
