(* ===== verification/Publisher.thy ===== *)
theory Publisher
  imports Etos_Prelude
begin

text \<open>
  \<open>internal/rabbitmq/rabbitmq.go\<close>: the publisher that sends one message at a time and waits for
  its confirmation.  The AMQP library is what the sources use of it: a connection and a channel that
  close, messages the broker has not answered, and confirmations that have not been read.
\<close>

subsection \<open>State\<close>

text \<open>
  \<open>pb_conn\<close> and \<open>pb_channel\<close> tell whether the fields are set, \<open>pb_open\<close> and
  \<open>pb_chan_open\<close> whether they still work.  \<open>pb_unanswered\<close> and \<open>pb_confirms\<close> are the
  broker's side of the channel, with the message each confirmation is for, and \<open>pb_acked\<close> lists
  all messages that the broker has ever acknowledged.
\<close>

record 'm publisher =
  pb_conn :: bool
  pb_open :: bool
  pb_channel :: bool
  pb_chan_open :: bool
  pb_hasOutstanding :: bool
  pb_unanswered :: "'m list"
  pb_confirms :: "('m \<times> bool) list"
  pb_acked :: "'m list"

definition NewPublisher :: "'m publisher" where
  "NewPublisher = \<lparr>pb_conn = False, pb_open = False, pb_channel = False, pb_chan_open = False,
     pb_hasOutstanding = False, pb_unanswered = [], pb_confirms = [], pb_acked = []\<rparr>"

text \<open>What happens meanwhile: the broker answers, or closes the channel or the connection.\<close>

datatype env_step = BrokerAnswers bool | ChannelCloses | ConnectionCloses

definition close_conn :: "'m publisher \<Rightarrow> 'm publisher" where
  "close_conn p = p\<lparr>pb_open := False, pb_chan_open := False\<rparr>"

fun env_do :: "env_step \<Rightarrow> 'm publisher \<Rightarrow> 'm publisher" where
  "env_do (BrokerAnswers a) p =
     (case pb_unanswered p of
        m # ms \<Rightarrow>
          (if pb_chan_open p
           then p\<lparr>pb_unanswered := ms, pb_confirms := pb_confirms p @ [(m, a)],
                  pb_acked := (if a then m # pb_acked p else pb_acked p)\<rparr>
           else p)
      | [] \<Rightarrow> p)"
| "env_do ChannelCloses p = p\<lparr>pb_chan_open := False\<rparr>"
| "env_do ConnectionCloses p = close_conn p"

definition publisher_Close :: "'m publisher \<Rightarrow> 'm publisher" where
  "publisher_Close p = (if pb_conn p then close_conn p else p)"

subsection \<open>Waiting for a confirmation\<close>

text \<open>
  The cases of the \<open>select\<close>.  The notification channels are closed with the channel, so reading
  a confirmation then gives the zero value, which is a negative one.
\<close>

datatype pick = PConn | PChan | PConfirm | PCtx

definition ready :: "pick \<Rightarrow> bool \<Rightarrow> 'm publisher \<Rightarrow> ((gerror + bool) \<times> 'm publisher) option" where
  "ready k expired p =
     (case k of
        PConn \<Rightarrow> if pb_open p then None else Some (Inl (Text ''connection closed''), p)
      | PChan \<Rightarrow> if pb_chan_open p then None else Some (Inl (Text ''channel closed''), p)
      | PConfirm \<Rightarrow>
          (case pb_confirms p of
             (m, a) # cs \<Rightarrow> Some (Inr a, p\<lparr>pb_confirms := cs, pb_hasOutstanding := False\<rparr>)
           | [] \<Rightarrow> if pb_chan_open p then None else Some (Inr False, p\<lparr>pb_hasOutstanding := False\<rparr>))
      | PCtx \<Rightarrow> if expired then Some (Inl (Sentinel ''context deadline exceeded''), p) else None)"

text \<open>
  What happens during an attempt: steps of the environment, the end of the context (of its ten
  seconds, or of the caller's), and the case that the \<open>select\<close> takes, which has to be ready.  The
  flag tells whether the context has ended.  With no input left the call still waits.
\<close>

datatype pub_input = Env env_step | Expire | Pick pick

fun awaitConfirmation ::
  "pub_input list \<Rightarrow> bool \<Rightarrow> 'm publisher \<Rightarrow> (gerror + bool) option \<times> pub_input list \<times> bool \<times> 'm publisher" where
  "awaitConfirmation [] ex p = (None, [], ex, p)"
| "awaitConfirmation (Env e # xs) ex p = awaitConfirmation xs ex (env_do e p)"
| "awaitConfirmation (Expire # xs) ex p = awaitConfirmation xs True p"
| "awaitConfirmation (Pick k # xs) ex p =
     (case ready k ex p of
        None \<Rightarrow> awaitConfirmation xs ex p
      | Some (r, p') \<Rightarrow> (Some r, xs, ex, p'))"

subsection \<open>Connecting\<close>

text \<open>What the AMQP library answers when a connection is set up.\<close>

datatype connecting = BadURL gerror | DialFails gerror | ChannelFails gerror | ConfirmFails gerror | Connected

definition ensureConnection :: "connecting \<Rightarrow> 'm publisher \<Rightarrow> gerror option \<times> 'm publisher" where
  "ensureConnection c p =
     (if \<not> pb_conn p \<or> \<not> pb_channel p \<or> \<not> pb_open p then
        (let p0 = publisher_Close p in
         case c of
           BadURL e \<Rightarrow> (Some (Wrapped ''invalid AMQP URL: '' e), p0)
         | DialFails e \<Rightarrow> (Some (Wrapped ''error making AMQP connection: '' e), p0\<lparr>pb_conn := False, pb_open := False\<rparr>)
         | ChannelFails e \<Rightarrow>
             (Some (Wrapped ''error creating channel: '' e),
              p0\<lparr>pb_conn := True, pb_open := True, pb_channel := False, pb_chan_open := False\<rparr>)
         | ConfirmFails e \<Rightarrow>
             (Some (Wrapped ''error enabling publisher confirms: '' e),
              p0\<lparr>pb_conn := True, pb_open := False, pb_channel := True, pb_chan_open := False\<rparr>)
         | Connected \<Rightarrow>
             (None, p0\<lparr>pb_conn := True, pb_open := True, pb_channel := True, pb_chan_open := True,
                pb_hasOutstanding := False, pb_unanswered := [], pb_confirms := []\<rparr>))
      else (None, p))"

definition CloseOnTimeout :: "bool \<Rightarrow> 'm publisher \<Rightarrow> 'm publisher" where
  "CloseOnTimeout expired p = (if expired then publisher_Close p else p)"

subsection \<open>Publishing\<close>

text \<open>
  \<open>channel.Publish\<close> fails on a channel that is not open, and may fail for reasons of its own, the
  error that is given to the attempt; otherwise the message is with the broker.
\<close>

definition channel_Publish :: "gerror option \<Rightarrow> 'm \<Rightarrow> 'm publisher \<Rightarrow> gerror option \<times> 'm publisher" where
  "channel_Publish e m p =
     (if \<not> pb_chan_open p then (Some (Sentinel ''ErrClosed''), p)
      else case e of Some err \<Rightarrow> (Some err, p) | None \<Rightarrow> (None, p\<lparr>pb_unanswered := pb_unanswered p @ [m]\<rparr>))"

text \<open>The second half of an attempt: the result, and whether the context has ended.\<close>

definition publish_once ::
  "gerror option \<Rightarrow> 'm \<Rightarrow> pub_input list \<Rightarrow> bool \<Rightarrow> 'm publisher \<Rightarrow> gerror option option \<times> bool \<times> 'm publisher" where
  "publish_once e m xs ex p =
     (case channel_Publish e m p of
        (Some err, p') \<Rightarrow> (Some (Some (Wrapped ''error publishing message: '' err)), ex, p')
      | (None, p') \<Rightarrow>
          (case awaitConfirmation xs ex (p'\<lparr>pb_hasOutstanding := True\<rparr>) of
             (None, _, ex', p2) \<Rightarrow> (None, ex', p2)
           | (Some (Inl err), _, ex', p2) \<Rightarrow> (Some (Some err), ex', p2)
           | (Some (Inr ack), _, ex', p2) \<Rightarrow> (Some (if ack then None else Some (Text ''message nacked'')), ex', p2)))"

text \<open>The message out from an earlier attempt is waited for first.\<close>

definition drain_publish ::
  "gerror option \<Rightarrow> 'm \<Rightarrow> pub_input list \<Rightarrow> bool \<Rightarrow> 'm publisher \<Rightarrow> gerror option option \<times> bool \<times> 'm publisher" where
  "drain_publish e m xs ex p =
     (if pb_hasOutstanding p then
        (case awaitConfirmation xs ex p of
           (None, _, ex', p2) \<Rightarrow> (None, ex', p2)
         | (Some (Inl err), _, ex', p2) \<Rightarrow> (Some (Some err), ex', p2)
         | (Some (Inr _), ys, ex', p2) \<Rightarrow> publish_once e m ys ex' p2)
      else publish_once e m xs ex p)"

text \<open>The context of an attempt may have ended when it starts: it is the caller's.\<close>

definition tryPublish ::
  "connecting \<Rightarrow> gerror option \<Rightarrow> bool \<Rightarrow> pub_input list \<Rightarrow> 'm \<Rightarrow> 'm publisher \<Rightarrow> gerror option option \<times> 'm publisher" where
  "tryPublish c e ended xs m p =
     (case ensureConnection c p of
        (Some err, p1) \<Rightarrow> (Some (Some err), p1)
      | (None, p1) \<Rightarrow>
          (case drain_publish e m xs ended p1 of
             (None, _, p2) \<Rightarrow> (None, p2)
           | (Some r, ex, p2) \<Rightarrow> (Some r, CloseOnTimeout ex p2)))"

text \<open>
  \<open>Publish\<close> tries until an attempt succeeds or its context has ended.  An attempt has what
  connecting and publishing give, its inputs, what happens before the next one, and whether the
  caller's context has ended when it starts and when it is over.  With no attempt left, the call is
  still trying.
\<close>

record attempt =
  at_connecting :: connecting
  at_publish :: "gerror option"
  at_ended :: bool
  at_inputs :: "pub_input list"
  at_over :: bool
  at_between :: "env_step list"

fun Publish :: "attempt list \<Rightarrow> 'm \<Rightarrow> 'm publisher \<Rightarrow> gerror option option \<times> 'm publisher" where
  "Publish [] m p = (None, p)"
| "Publish (a # as) m p =
     (case tryPublish (at_connecting a) (at_publish a) (at_ended a) (at_inputs a) m p of
        (None, p') \<Rightarrow> (None, p')
      | (Some None, p') \<Rightarrow> (Some None, p')
      | (Some (Some err), p') \<Rightarrow>
          (if at_over a then (Some (Some (Sentinel ''context deadline exceeded'')), p')
           else Publish as m (fold env_do (at_between a) p')))"

subsection \<open>At most one message is out\<close>

text \<open>On an open channel there is at most one message without a read confirmation.\<close>

definition pub_inv :: "'m publisher \<Rightarrow> bool" where
  "pub_inv p =
     ((pb_chan_open p \<longrightarrow> pb_open p \<and> pb_channel p \<and> pb_conn p
        \<and> length (pb_unanswered p) + length (pb_confirms p) \<le> (if pb_hasOutstanding p then 1 else 0))
      \<and> (\<forall>m. (m, True) \<in> set (pb_confirms p) \<longrightarrow> m \<in> set (pb_acked p)))"

definition acked_grow :: "'m publisher \<Rightarrow> 'm publisher \<Rightarrow> bool" where
  "acked_grow p p' = (set (pb_acked p) \<subseteq> set (pb_acked p'))"

lemma acked_grow_trans: "acked_grow p q \<Longrightarrow> acked_grow q r \<Longrightarrow> acked_grow p r"
  by (auto simp: acked_grow_def)

lemma acked_grow_refl [simp]: "acked_grow p p" by (simp add: acked_grow_def)

lemma pub_inv_New: "pub_inv NewPublisher"
  by (simp add: pub_inv_def NewPublisher_def)

lemma env_do_inv: "pub_inv p \<Longrightarrow> pub_inv (env_do e p) \<and> acked_grow p (env_do e p)"
  by (cases e) (auto simp: pub_inv_def close_conn_def acked_grow_def split: list.splits if_splits)

lemma env_do_keeps:
  "pb_hasOutstanding (env_do e p) = pb_hasOutstanding p"
  by (cases e) (auto simp: close_conn_def split: list.splits)

lemma ready_inv: "pub_inv p \<Longrightarrow> ready k ex p = Some (r, p') \<Longrightarrow> pub_inv p' \<and> acked_grow p p'"
  by (auto simp: ready_def pub_inv_def acked_grow_def split: pick.splits if_splits list.splits)

lemma await_inv:
  "pub_inv p \<Longrightarrow> awaitConfirmation xs ex p = (r, ys, ex', p') \<Longrightarrow> pub_inv p' \<and> acked_grow p p'"
proof (induction xs ex p arbitrary: r ys ex' p' rule: awaitConfirmation.induct)
  case (2 e xs ex p)
  then show ?case using env_do_inv [OF 2(2), of e] acked_grow_trans by (metis awaitConfirmation.simps(2))
next
  case (4 k xs ex p)
  then show ?case by (auto split: option.splits dest: ready_inv)
qed auto

text \<open>A positive answer read by the wait is for the only message that is out.\<close>

lemma await_acked:
  assumes "pub_inv p"
    and "\<forall>x. x \<in> set (pb_unanswered p) \<union> fst ` set (pb_confirms p) \<longrightarrow> x = m"
    and "awaitConfirmation xs ex p = (Some (Inr True), ys, ex', p')"
  shows "m \<in> set (pb_acked p')"
  using assms
proof (induction xs ex p arbitrary: ys ex' p' rule: awaitConfirmation.induct)
  case (2 s xs ex p)
  have "set (pb_unanswered (env_do s p)) \<union> fst ` set (pb_confirms (env_do s p)) \<subseteq> set (pb_unanswered p) \<union> fst ` set (pb_confirms p)"
    by (cases s) (auto simp: close_conn_def split: list.splits)
  then have "\<forall>x. x \<in> set (pb_unanswered (env_do s p)) \<union> fst ` set (pb_confirms (env_do s p)) \<longrightarrow> x = m"
    using 2(3) by blast
  then show ?case using 2(1) [OF conjunct1 [OF env_do_inv [OF 2(2), of s]]] 2(4) by simp
next
  case (4 k xs ex p)
  show ?case
  proof (cases "ready k ex p")
    case None
    then show ?thesis using 4 by simp
  next
    case (Some q)
    then obtain a where "pb_confirms p = (a, True) # pb_confirms p'" "pb_acked p' = pb_acked p"
      using 4(4) by (auto simp: ready_def split: pick.splits if_splits list.splits)
    then show ?thesis using 4(2,3) by (force simp: pub_inv_def)
  qed
qed simp_all

definition publish_ok :: "'m \<Rightarrow> 'm publisher \<Rightarrow> gerror option option \<Rightarrow> 'm publisher \<Rightarrow> bool" where
  "publish_ok m p r p' = (pub_inv p' \<and> acked_grow p p' \<and> (r = Some None \<longrightarrow> m \<in> set (pb_acked p')))"

lemma publish_once_acked:
  assumes "pub_inv p" "\<not> pb_hasOutstanding p" "publish_once e m xs ex p = (r, ex', p')"
  shows "publish_ok m p r p'"
proof (cases "\<exists>q. channel_Publish e m p = (None, q)")
  case False
  then show ?thesis using assms by (auto simp: publish_ok_def publish_once_def channel_Publish_def split: if_splits option.splits)
next
  case True
  then have sent: "channel_Publish e m p = (None, p\<lparr>pb_unanswered := pb_unanswered p @ [m]\<rparr>)" and op: "pb_chan_open p"
    by (auto simp: channel_Publish_def split: if_splits option.splits)
  let ?p = "p\<lparr>pb_unanswered := pb_unanswered p @ [m], pb_hasOutstanding := True\<rparr>"
  have out: "pb_unanswered p = []" "pb_confirms p = []" using assms(1,2) op by (auto simp: pub_inv_def)
  then have inv: "pub_inv ?p" using assms(1) by (auto simp: pub_inv_def)
  obtain q ys ex2 p2 where w: "awaitConfirmation xs ex ?p = (q, ys, ex2, p2)" by (metis prod.exhaust)
  have r: "p' = p2" "r = Some None \<Longrightarrow> q = Some (Inr True)"
    using assms(3) sent w by (auto simp: publish_once_def split: option.splits sum.splits if_splits)
  then show ?thesis using await_inv [OF inv w] await_acked [OF inv _, of m xs ex ys ex2 p2] w out
    by (auto simp: publish_ok_def acked_grow_def)
qed

lemma await_read_clears:
  "awaitConfirmation xs ex p = (Some (Inr a), ys, ex', p') \<Longrightarrow> \<not> pb_hasOutstanding p'"
proof (induction xs ex p arbitrary: ys ex' p' rule: awaitConfirmation.induct)
  case (4 k xs ex p)
  then show ?case by (auto simp: ready_def split: option.splits pick.splits if_splits list.splits)
qed auto

lemma drain_publish_acked:
  assumes "pub_inv p" "drain_publish e m xs ex p = (r, ex', p')"
  shows "publish_ok m p r p'"
proof (cases "pb_hasOutstanding p")
  case False
  then show ?thesis using publish_once_acked [OF assms(1)] assms(2) by (simp add: drain_publish_def)
next
  case True
  obtain q ys ex2 p2 where w: "awaitConfirmation xs ex p = (q, ys, ex2, p2)" by (metis prod.exhaust)
  note i = await_inv [OF assms(1) w]
  show ?thesis
  proof (cases "\<exists>a. q = Some (Inr a)")
    case True
    then obtain a where q: "q = Some (Inr a)" by blast
    have "publish_ok m p2 r p'"
      using publish_once_acked [OF conjunct1 [OF i] await_read_clears [OF w [unfolded q]]] assms(2) w q \<open>pb_hasOutstanding p\<close>
      by (simp add: drain_publish_def)
    then show ?thesis using i acked_grow_trans by (auto simp: publish_ok_def)
  next
    case False
    then show ?thesis using assms(2) w True i
      by (auto simp: drain_publish_def publish_ok_def split: option.splits sum.splits)
  qed
qed

lemma Close_inv: "pub_inv p \<Longrightarrow> pub_inv (publisher_Close p) \<and> pb_acked (publisher_Close p) = pb_acked p"
  by (auto simp: publisher_Close_def close_conn_def pub_inv_def)

lemma CloseOnTimeout_ok: "publish_ok m p r p' \<Longrightarrow> publish_ok m p r (CloseOnTimeout b p')"
  using Close_inv [of p'] by (auto simp: CloseOnTimeout_def publish_ok_def acked_grow_def)

lemma ensure_inv:
  assumes "pub_inv p" "ensureConnection c p = (r, p')"
  shows "pub_inv p' \<and> pb_acked p' = pb_acked p"
proof (cases "\<not> pb_conn p \<or> \<not> pb_channel p \<or> \<not> pb_open p")
  case True
  define q where "q = publisher_Close p"
  have q: "pub_inv q" "pb_acked q = pb_acked p" "\<not> pb_chan_open q"
    using assms(1) True by (auto simp: q_def publisher_Close_def close_conn_def pub_inv_def)
  show ?thesis using assms(2) True q unfolding ensureConnection_def q_def [symmetric] Let_def
    by (cases c) (auto simp: pub_inv_def)
next
  case False
  then show ?thesis using assms by (simp add: ensureConnection_def)
qed

lemma publish_ok_acked: "pb_acked q = pb_acked p \<Longrightarrow> publish_ok m q r p' = publish_ok m p r p'"
  by (simp add: publish_ok_def acked_grow_def)

lemma tryPublish_acked:
  assumes "pub_inv p" "tryPublish c e ended xs m p = (r, p')"
  shows "publish_ok m p r p'"
proof -
  obtain r1 p1 where c: "ensureConnection c p = (r1, p1)" by (metis prod.exhaust)
  obtain r2 ex p2 where d: "drain_publish e m xs ended p1 = (r2, ex, p2)" by (metis prod.exhaust)
  note i = ensure_inv [OF assms(1) c]
  then have ok: "publish_ok m p r2 p2" using drain_publish_acked [OF _ d] publish_ok_acked by metis
  show ?thesis
  proof (cases r1)
    case None
    then have "p' = p2 \<and> r = r2 \<or> p' = CloseOnTimeout ex p2 \<and> r = r2"
      using assms(2) c d by (auto simp: tryPublish_def split: option.splits)
    then show ?thesis using ok CloseOnTimeout_ok [OF ok] by auto
  next
    case (Some err)
    then show ?thesis using assms(2) c i by (simp add: tryPublish_def publish_ok_def acked_grow_def) auto
  qed
qed

lemma env_run_inv: "pub_inv p \<Longrightarrow> pub_inv (fold env_do es p) \<and> acked_grow p (fold env_do es p)"
proof (induction es arbitrary: p)
  case (Cons e es)
  show ?case using env_do_inv [OF Cons.prems, of e] Cons.IH [of "env_do e p"] acked_grow_trans by auto
qed simp

lemma Publish_acked: "pub_inv p \<Longrightarrow> Publish as m p = (r, p') \<Longrightarrow> publish_ok m p r p'"
proof (induction as arbitrary: p)
  case Nil
  then show ?case by (auto simp: publish_ok_def)
next
  case (Cons a as)
  obtain q p1 where t: "tryPublish (at_connecting a) (at_publish a) (at_ended a) (at_inputs a) m p = (q, p1)"
    by (metis prod.exhaust)
  note ok = tryPublish_acked [OF Cons.prems(1) t]
  show ?case
  proof (cases "(\<exists>err. q = Some (Some err)) \<and> \<not> at_over a")
    case True
    let ?p = "fold env_do (at_between a) p1"
    have i: "pub_inv ?p \<and> acked_grow p1 ?p" using env_run_inv ok by (auto simp: publish_ok_def)
    have "publish_ok m ?p r p'" using Cons.IH [OF conjunct1 [OF i]] Cons.prems(2) t True by auto
    then show ?thesis using i ok acked_grow_trans unfolding publish_ok_def by blast
  next
    case False
    then show ?thesis using Cons.prems(2) t ok by (auto simp: publish_ok_def split: option.splits if_splits)
  qed
qed

subsection \<open>A channel that closes on its own\<close>

text \<open>
  The state after the broker has closed the channel and kept the connection, e.g. because the
  exchange does not exist.  \<open>ensureConnection\<close> looks at the connection only.
\<close>

definition pub_stuck :: "'m publisher \<Rightarrow> bool" where
  "pub_stuck p = (pb_conn p \<and> pb_open p \<and> pb_channel p \<and> \<not> pb_chan_open p)"

definition quiet_attempt :: "attempt \<Rightarrow> bool" where
  "quiet_attempt a = (Expire \<notin> set (at_inputs a) \<and> \<not> at_ended a
     \<and> Env ConnectionCloses \<notin> set (at_inputs a) \<and> ConnectionCloses \<notin> set (at_between a))"

definition stays_stuck :: "'m publisher \<Rightarrow> 'm publisher \<Rightarrow> bool" where
  "stays_stuck p p' = (pub_stuck p' \<and> pb_acked p' = pb_acked p)"

lemma stays_stuck_trans: "stays_stuck p q \<Longrightarrow> stays_stuck q r \<Longrightarrow> stays_stuck p r"
  by (simp add: stays_stuck_def)

lemma env_do_stuck: "pub_stuck p \<Longrightarrow> e \<noteq> ConnectionCloses \<Longrightarrow> stays_stuck p (env_do e p)"
  by (cases e) (auto simp: pub_stuck_def stays_stuck_def split: list.splits)

lemma env_run_stuck: "pub_stuck p \<Longrightarrow> ConnectionCloses \<notin> set es \<Longrightarrow> stays_stuck p (fold env_do es p)"
proof (induction es arbitrary: p)
  case (Cons e es)
  then have s: "stays_stuck p (env_do e p)" by (auto intro!: env_do_stuck)
  then show ?case using Cons.IH [of "env_do e p"] Cons.prems(2) stays_stuck_trans [OF s]
    by (auto simp: stays_stuck_def)
qed (simp add: stays_stuck_def)

lemma ready_stuck: "pub_stuck p \<Longrightarrow> ready k ex p = Some (r, p') \<Longrightarrow> stays_stuck p p'"
  by (auto simp: ready_def pub_stuck_def stays_stuck_def split: pick.splits if_splits list.splits)

lemma await_stuck:
  "pub_stuck p \<Longrightarrow> Expire \<notin> set xs \<Longrightarrow> Env ConnectionCloses \<notin> set xs \<Longrightarrow>
   awaitConfirmation xs ex p = (r, ys, ex', p') \<Longrightarrow> stays_stuck p p' \<and> ex' = ex"
proof (induction xs ex p arbitrary: r ys ex' p' rule: awaitConfirmation.induct)
  case (2 e xs ex p)
  have s: "stays_stuck p (env_do e p)" using 2(2,4) by (auto intro!: env_do_stuck)
  have "stays_stuck (env_do e p) p' \<and> ex' = ex" using 2 s by (auto simp: stays_stuck_def)
  then show ?case using stays_stuck_trans [OF s] by blast
next
  case (4 k xs ex p)
  then show ?case by (auto split: option.splits dest: ready_stuck)
qed (auto simp: stays_stuck_def)

lemma publish_once_stuck:
  "pub_stuck p \<Longrightarrow> publish_once e m xs ex p
     = (Some (Some (Wrapped ''error publishing message: '' (Sentinel ''ErrClosed''))), ex, p)"
  by (simp add: pub_stuck_def publish_once_def channel_Publish_def)

lemma drain_publish_stuck:
  assumes "pub_stuck p" "Expire \<notin> set xs" "Env ConnectionCloses \<notin> set xs"
    and "drain_publish e m xs ex p = (r, ex', p')"
  shows "stays_stuck p p' \<and> ex' = ex \<and> r \<noteq> Some None"
proof (cases "pb_hasOutstanding p")
  case False
  then show ?thesis using assms by (auto simp: publish_once_stuck drain_publish_def stays_stuck_def)
next
  case True
  obtain q ys ex2 p2 where w: "awaitConfirmation xs ex p = (q, ys, ex2, p2)" by (metis prod.exhaust)
  note s = await_stuck [OF assms(1-3) w]
  then have "pub_stuck p2" by (simp add: stays_stuck_def)
  then show ?thesis using assms(4) w True s publish_once_stuck [of p2]
    by (auto simp: drain_publish_def split: option.splits sum.splits)
qed

lemma tryPublish_stuck:
  assumes "pub_stuck p" "Expire \<notin> set xs" "Env ConnectionCloses \<notin> set xs"
    and "tryPublish c e False xs m p = (r, p')"
  shows "stays_stuck p p' \<and> r \<noteq> Some None"
proof -
  have c: "ensureConnection c p = (None, p)" using assms(1) by (simp add: ensureConnection_def pub_stuck_def)
  obtain r2 ex p2 where d: "drain_publish e m xs False p = (r2, ex, p2)" by (metis prod.exhaust)
  note s = drain_publish_stuck [OF assms(1-3) d]
  then show ?thesis using assms(4) c d by (cases r2) (auto simp: tryPublish_def CloseOnTimeout_def)
qed

lemma Publish_stuck:
  "pub_stuck p \<Longrightarrow> \<forall>a \<in> set as. quiet_attempt a \<Longrightarrow> Publish as m p = (r, p') \<Longrightarrow> stays_stuck p p' \<and> r \<noteq> Some None"
proof (induction as arbitrary: p)
  case Nil
  then show ?case by (auto simp: stays_stuck_def)
next
  case (Cons a as)
  obtain q p1 where t: "tryPublish (at_connecting a) (at_publish a) False (at_inputs a) m p = (q, p1)"
    by (metis prod.exhaust)
  have a: "Expire \<notin> set (at_inputs a)" "Env ConnectionCloses \<notin> set (at_inputs a)" "at_ended a = False"
    "ConnectionCloses \<notin> set (at_between a)"
    using Cons.prems(2) by (auto simp: quiet_attempt_def)
  note s = tryPublish_stuck [OF Cons.prems(1) a(1,2) t]
  show ?case
  proof (cases "(\<exists>err. q = Some (Some err)) \<and> \<not> at_over a")
    case True
    have i: "stays_stuck p1 (fold env_do (at_between a) p1)" using env_run_stuck s a(4) by (auto simp: stays_stuck_def)
    have "stays_stuck (fold env_do (at_between a) p1) p' \<and> r \<noteq> Some None"
      using Cons.IH [of "fold env_do (at_between a) p1"] i Cons.prems(2,3) t a(3) True by (auto simp: stays_stuck_def)
    then show ?thesis using i s stays_stuck_trans by blast
  next
    case False
    then show ?thesis using Cons.prems(3) t a(3) s by (auto split: option.splits if_splits)
  qed
qed

subsection \<open>Properties\<close>

text \<open>One caller's calls, in order; a call that does not return is the last one.\<close>

fun Publish_all :: "(attempt list \<times> 'm) list \<Rightarrow> 'm publisher \<Rightarrow> (gerror option option \<times> 'm) list \<times> 'm publisher" where
  "Publish_all [] p = ([], p)"
| "Publish_all ((as, m) # cs) p =
     (case Publish as m p of
        (None, p') \<Rightarrow> ([(None, m)], p')
      | (Some r, p') \<Rightarrow> (case Publish_all cs p' of (rs, p2) \<Rightarrow> ((Some r, m) # rs, p2)))"

lemma Publish_all_ok:
  "pub_inv p \<Longrightarrow> Publish_all cs p = (rs, p') \<Longrightarrow>
   pub_inv p' \<and> acked_grow p p' \<and> (\<forall>m. (Some None, m) \<in> set rs \<longrightarrow> m \<in> set (pb_acked p'))"
proof (induction cs p arbitrary: rs p' rule: Publish_all.induct)
  case (2 as m cs p)
  obtain r p1 where c: "Publish as m p = (r, p1)" by (metis prod.exhaust)
  note ok = Publish_acked [OF 2(2) c]
  show ?case
  proof (cases r)
    case None
    then show ?thesis using 2(3) c ok by (auto simp: publish_ok_def)
  next
    case (Some e)
    obtain rs2 p2 where d: "Publish_all cs p1 = (rs2, p2)" by (metis prod.exhaust)
    then have r: "rs = (Some e, m) # rs2" "p' = p2" using 2(3) c Some by auto
    have i: "pub_inv p2 \<and> acked_grow p1 p2 \<and> (\<forall>m. (Some None, m) \<in> set rs2 \<longrightarrow> m \<in> set (pb_acked p2))"
      using 2(1) [OF c [symmetric] Some, of rs2 p2] ok d by (auto simp: publish_ok_def)
    then show ?thesis using ok r Some acked_grow_trans [of p p1 p2]
      by (auto simp: publish_ok_def acked_grow_def)
  qed
qed simp


text \<open>
  The first call ends with its context before the confirmation; the connection is closed, and the
  second call sends its message on a new one.
\<close>

definition two_calls :: "(attempt list \<times> nat) list" where
  "two_calls =
     [([\<lparr>at_connecting = Connected, at_publish = None, at_ended = False, at_inputs = [Expire, Pick PCtx],
         at_over = True, at_between = []\<rparr>], 1),
      ([\<lparr>at_connecting = Connected, at_publish = None, at_ended = False,
         at_inputs = [Env (BrokerAnswers True), Pick PConfirm], at_over = False, at_between = []\<rparr>], 2)]"


text \<open>
  When the broker closes the channel and keeps the connection, the publisher does not recover:
  \<open>ensureConnection\<close> looks at the connection only, so as long as the connection stays open and no
  attempt runs into its ten seconds, every attempt of every call fails, no message is sent, and the
  channel is never opened again.
\<close>

theorem closed_channel_stays:
  assumes "pub_stuck p" and "\<forall>a \<in> set as. quiet_attempt a" and "Publish as m p = (r, p')"
  shows "r \<noteq> Some None \<and> pub_stuck p' \<and> pb_acked p' = pb_acked p"
  using Publish_stuck [OF assms] by (auto simp: stays_stuck_def)

text \<open>The channel closes during the first attempt, after the message was acknowledged once before.\<close>

definition after_closure :: "nat publisher" where
  "after_closure =
     snd (Publish [\<lparr>at_connecting = Connected, at_publish = None, at_ended = False,
       at_inputs = [Env ChannelCloses, Pick PChan], at_over = False, at_between = []\<rparr>] 1 NewPublisher)"

definition more_attempts :: "attempt list" where
  "more_attempts = replicate 3 \<lparr>at_connecting = Connected, at_publish = None, at_ended = False,
     at_inputs = [Pick PConfirm], at_over = False, at_between = []\<rparr>"

theorem closed_channel_stays_witness:
  "pub_stuck after_closure \<and> fst (Publish more_attempts 1 after_closure) \<noteq> Some None
   \<and> pub_stuck (snd (Publish more_attempts 1 after_closure))"
proof -
  have s: "pub_stuck after_closure" by code_simp
  have q: "\<forall>a \<in> set more_attempts. quiet_attempt a" by code_simp
  have e: "Publish more_attempts 1 after_closure
     = (fst (Publish more_attempts 1 after_closure), snd (Publish more_attempts 1 after_closure))" by simp
  show ?thesis using s closed_channel_stays [OF s q e] by blast
qed

end
