(* ===== verification/Log_Hook.thy ===== *)
theory Log_Hook
  imports Publisher Go_Map
begin

text \<open>
  \<open>internal/logging/logging.go\<close> and \<open>internal/logging/rabbitmqhook/rabbitmqhook.go\<close>: log
  entries and the hook that publishes them.  The publisher logs its own failures through the entry
  that it is given, so logging is recursive; the hook marks that entry, which ends the recursion.
\<close>

subsection \<open>Levels, entries and loggers\<close>

datatype log_level = PanicLevel | FatalLevel | ErrorLevel | WarnLevel | InfoLevel | DebugLevel | TraceLevel

definition Levels :: "log_level list" where
  "Levels = [PanicLevel, FatalLevel, ErrorLevel, WarnLevel, InfoLevel, DebugLevel, TraceLevel]"

fun level_rank :: "log_level \<Rightarrow> nat" where
  "level_rank PanicLevel = 0" | "level_rank FatalLevel = 1" | "level_rank ErrorLevel = 2"
| "level_rank WarnLevel = 3" | "level_rank InfoLevel = 4" | "level_rank DebugLevel = 5" | "level_rank TraceLevel = 6"

instantiation log_level :: linorder
begin

definition less_eq_log_level :: "log_level \<Rightarrow> log_level \<Rightarrow> bool" where
  "less_eq_log_level a b = (level_rank a \<le> level_rank b)"

definition less_log_level :: "log_level \<Rightarrow> log_level \<Rightarrow> bool" where
  "less_log_level a b = (level_rank a < level_rank b)"

instance
proof
  fix a b :: log_level
  show "a \<le> b \<Longrightarrow> b \<le> a \<Longrightarrow> a = b"
    by (cases a; cases b) (simp_all add: less_eq_log_level_def)
qed (auto simp: less_eq_log_level_def less_log_level_def)

end

fun level_String :: "log_level \<Rightarrow> string" where
  "level_String PanicLevel = ''panic''" | "level_String FatalLevel = ''fatal''" | "level_String ErrorLevel = ''error''"
| "level_String WarnLevel = ''warning''" | "level_String InfoLevel = ''info''" | "level_String DebugLevel = ''debug''"
| "level_String TraceLevel = ''trace''"

definition ParseLevel :: "string \<Rightarrow> gerror + log_level" where
  "ParseLevel s =
     (let l = map ascii_lower s
      in if l = ''warn'' then Inr WarnLevel
         else case find (\<lambda>v. level_String v = l) Levels of
             Some v \<Rightarrow> Inr v
           | None \<Rightarrow> Inl (Text (''not a valid logrus Level: '' @ s)))"

lemma ParseLevel_all: "map (\<lambda>v. ParseLevel (level_String v)) Levels = map Inr Levels"
  by code_simp

lemma ParseLevel_String: "ParseLevel (level_String v) = Inr v"
  using ParseLevel_all by (cases v) (simp_all only: Levels_def list.map list.inject simp_thms)

text \<open>\<open>Setup\<close>: on a bad level the logger is returned as \<open>logrus.New\<close> made it.\<close>

record 'h logger =
  lg_level :: log_level
  lg_hooks :: "'h list"
  lg_caller :: bool

definition logging_Setup :: "string \<Rightarrow> 'h list \<Rightarrow> 'h logger \<times> gerror option" where
  "logging_Setup loglevel hooks =
     (case ParseLevel loglevel of
        Inl err \<Rightarrow> (\<lparr>lg_level = InfoLevel, lg_hooks = [], lg_caller = False\<rparr>, Some err)
      | Inr logLevel \<Rightarrow> (\<lparr>lg_level = logLevel, lg_hooks = hooks, lg_caller = True\<rparr>, None))"

text \<open>An entry's fields, its context and its time, an instant with the zone it is shown in.\<close>

datatype field_value = FNil | FBool bool | FStr string

record log_entry =
  le_Data :: "(string \<times> field_value) list"
  le_Context :: bool
  le_Time :: "int \<times> string"
  le_Level :: log_level
  le_Message :: string

definition field :: "log_entry \<Rightarrow> string \<Rightarrow> field_value" where
  "field e k = (case map_of (le_Data e) k of None \<Rightarrow> FNil | Some v \<Rightarrow> v)"

definition WithField :: "string \<Rightarrow> field_value \<Rightarrow> log_entry \<Rightarrow> log_entry" where
  "WithField k v e = e\<lparr>le_Data := (k, v) # filter (\<lambda>p. fst p \<noteq> k) (le_Data e)\<rparr>"

lemma field_WithField [simp]: "field (WithField k v e) k = v"
  by (simp add: field_def WithField_def)

definition fmt_s :: "field_value \<Rightarrow> string" where
  "fmt_s v = (case v of FStr s \<Rightarrow> s | FBool b \<Rightarrow> (if b then ''%!s(bool=true)'' else ''%!s(bool=false)'')
     | FNil \<Rightarrow> ''%!s(<nil>)'')"

subsection \<open>The hook\<close>

text \<open>
  The JSON formatter is a parameter; the entry's time is in UTC while it runs and is put back
  afterwards.
\<close>

definition hook_format :: "(log_entry \<Rightarrow> gerror + bytes) \<Rightarrow> log_entry \<Rightarrow> (gerror + bytes) \<times> log_entry" where
  "hook_format formatter e =
     (let originalTime = le_Time e;
          e1 = e\<lparr>le_Time := (fst (le_Time e), ''UTC'')\<rparr>;
          formatted = formatter e1
      in (formatted, e1\<lparr>le_Time := originalTime\<rparr>))"

text \<open>
  The checks of \<open>Fire\<close>: an error, nothing to do, or the call of \<open>Publish\<close> that \<open>publish\<close>
  makes, with the entry for the publisher's own messages, the routing key and the body.
\<close>

definition hook_publish :: "log_level \<Rightarrow> log_entry \<Rightarrow> bytes \<Rightarrow> log_entry \<times> string \<times> bytes" where
  "hook_publish lvl e message =
     (WithField ''user_log'' (FBool False) e, fmt_s (field e ''identifier'') @ ''.log.'' @ level_String lvl, message)"

definition Fire ::
  "(log_entry \<Rightarrow> gerror + bytes) \<Rightarrow> log_level \<Rightarrow> log_entry \<Rightarrow> gerror + (log_entry \<times> string \<times> bytes) option" where
  "Fire formatter lvl e =
     (if field e ''user_log'' = FBool False then Inr None
      else if field e ''identifier'' = FNil then Inl (Text ''no identifier set to user log entry'')
      else if \<not> le_Context e then Inl (Text ''no context set to user log entry'')
      else (case hook_format formatter e of
          (Inl err, _) \<Rightarrow> Inl err
        | (Inr message, e') \<Rightarrow> Inr (Some (hook_publish lvl e' message))))"

subsection \<open>Logging an entry\<close>

text \<open>
  The logger of one service: its level, the formatter, and what \<open>Publish\<close> does for a routing key
  and a body: the messages it logs and its error.
\<close>

record log_env =
  lv_level :: log_level
  lv_format :: "log_entry \<Rightarrow> gerror + bytes"
  lv_publish :: "string \<Rightarrow> bytes \<Rightarrow> (log_level \<times> string) list \<times> gerror option"

datatype log_act = HookFailed gerror | Published string bytes | Console log_entry

definition le_own :: "log_entry \<Rightarrow> log_level \<Rightarrow> string \<Rightarrow> log_entry" where
  "le_own e lv m = e\<lparr>le_Level := lv, le_Message := m\<rparr>"

definition marked :: "log_entry \<Rightarrow> nat" where
  "marked e = (if field e ''user_log'' = FBool False then 0 else 1)"

lemma field_own [simp]: "field (le_own e lv m) k = field e k"
  by (simp add: field_def le_own_def)

lemma le_own_level [simp]: "le_Level (le_own e lv m) = lv"
  by (simp add: le_own_def)

lemma marked_own: "marked (le_own e lv m) = marked e"
  by (simp add: marked_def)

lemma Fire_marked: "Fire fm lvl e = Inr (Some (own, k, b)) \<Longrightarrow> marked own = 0 \<and> marked e = 1"
  by (auto simp: Fire_def marked_def hook_publish_def split: if_splits sum.splits prod.splits)

function log_run :: "log_env \<Rightarrow> log_entry \<Rightarrow> log_act list" where
  "log_run E e =
     (if lv_level E < le_Level e then []
      else (case Fire (lv_format E) (lv_level E) e of
              Inl err \<Rightarrow> [HookFailed err]
            | Inr None \<Rightarrow> []
            | Inr (Some (own, k, b)) \<Rightarrow>
                Published k b
                # concat (map (\<lambda>(lv, m). log_run E (le_own own lv m)) (fst (lv_publish E k b)))
                @ (case snd (lv_publish E k b) of Some err \<Rightarrow> [HookFailed err] | None \<Rightarrow> []))
           @ [Console e])"
  by pat_completeness auto

termination
  by (relation "measure (\<lambda>(E, e). marked e)") (simp, clarsimp simp: marked_own, frule Fire_marked, simp)

declare log_run.simps [simp del]

text \<open>The messages the publisher logs only reach the console.\<close>

lemma log_run_own:
  assumes "field e ''user_log'' = FBool False"
  shows "log_run E e = (if lv_level E < le_Level e then [] else [Console e])"
  using assms by (simp add: log_run.simps [of E e] Fire_def)

lemma log_run_published:
  assumes "Fire (lv_format E) (lv_level E) e = Inr (Some (own, k, b))"
  shows "log_run E e =
    (if lv_level E < le_Level e then []
     else Published k b
       # map (\<lambda>(lv, m). Console (le_own own lv m)) (filter (\<lambda>(lv, m). lv \<le> lv_level E) (fst (lv_publish E k b)))
       @ (case snd (lv_publish E k b) of Some err \<Rightarrow> [HookFailed err] | None \<Rightarrow> []) @ [Console e])"
proof -
  have own: "field (le_own own lv m) ''user_log'' = FBool False" for lv m
    using Fire_marked [OF assms] by (simp add: marked_def split: if_splits)
  have "concat (map (\<lambda>(lv, m). log_run E (le_own own lv m)) ls)
      = map (\<lambda>(lv, m). Console (le_own own lv m)) (filter (\<lambda>(lv, m). lv \<le> lv_level E) ls)" for ls
    by (induction ls) (auto simp: log_run_own [OF own] le_own_level)
  then show ?thesis using assms by (subst log_run.simps) simp
qed

text \<open>When the hook sends an entry, and what it sends.\<close>

definition hook_body :: "(log_entry \<Rightarrow> gerror + bytes) \<Rightarrow> log_entry \<Rightarrow> gerror + bytes" where
  "hook_body formatter e = formatter (e\<lparr>le_Time := (fst (le_Time e), ''UTC'')\<rparr>)"

definition is_published :: "log_act \<Rightarrow> bool" where
  "is_published a = (case a of Published _ _ \<Rightarrow> True | _ \<Rightarrow> False)"

lemma Fire_cases:
  "Fire fm lvl e =
     (if field e ''user_log'' = FBool False then Inr None
      else if field e ''identifier'' = FNil then Inl (Text ''no identifier set to user log entry'')
      else if \<not> le_Context e then Inl (Text ''no context set to user log entry'')
      else (case hook_body fm e of
          Inl err \<Rightarrow> Inl err
        | Inr b \<Rightarrow> Inr (Some (WithField ''user_log'' (FBool False) e,
            fmt_s (field e ''identifier'') @ ''.log.'' @ level_String lvl, b))))"
  by (simp add: Fire_def hook_format_def hook_body_def hook_publish_def Let_def split: sum.splits)

text \<open>
  C38: Logging an entry publishes at most one message and returns, whatever the publisher logs
  itself while it tries: an entry at an enabled level whose \<open>user_log\<close> is not \<open>false\<close> and that
  has an identifier, a context and a JSON form is published once, under its identifier and the
  \emph{logger's} level, and everything that \<open>Publish\<close> logs meanwhile goes to the console only; no
  other entry is published.  An entry without a \<open>user_log\<close> field is published as well.
\<close>

theorem log_publishes_once:
  "filter is_published (log_run E e) =
     (if le_Level e \<le> lv_level E \<and> field e ''user_log'' \<noteq> FBool False \<and> field e ''identifier'' \<noteq> FNil \<and> le_Context e
      then (case hook_body (lv_format E) e of
          Inr b \<Rightarrow> [Published (fmt_s (field e ''identifier'') @ ''.log.'' @ level_String (lv_level E)) b]
        | Inl _ \<Rightarrow> [])
      else [])"
proof (cases "\<exists>own k b. Fire (lv_format E) (lv_level E) e = Inr (Some (own, k, b))")
  case True
  then obtain own k b where f: "Fire (lv_format E) (lv_level E) e = Inr (Some (own, k, b))" by blast
  have none: "filter is_published (map (\<lambda>(lv, m). Console (le_own own lv m)) ls) = []" for ls
    by (simp add: filter_empty_conv is_published_def split: prod.splits)
  have "filter is_published (log_run E e) = (if lv_level E < le_Level e then [] else [Published k b])"
    using none by (simp add: log_run_published [OF f] is_published_def split: option.splits)
  then show ?thesis using f by (simp add: Fire_cases not_less split: if_splits sum.splits)
next
  case False
  then have "filter is_published (log_run E e) = []"
    by (subst log_run.simps) (auto simp: is_published_def split: sum.splits option.splits)
  then show ?thesis using False by (simp add: Fire_cases split: if_splits sum.splits)
qed

end
