(* ===== verification/Commands.thy ===== *)
theory Commands
  imports Config Log_Hook Scope_Auth
begin

text \<open>
  The services' start and end: \<open>internal/server/server.go\<close>, \<open>pkg/application/application.go\<close>, the
  routes each package loads, and the \<open>main\<close> functions under \<open>cmd/\<close>.  The router and the log file
  rotation are third-party; a route is its method, its path and the handler's name.
\<close>

subsection \<open>The web service\<close>

text \<open>\<open>http.StripPrefix\<close> works on the path of the request and on its escaped form, if it has one.\<close>

record web_request =
  rq_Path :: string
  rq_RawPath :: string

type_synonym web_handler = "web_request \<Rightarrow> http_writer \<Rightarrow> http_writer"

definition TrimPrefix :: "string \<Rightarrow> string \<Rightarrow> string" where
  "TrimPrefix s prefix = (if has_prefix prefix s then drop (length prefix) s else s)"

definition StripPrefix :: "string \<Rightarrow> web_handler \<Rightarrow> web_handler" where
  "StripPrefix prefix h r w =
     (if prefix = [] then h r w
      else (let p = TrimPrefix (rq_Path r) prefix; rp = TrimPrefix (rq_RawPath r) prefix
            in if length p < length (rq_Path r) \<and> (rq_RawPath r = [] \<or> length rp < length (rq_RawPath r))
               then h (r\<lparr>rq_Path := p, rq_RawPath := rp\<rparr>) w
               else http_NotFound w))"

record web_service =
  ws_Addr :: string
  ws_Handler :: web_handler

definition NewWebService :: "baseCfg \<Rightarrow> web_handler \<Rightarrow> web_service" where
  "NewWebService cfg h =
     \<lparr>ws_Addr = serviceHost cfg @ '':'' @ servicePort cfg,
      ws_Handler = (if stripPrefix cfg \<noteq> [] then StripPrefix (stripPrefix cfg) h else h)\<rparr>"

subsection \<open>Routes\<close>

type_synonym route = "string \<times> string \<times> string"

definition v1alpha_routes :: "route list" where
  "v1alpha_routes =
     [(''GET'', ''/sse/v1alpha/selftest/ping'', ''Selftest''), (''GET'', ''/sse/v1alpha/logs/:identifier'', ''GetEvents'')]"

definition v1_routes :: "route list" where
  "v1_routes =
     [(''GET'', ''/sse/v1/selftest/ping'', ''Selftest''), (''GET'', ''/sse/v1/events/:identifier'', ''GetEvents''),
      (''GET'', ''/sse/v1/event/:identifier/:id'', ''GetEvent'')]"

definition v2alpha_routes :: "route list" where
  "v2alpha_routes =
     [(''GET'', ''/sse/v2alpha/selftest/ping'', ''Selftest''), (''GET'', ''/sse/v2alpha/events/:identifier'', ''GetEvents'')]"

definition key_routes :: "route list" where
  "key_routes = [(''GET'', ''/keys/v1alpha/selftest/ping'', ''Selftest''), (''POST'', ''/keys/v1alpha/generate'', ''CreateNew'')]"

definition logarea_routes :: "route list" where
  "logarea_routes =
     [(''GET'', ''/logarea/v1alpha/selftest/ping'', ''Selftest''), (''POST'', ''/logarea/upload'', ''Upload''),
      (''GET'', ''/logarea/upload'', ''Download'')]"

definition iut_routes :: "route list" where
  "iut_routes =
     [(''GET'', ''/iut/v1alpha1/selftest/ping'', ''Selftest''), (''POST'', ''/iut/start'', ''Start''),
      (''GET'', ''/iut/status'', ''Status''), (''POST'', ''/iut/stop'', ''Stop'')]"

definition executionspace_routes :: "string \<Rightarrow> route list" where
  "executionspace_routes executor =
     [(''GET'', ''/executionspace/v1alpha/selftest/ping'', ''Selftest''), (''POST'', ''/executionspace/start'', ''Start''),
      (''GET'', ''/executionspace/status'', ''Status''), (''POST'', ''/executionspace/stop'', ''Stop''),
      (''POST'', ''/executionspace/v1alpha/executor/'' @ executor, ''ExecutorStart'')]"

definition application_New :: "route list \<Rightarrow> route list list \<Rightarrow> route list" where
  "application_New app apps = app @ concat apps"

subsection \<open>Starting\<close>

text \<open>
  How far \<open>main\<close> comes: the process exits while it reads its flags, panics, ends with a fatal
  message (without running what is deferred), or serves.
\<close>

datatype 'a boot = Exited int | Panic string | Fatal string | Serves 'a

definition boot_config :: "'c configured \<Rightarrow> ('c \<Rightarrow> 'a boot) \<Rightarrow> 'a boot" where
  "boot_config c f = (case c of Exits n \<Rightarrow> Exited n | Panics m \<Rightarrow> Panic m | Configured cfg \<Rightarrow> f cfg)"

datatype hook = FileHook string | RabbitHook string string

definition fileLogging :: "baseCfg \<Rightarrow> hook list" where
  "fileLogging cfg = (if logFilePath cfg \<noteq> [] then [FileHook (logFilePath cfg)] else [])"

text \<open>The logger and the host name, which every \<open>main\<close> needs.\<close>

definition boot_logger :: "string \<Rightarrow> hook list \<Rightarrow> gerror + string \<Rightarrow> (hook logger \<Rightarrow> 'a boot) \<Rightarrow> 'a boot" where
  "boot_logger level hooks hn f =
     (case logging_Setup level hooks of
        (_, Some err) \<Rightarrow> Fatal (err_string err)
      | (logger, None) \<Rightarrow> (case hn of Inl err \<Rightarrow> Fatal (err_string err) | Inr _ \<Rightarrow> f logger))"

text \<open>
  \<open>NewRabbitMQStreamer\<close>: the environment is opened up to eleven times; \<open>connect n\<close> is the answer to
  the attempt \<open>n\<close>.
\<close>

fun connect_retry :: "(nat \<Rightarrow> gerror + 'e) \<Rightarrow> nat \<Rightarrow> nat \<Rightarrow> gerror + 'e" where
  "connect_retry connect n 0 = connect n"
| "connect_retry connect n (Suc retries) =
     (case connect n of Inr e \<Rightarrow> Inr e | Inl err \<Rightarrow> connect_retry connect (Suc n) retries)"

definition NewRabbitMQStreamer :: "(nat \<Rightarrow> gerror + 'e) \<Rightarrow> gerror + 'e" where
  "NewRabbitMQStreamer connect =
     (case connect_retry connect 0 10 of
        Inr e \<Rightarrow> Inr e
      | Inl err \<Rightarrow> Inl (Wrapped ''failed to connect to RabbitMQ after 10 retries: '' err))"

datatype 'e streamer = FileStreamer | RabbitMQStreamer 'e string bool

text \<open>
  \<open>cmd/sse\<close>: the flag of the streamer tells whether the connection uses TLS.  The metrics exporter
  only warns when it cannot be set up.
\<close>

definition sse_streamer ::
  "sseCfg \<Rightarrow> (nat \<Rightarrow> gerror + 'e) \<Rightarrow> ('e \<Rightarrow> string \<Rightarrow> gerror option) \<Rightarrow> ('e streamer \<Rightarrow> 'a boot) \<Rightarrow> 'a boot" where
  "sse_streamer cfg connect declare f =
     (if rabbitmqURI cfg \<noteq> [] then
        (if rabbitmqStreamName cfg = [] then Fatal ''ETOS_RABBITMQ_STREAM_NAME must be set for the SSE server to work.''
         else (case NewRabbitMQStreamer connect of
             Inl err \<Rightarrow> Fatal (err_string err)
           | Inr env \<Rightarrow>
               (case declare env (rabbitmqStreamName cfg) of
                  Some err \<Rightarrow> Fatal (err_string err)
                | None \<Rightarrow> f (RabbitMQStreamer env (rabbitmqStreamName cfg)
                    (has_prefix ''rabbitmq-stream+tls://'' (rabbitmqURI cfg))))))
      else f FileStreamer)"

definition sse_main ::
  "process \<Rightarrow> gerror + string \<Rightarrow> (nat \<Rightarrow> gerror + 'e) \<Rightarrow> ('e \<Rightarrow> string \<Rightarrow> gerror option) \<Rightarrow> (route list \<Rightarrow> web_handler)
   \<Rightarrow> (web_service \<times> 'e streamer \<times> hook logger) boot" where
  "sse_main K hn connect declare router =
     boot_config (NewSSEConfig K) (\<lambda>cfg.
       boot_logger (logLevel (sse_base cfg)) (fileLogging (sse_base cfg)) hn (\<lambda>logger.
         sse_streamer cfg connect declare (\<lambda>streamer.
           Serves (NewWebService (sse_base cfg) (router (application_New v1alpha_routes [v1_routes, v2alpha_routes])),
             streamer, logger))))"

text \<open>\<open>cmd/keys\<close>: both keys are read and parsed before the service starts.\<close>

definition keys_main ::
  "process \<Rightarrow> gerror + string \<Rightarrow> ('pub, 'priv) jwt_lib \<Rightarrow> (route list \<Rightarrow> web_handler)
   \<Rightarrow> (web_service \<times> ('pub, 'priv) authorizer) boot" where
  "keys_main K hn J router =
     boot_config (NewKeyConfig K) (\<lambda>cfg.
       boot_logger (logLevel (key_base cfg)) (fileLogging (key_base cfg)) hn (\<lambda>logger.
         case PublicKey K (key_base cfg) of
           Inl err \<Rightarrow> Fatal (err_string err)
         | Inr pub \<Rightarrow>
             (case PrivateKey K cfg of
                Inl err \<Rightarrow> Fatal (err_string err)
              | Inr priv \<Rightarrow>
                  (case NewAuthorizer J pub priv of
                     Inl err \<Rightarrow> Fatal (err_string err)
                   | Inr a \<Rightarrow> Serves (NewWebService (key_base cfg) (router (application_New key_routes [])), a)))))"

text \<open>\<open>cmd/logarea\<close>, which makes the upload directory while it loads the routes.\<close>

definition logarea_main ::
  "process \<Rightarrow> gerror + string \<Rightarrow> (string \<Rightarrow> gerror option) \<Rightarrow> (route list \<Rightarrow> web_handler) \<Rightarrow> (web_service \<times> logAreaCfg) boot" where
  "logarea_main K hn mkdir router =
     boot_config (NewLogAreaConfig K) (\<lambda>cfg.
       boot_logger (logLevel (la_base cfg)) (fileLogging (la_base cfg)) hn (\<lambda>logger.
         case mkdir (uploadPath cfg) of
           Some err \<Rightarrow> Panic (err_string err)
         | None \<Rightarrow> Serves (NewWebService (la_base cfg) (router (application_New logarea_routes [])), cfg)))"

text \<open>
  \<open>provider.Kubernetes.New\<close>: the address that executors are started at, which is a route of the
  same service.
\<close>

definition executor_url :: "executionSpaceCfg \<Rightarrow> string" where
  "executor_url cfg = hostname cfg @ ''/executionspace/v1alpha/executor/kubernetes''"

lemma executor_url_routed:
  "\<exists>p. executor_url cfg = hostname cfg @ p
     \<and> (''POST'', p, ''ExecutorStart'') \<in> set (application_New (executionspace_routes ''kubernetes'') [])"
  by (simp add: executor_url_def application_New_def executionspace_routes_def)

text \<open>
  \<open>metrics.Setup\<close>: whether the meter provider is installed, and the error.  The arguments are what
  the exporter, the resource and the runtime metrics answer, and the errors of shutting down what
  was already there.
\<close>

definition metrics_Setup ::
  "process \<Rightarrow> gerror option \<Rightarrow> gerror option \<Rightarrow> gerror option \<Rightarrow> gerror list \<times> gerror list \<Rightarrow> bool \<times> gerror option" where
  "metrics_Setup K exporter res runtime shutdowns =
     (if Getenv K ''OTEL_EXPORTER_OTLP_ENDPOINT'' = [] \<and> Getenv K ''OTEL_EXPORTER_OTLP_METRICS_ENDPOINT'' = []
      then (False, None)
      else case exporter of Some err \<Rightarrow> (False, Some (Wrapped ''create OTLP metric exporter: '' err))
      | None \<Rightarrow>
          (case res of
             Some err \<Rightarrow> (False, Some (Joined (Wrapped ''create OpenTelemetry resource: '' err # fst shutdowns)))
           | None \<Rightarrow>
               (case runtime of
                  Some err \<Rightarrow> (False, Some (Joined (Wrapped ''start Go runtime metrics: '' err # snd shutdowns)))
                | None \<Rightarrow> (True, None))))"

lemma metrics_Setup_installed:
  "fst (metrics_Setup K e r t sd) \<Longrightarrow> snd (metrics_Setup K e r t sd) = None"
  by (auto simp: metrics_Setup_def split: option.splits if_splits)

text \<open>\<open>vcsRevision\<close>: of \<open>cmd/sse\<close> with the injected revision, the others without one.\<close>

definition vcsRevision :: "string \<Rightarrow> (string \<times> string) list option \<Rightarrow> string" where
  "vcsRevision buildRevision buildInfo =
     (if buildRevision \<noteq> [] then buildRevision
      else case buildInfo of None \<Rightarrow> ''(unknown)''
        | Some settings \<Rightarrow>
            (case find (\<lambda>(k, v). k = ''vcs.revision'') settings of Some (_, v) \<Rightarrow> v | None \<Rightarrow> ''(unknown)''))"

subsection \<open>Stopping the SSE server\<close>

text \<open>
  The streams that are open, and the shutdown: the signal closes the listeners and cancels the
  context of the v2alpha streams; the applications of the older protocols are closed by deferred
  calls only when \<open>Shutdown\<close> has returned, with no stream left or after a minute (60 seconds of
  \<open>sv_waited\<close>).  Streams end when their client leaves.
\<close>

datatype protocol = V1alpha | V1 | V2alpha

datatype phase = Serving | Stopping | Stopped bool

record sse_server =
  sv_phase :: phase
  sv_streams :: "(nat \<times> protocol) list"
  sv_v2_canceled :: bool
  sv_waited :: nat

datatype sse_act = Opens nat protocol | Leaves nat | Signal | OnShutdown | Ends nat | Drained | Second | Minute

definition sv_drop :: "nat \<Rightarrow> sse_server \<Rightarrow> sse_server" where
  "sv_drop i s = s\<lparr>sv_streams := filter (\<lambda>p. fst p \<noteq> i) (sv_streams s)\<rparr>"

fun sv_step :: "sse_act \<Rightarrow> sse_server \<Rightarrow> sse_server option" where
  "sv_step (Opens i k) s =
     (if sv_phase s = Serving \<and> i \<notin> fst ` set (sv_streams s) then Some (s\<lparr>sv_streams := (i, k) # sv_streams s\<rparr>) else None)"
| "sv_step (Leaves i) s = Some (sv_drop i s)"
| "sv_step Signal s = (if sv_phase s = Serving then Some (s\<lparr>sv_phase := Stopping\<rparr>) else None)"
| "sv_step OnShutdown s = (if sv_phase s = Stopping then Some (s\<lparr>sv_v2_canceled := True\<rparr>) else None)"
| "sv_step (Ends i) s =
     (if sv_v2_canceled s \<and> map_of (sv_streams s) i = Some V2alpha then Some (sv_drop i s) else None)"
| "sv_step Drained s = (if sv_phase s = Stopping \<and> sv_streams s = [] then Some (s\<lparr>sv_phase := Stopped True\<rparr>) else None)"
| "sv_step Second s = (if sv_phase s = Stopping \<and> sv_waited s < 60 then Some (s\<lparr>sv_waited := Suc (sv_waited s)\<rparr>) else None)"
| "sv_step Minute s = (if sv_phase s = Stopping \<and> sv_waited s = 60 then Some (s\<lparr>sv_phase := Stopped False\<rparr>) else None)"

fun sv_run :: "sse_act list \<Rightarrow> sse_server \<Rightarrow> sse_server option" where
  "sv_run [] s = Some s"
| "sv_run (a # as) s = (case sv_step a s of None \<Rightarrow> None | Some s' \<Rightarrow> sv_run as s')"

definition sv_init :: sse_server where
  "sv_init = \<lparr>sv_phase = Serving, sv_streams = [], sv_v2_canceled = False, sv_waited = 0\<rparr>"

text \<open>An older stream that is open keeps the shutdown waiting.\<close>

lemma sv_step_older:
  assumes "sv_step a s = Some s'" "a \<noteq> Leaves i" "map_of (sv_streams s) i = Some k" "k \<noteq> V2alpha"
    and "\<forall>b. sv_phase s = Stopped b \<longrightarrow> \<not> b \<and> sv_waited s = 60"
  shows "map_of (sv_streams s') i = Some k \<and> (\<forall>b. sv_phase s' = Stopped b \<longrightarrow> \<not> b \<and> sv_waited s' = 60)"
proof -
  have drop: "map_of (filter (\<lambda>p. fst p \<noteq> j) xs) i = (if i = j then None else map_of xs i)" for j and xs :: "(nat \<times> protocol) list"
    by (induction xs) auto
  have "i \<in> fst ` set (sv_streams s)" using assms(3) by (metis domI dom_map_of_conv_image_fst)
  then show ?thesis
    using assms by (cases a) (auto simp: sv_drop_def drop image_iff split: if_splits)
qed

lemma sv_run_older:
  "sv_run as s = Some s' \<Longrightarrow> Leaves i \<notin> set as \<Longrightarrow> map_of (sv_streams s) i = Some k \<Longrightarrow> k \<noteq> V2alpha \<Longrightarrow>
   \<forall>b. sv_phase s = Stopped b \<longrightarrow> \<not> b \<and> sv_waited s = 60 \<Longrightarrow>
   \<forall>b. sv_phase s' = Stopped b \<longrightarrow> \<not> b \<and> sv_waited s' = 60"
proof (induction as arbitrary: s)
  case (Cons a as)
  then obtain s1 where a: "sv_step a s = Some s1" "sv_run as s1 = Some s'" by (auto split: option.splits)
  have "a \<noteq> Leaves i" using Cons.prems(2) by auto
  from sv_step_older [OF a(1) this Cons.prems(3-5)] show ?case
    using Cons.IH [OF a(2) _ _ Cons.prems(4)] Cons.prems(2) by auto
qed auto

text \<open>Streams of v2alpha alone do not.\<close>

lemma sv_v2_end:
  "sv_v2_canceled s \<Longrightarrow> \<forall>p \<in> set (sv_streams s). snd p = V2alpha \<Longrightarrow> sv_phase s = Stopping \<Longrightarrow>
   \<exists>as s'. sv_run as s = Some s' \<and> sv_phase s' = Stopped True \<and> sv_waited s' = sv_waited s
     \<and> (\<forall>a \<in> set as. a = Drained \<or> (\<exists>i. a = Ends i))"
proof (induction "length (sv_streams s)" arbitrary: s rule: less_induct)
  case less
  show ?case
  proof (cases "sv_streams s")
    case Nil
    then show ?thesis using less.prems by (intro exI [of _ "[Drained]"]) simp
  next
    case (Cons p ps)
    then obtain i where p: "p = (i, V2alpha)" using less.prems(2) by (cases p) auto
    let ?s = "sv_drop i s"
    have st: "sv_step (Ends i) s = Some ?s" using less.prems(1) Cons p by simp
    have "length (sv_streams ?s) < length (sv_streams s)"
      using Cons p length_filter_le [of "\<lambda>p. fst p \<noteq> i" ps] by (simp add: sv_drop_def less_Suc_eq_le)
    moreover have "sv_v2_canceled ?s" "\<forall>p \<in> set (sv_streams ?s). snd p = V2alpha" "sv_phase ?s = Stopping"
      "sv_waited ?s = sv_waited s"
      using less.prems by (auto simp: sv_drop_def)
    ultimately obtain as s' where "sv_run as ?s = Some s'" "sv_phase s' = Stopped True" "sv_waited s' = sv_waited s"
      "\<forall>a \<in> set as. a = Drained \<or> (\<exists>i. a = Ends i)" using less.hyps [of ?s] by auto
    then show ?thesis using st by (intro exI [of _ "Ends i # as"] exI [of _ s']) auto
  qed
qed

subsection \<open>Properties\<close>

lemma connect_retry_first:
  "connect_retry connect n r = Inr e \<Longrightarrow>
   \<exists>m \<le> r. connect (n + m) = Inr e \<and> (\<forall>j < m. is_ok (connect (n + j)) = False)"
proof (induction connect n r rule: connect_retry.induct)
  case (2 connect n r)
  show ?case
  proof (cases "connect n")
    case (Inl err)
    then obtain m where "m \<le> r" "connect (Suc n + m) = Inr e" "\<forall>j < m. is_ok (connect (Suc n + j)) = False"
      using 2 by auto
    then show ?thesis using Inl by (intro exI [of _ "Suc m"]) (auto simp: less_Suc_eq_0_disj)
  next
    case (Inr x)
    then show ?thesis using 2(2) by (intro exI [of _ 0]) simp
  qed
qed auto

lemma StripPrefix_prefixed:
  assumes "prefix \<noteq> []" "rq_Path r = prefix @ p" "rq_RawPath r = []"
  shows "StripPrefix prefix h r w = h (r\<lparr>rq_Path := p\<rparr>) w"
  using assms by (cases r) (simp add: StripPrefix_def TrimPrefix_def has_prefix_def Let_def)

lemma NewWebService_prefixed:
  assumes "rq_Path r = stripPrefix cfg @ p" "rq_RawPath r = []"
  shows "ws_Handler (NewWebService cfg h) r w = h (r\<lparr>rq_Path := p\<rparr>) w"
proof (cases "stripPrefix cfg = []")
  case True
  then have "r\<lparr>rq_Path := p\<rparr> = r" using assms by (cases r) simp
  then show ?thesis using True by (simp add: NewWebService_def)
next
  case False
  then show ?thesis using StripPrefix_prefixed [OF False assms] by (simp add: NewWebService_def)
qed

text \<open>The routes of a service differ, so loading them does not panic.\<close>

lemma routes_distinct:
  "distinct (map (\<lambda>(m, p, _). (m, p)) (application_New v1alpha_routes [v1_routes, v2alpha_routes]))"
  "distinct (map (\<lambda>(m, p, _). (m, p)) (application_New key_routes []))"
  "distinct (map (\<lambda>(m, p, _). (m, p)) (application_New logarea_routes []))"
  "distinct (map (\<lambda>(m, p, _). (m, p)) (application_New iut_routes []))"
  "distinct (map (\<lambda>(m, p, _). (m, p)) (application_New (executionspace_routes ''kubernetes'') []))"
  by code_simp+

lemma boot_config_Serves:
  "boot_config c f = Serves x \<longleftrightarrow> (\<exists>cfg. c = Configured cfg \<and> f cfg = Serves x)"
  by (auto simp: boot_config_def split: configured.splits)

lemma boot_logger_Serves:
  "boot_logger level hooks hn f = Serves x \<longleftrightarrow>
   (\<exists>lv. ParseLevel level = Inr lv \<and> is_ok hn \<and> f \<lparr>lg_level = lv, lg_hooks = hooks, lg_caller = True\<rparr> = Serves x)"
  by (auto simp: boot_logger_def logging_Setup_def split: sum.splits)

lemma sse_streamer_Serves:
  assumes "sse_streamer cfg connect declare f = Serves x"
  obtains (files) "rabbitmqURI cfg = []" "f FileStreamer = Serves x"
  | (rabbit) env where "rabbitmqURI cfg \<noteq> []" "rabbitmqStreamName cfg \<noteq> []" "NewRabbitMQStreamer connect = Inr env"
      "declare env (rabbitmqStreamName cfg) = None"
      "f (RabbitMQStreamer env (rabbitmqStreamName cfg) (has_prefix ''rabbitmq-stream+tls://'' (rabbitmqURI cfg))) = Serves x"
  using assms by (auto simp: sse_streamer_def split: if_splits sum.splits option.splits)

lemma NewRabbitMQStreamer_first:
  "NewRabbitMQStreamer connect = Inr env \<Longrightarrow>
   \<exists>n \<le> 10. connect n = Inr env \<and> (\<forall>j < n. is_ok (connect j) = False)"
  using connect_retry_first [of connect 0 10 env] by (auto simp: NewRabbitMQStreamer_def split: sum.splits)


definition ex_sse_process :: process where
  "ex_sse_process = \<lparr>pc_env = [''ETOS_RABBITMQ_URI'' \<mapsto> ''rabbitmq-stream://mq'', ''ETOS_RABBITMQ_STREAM_NAME'' \<mapsto> ''etos''],
     pc_read = (\<lambda>_. Inl (Text ''no such file'')), pc_duration = (\<lambda>_. Inr 0), pc_args = [''-stripprefix=/etos'']\<rparr>"

definition ex_sse_main :: "(web_service \<times> unit streamer \<times> hook logger) boot" where
  "ex_sse_main = sse_main ex_sse_process (Inr ''host'') (\<lambda>n. if n < 3 then Inl (Text ''refused'') else Inr ()) (\<lambda>_ _. None)
     (\<lambda>_ r w. write_body (rq_Path r) w)"

definition is_serving :: "'a boot \<Rightarrow> bool" where
  "is_serving b = (case b of Serves _ \<Rightarrow> True | _ \<Rightarrow> False)"




end
