(* ===== verification/Startup.thy ===== *)
theory Startup
  imports Commands Execution_Space Sse_Metrics
begin

text \<open>
  The start of the services that need etcd and Kubernetes (\<open>cmd/iut\<close>, \<open>cmd/executionspace\<close>): the
  clients that \<open>etcd.New\<close> and \<open>executor.Kubernetes\<close> connect, the tracing that
  \<open>LoadRoutes\<close> sets up, and the instruments of \<open>internal/metrics\<close>.
\<close>

subsection \<open>Paths\<close>

text \<open>\<open>filepath.Clean\<close>: elements are dropped when empty or a dot, and a double dot takes back the last one.\<close>

fun clean_elems :: "bool \<Rightarrow> string list \<Rightarrow> string list \<Rightarrow> string list" where
  "clean_elems rooted out [] = rev out"
| "clean_elems rooted out (x # xs) =
     (if x = [] \<or> x = ''.'' then clean_elems rooted out xs
      else if x = ''..'' then
        (case out of
           [] \<Rightarrow> if rooted then clean_elems rooted [] xs else clean_elems rooted [''..''] xs
         | y # ys \<Rightarrow> if y = ''..'' then clean_elems rooted (''..'' # out) xs else clean_elems rooted ys xs)
      else clean_elems rooted (x # out) xs)"

definition path_Clean :: "string \<Rightarrow> string" where
  "path_Clean p =
     (let rooted = (p \<noteq> [] \<and> hd p = CHR ''/'');
          q = (if rooted then ''/'' else []) @ join_with ''/'' (clean_elems rooted [] (split_on (CHR ''/'') p))
      in if q = [] then ''.'' else q)"

text \<open>\<open>filepath.Join\<close>: empty elements are ignored.\<close>

definition path_Join :: "string list \<Rightarrow> string" where
  "path_Join xs =
     (let ys = filter (\<lambda>x. x \<noteq> []) xs in if ys = [] then [] else path_Clean (join_with ''/'' ys))"

subsection \<open>The clients\<close>

text \<open>
  What the start meets outside of the process: the host name, the etcd client for an endpoint, the
  configuration of the cluster that the process runs in, the home directory, a configuration file,
  the Kubernetes client for a configuration, the exporter for a trace endpoint, and the trace resource.
\<close>

record ('cfg, 'kube, 'etcd) surroundings =
  os_Hostname :: "gerror + string"
  new_etcd :: "string \<Rightarrow> gerror + 'etcd"
  InClusterConfig :: "gerror + 'cfg"
  HomeDir :: string
  BuildConfigFromFlags :: "string \<Rightarrow> gerror + 'cfg"
  NewForConfig :: "'cfg \<Rightarrow> gerror + 'kube"
  trace_exporter :: "string \<Rightarrow> gerror option"
  trace_resource :: "gerror option"

text \<open>\<open>etcd.New\<close> panics when the client is refused.\<close>

definition etcd_client_New :: "('cfg, 'kube, 'etcd) surroundings \<Rightarrow> baseCfg \<Rightarrow> 'etcd outcome" where
  "etcd_client_New W cfg =
     (case new_etcd W (DatabaseURI cfg) of Inl err \<Rightarrow> Panicked (err_string err) | Inr client \<Rightarrow> Returned client)"

definition inCluster :: "('cfg, 'kube, 'etcd) surroundings \<Rightarrow> gerror + 'cfg" where
  "inCluster W = InClusterConfig W"

definition outOfCluster :: "('cfg, 'kube, 'etcd) surroundings \<Rightarrow> gerror + 'cfg" where
  "outOfCluster W =
     (if HomeDir W = [] then Inl (Text ''no home directory for user'')
      else BuildConfigFromFlags W (path_Join [HomeDir W, ''.kube'', ''config'']))"

record 'kube kubernetes_executor =
  ke_client :: 'kube
  ke_namespace :: string
  ke_secret :: string

definition Kubernetes ::
  "('cfg, 'kube, 'etcd) surroundings \<Rightarrow> string \<Rightarrow> string \<Rightarrow> 'kube kubernetes_executor outcome" where
  "Kubernetes W namespace secret =
     (case (case inCluster W of Inr config \<Rightarrow> Inr config | Inl err \<Rightarrow> outOfCluster W) of
        Inl err \<Rightarrow> Panicked (err_string err)
      | Inr config \<Rightarrow>
          (case NewForConfig W config of
             Inl err \<Rightarrow> Panicked (err_string err)
           | Inr client \<Rightarrow>
               Returned \<lparr>ke_client = client, ke_namespace = namespace, ke_secret = secret\<rparr>))"

text \<open>\<open>providerCore\<close> as \<open>Kubernetes.New\<close> makes it, where \<open>executor_url\<close> is its \<open>url\<close>.\<close>

record ('kube, 'etcd) provider_core =
  pv_db :: 'etcd
  pv_cfg :: executionSpaceCfg
  pv_url :: string
  pv_executor :: "'kube kubernetes_executor"

definition Kubernetes_New ::
  "('cfg, 'kube, 'etcd) surroundings \<Rightarrow> 'etcd \<Rightarrow> executionSpaceCfg \<Rightarrow> ('kube, 'etcd) provider_core outcome" where
  "Kubernetes_New W db cfg =
     (case Kubernetes W (etosNamespace (es_base cfg)) (encryptionKeySecretName cfg) of
        Panicked p \<Rightarrow> Panicked p
      | Returned executor \<Rightarrow>
          Returned \<lparr>pv_db = db, pv_cfg = cfg, pv_url = executor_url cfg, pv_executor = executor\<rparr>)"

text \<open>
  \<open>initTracer\<close>: whether a tracer is installed, or the message that the process ends with.  The
  variable counts when it is set, even to nothing.
\<close>

definition initTracer :: "process \<Rightarrow> ('cfg, 'kube, 'etcd) surroundings \<Rightarrow> string + bool" where
  "initTracer K W =
     (case pc_env K ''OTEL_EXPORTER_OTLP_TRACES_ENDPOINT'' of
        None \<Rightarrow> Inr False
      | Some collector \<Rightarrow>
          (case trace_exporter W collector of
             Some err \<Rightarrow> Inl (err_string err)
           | None \<Rightarrow> (case trace_resource W of Some err \<Rightarrow> Inl (err_string err) | None \<Rightarrow> Inr True)))"

subsection \<open>The main functions\<close>

definition boot_outcome :: "'b outcome \<Rightarrow> ('b \<Rightarrow> 'a boot) \<Rightarrow> 'a boot" where
  "boot_outcome r f = (case r of Panicked m \<Rightarrow> Panic m | Returned x \<Rightarrow> f x)"

lemma boot_outcome_Serves [simp]: "boot_outcome r f = Serves x \<longleftrightarrow> (\<exists>y. r = Returned y \<and> f y = Serves x)"
  by (cases r) (simp_all add: boot_outcome_def)

definition iut_main ::
  "process \<Rightarrow> ('cfg, 'kube, 'etcd) surroundings \<Rightarrow> (route list \<Rightarrow> web_handler) \<Rightarrow> (web_service \<times> 'etcd) boot" where
  "iut_main K W router =
     boot_config (NewIUTConfig K) (\<lambda>cfg.
       boot_logger (logLevel cfg) (fileLogging cfg) (os_Hostname W) (\<lambda>logger.
         boot_outcome (etcd_client_New W cfg) (\<lambda>db.
           Serves (NewWebService cfg (router (application_New iut_routes [])), db))))"

text \<open>\<open>cmd/executionspace\<close>: the RabbitMQ hook comes before the file hook.\<close>

definition remoteLogging :: "executionSpaceCfg \<Rightarrow> hook list outcome" where
  "remoteLogging cfg =
     (if rabbitmqHookURL cfg \<noteq> [] then
        (if rabbitmqHookExchange cfg = [] then
           Panicked (''-rabbitmq_hook_exchange (env:ETOS_RABBITMQ_EXCHANGE) must be set when using ''
             @ ''-rabbitmq_hook_url (env:ETOS_RABBITMQ_URL)'')
         else Returned [RabbitHook (rabbitmqHookURL cfg) (rabbitmqHookExchange cfg)])
      else Returned [])"

definition executionspace_main ::
  "process \<Rightarrow> ('cfg, 'kube, 'etcd) surroundings \<Rightarrow> (route list \<Rightarrow> web_handler)
   \<Rightarrow> (web_service \<times> ('kube, 'etcd) provider_core \<times> hook logger) boot" where
  "executionspace_main K W router =
     boot_config (NewExecutionSpaceConfig K) (\<lambda>cfg.
       boot_outcome (remoteLogging cfg) (\<lambda>hooks.
         boot_logger (logLevel (es_base cfg)) (hooks @ fileLogging (es_base cfg)) (os_Hostname W) (\<lambda>logger.
           boot_outcome (etcd_client_New W (es_base cfg)) (\<lambda>db.
             boot_outcome (Kubernetes_New W db cfg) (\<lambda>provider.
               case initTracer K W of
                 Inl m \<Rightarrow> Fatal m
               | Inr _ \<Rightarrow>
                   Serves (NewWebService (es_base cfg) (router (application_New (executionspace_routes ''kubernetes'') [])),
                     provider, logger))))))"

subsection \<open>Instruments\<close>

text \<open>An instrument's name, its unit, and whether it only grows; histograms have their buckets in milliseconds here.\<close>

datatype instrument = Counter string string | UpDownCounter string string | Histogram string string "int list"

fun instrument_name :: "instrument \<Rightarrow> string" where
  "instrument_name (Counter n u) = n"
| "instrument_name (UpDownCounter n u) = n"
| "instrument_name (Histogram n u b) = n"

definition durationBuckets :: "int list" where
  "durationBuckets = [5, 10, 25, 50, 100, 250, 500, 1000, 2500, 5000, 10000]"

definition NewHTTPMetricsWithMeter :: "string \<Rightarrow> instrument list" where
  "NewHTTPMetricsWithMeter namespace =
     [Counter (namespace @ ''.service.requests'') ''{request}'',
      Histogram (namespace @ ''.service.request.duration'') ''s'' durationBuckets]"

definition NewSSEMetricsWithMeter :: "instrument list" where
  "NewSSEMetricsWithMeter =
     [UpDownCounter ''etos_sse.connections.active'' ''{connection}'', Counter ''etos_sse.connections'' ''{connection}'',
      Counter ''etos_sse.events.delivered'' ''{event}'', Counter ''etos_sse.disconnects'' ''{connection}'',
      Counter ''etos_sse.errors'' ''{error}'', Counter ''etos_sse.reconnects'' ''{request}'']
     @ NewHTTPMetricsWithMeter ''etos_sse''"

text \<open>No instrument is registered twice, so none replaces another; the buckets grow.\<close>

lemma instruments_distinct:
  "distinct (map instrument_name NewSSEMetricsWithMeter) \<and> sorted_wrt (<) durationBuckets"
  by code_simp

subsection \<open>Properties\<close>

lemma Kubernetes_Returned:
  "Kubernetes W ns secret = Returned ke \<longleftrightarrow>
   (\<exists>config client. (InClusterConfig W = Inr config
        \<or> \<not> is_ok (InClusterConfig W) \<and> HomeDir W \<noteq> []
          \<and> BuildConfigFromFlags W (path_Join [HomeDir W, ''.kube'', ''config'']) = Inr config)
      \<and> NewForConfig W config = Inr client \<and> ke = \<lparr>ke_client = client, ke_namespace = ns, ke_secret = secret\<rparr>)"
  by (auto simp: Kubernetes_def inCluster_def outOfCluster_def split: sum.splits if_splits)

lemma remoteLogging_Returned:
  "remoteLogging cfg = Returned hooks \<longleftrightarrow>
   (if rabbitmqHookURL cfg = [] then hooks = []
    else rabbitmqHookExchange cfg \<noteq> [] \<and> hooks = [RabbitHook (rabbitmqHookURL cfg) (rabbitmqHookExchange cfg)])"
  by (auto simp: remoteLogging_def)

lemma initTracer_Inr:
  "(\<exists>b. initTracer K W = Inr b) \<longleftrightarrow>
   (case pc_env K ''OTEL_EXPORTER_OTLP_TRACES_ENDPOINT'' of None \<Rightarrow> True
    | Some c \<Rightarrow> trace_exporter W c = None \<and> trace_resource W = None)"
  by (auto simp: initTracer_def split: option.splits)

lemma etcd_client_New_Returned: "etcd_client_New W cfg = Returned db \<longleftrightarrow> new_etcd W (DatabaseURI cfg) = Inr db"
  by (simp add: etcd_client_New_def split: sum.split)

lemma Kubernetes_New_Returned:
  "Kubernetes_New W db cfg = Returned pv \<longleftrightarrow>
   (\<exists>ke. Kubernetes W (etosNamespace (es_base cfg)) (encryptionKeySecretName cfg) = Returned ke
      \<and> pv = \<lparr>pv_db = db, pv_cfg = cfg, pv_url = executor_url cfg, pv_executor = ke\<rparr>)"
  by (auto simp: Kubernetes_New_def split: outcome.splits)

lemma traced_Serves:
  "(case r of Inl m \<Rightarrow> Fatal m | Inr _ \<Rightarrow> Serves x) = Serves y \<longleftrightarrow> (\<exists>b. r = Inr b) \<and> x = y"
  by (cases r) auto

lemma executionspace_main_Serves:
  "executionspace_main K W router = Serves (srv, provider, logger) \<longleftrightarrow>
   (\<exists>cfg hooks lv db tracing. NewExecutionSpaceConfig K = Configured cfg \<and> remoteLogging cfg = Returned hooks
      \<and> ParseLevel (logLevel (es_base cfg)) = Inr lv \<and> is_ok (os_Hostname W)
      \<and> logger = \<lparr>lg_level = lv, lg_hooks = hooks @ fileLogging (es_base cfg), lg_caller = True\<rparr>
      \<and> etcd_client_New W (es_base cfg) = Returned db \<and> Kubernetes_New W db cfg = Returned provider
      \<and> initTracer K W = Inr tracing
      \<and> srv = NewWebService (es_base cfg) (router (application_New (executionspace_routes ''kubernetes'') [])))"
  unfolding executionspace_main_def boot_config_Serves boot_outcome_Serves boot_logger_Serves traced_Serves by blast

text \<open>
  What it takes for the execution space provider to serve, and what then serves: flags that parse, an exchange
  when there is a URL for remote logging, a log level, a host name, an etcd client, a configuration for
  Kubernetes from the cluster or else from the home directory, and a trace exporter when one is asked for.
  It logs to exactly the configured places, its executors run in the configured namespace, and it hands
  out an address that its own routes start executors at.
\<close>

theorem executionspace_serves:
  "executionspace_main K W router = Serves (srv, provider, logger) \<longleftrightarrow>
   (\<exists>cfg lv db config client.
      NewExecutionSpaceConfig K = Configured cfg
    \<and> (if rabbitmqHookURL cfg = [] then lg_hooks logger = fileLogging (es_base cfg)
       else rabbitmqHookExchange cfg \<noteq> []
         \<and> lg_hooks logger = RabbitHook (rabbitmqHookURL cfg) (rabbitmqHookExchange cfg) # fileLogging (es_base cfg))
    \<and> ParseLevel (logLevel (es_base cfg)) = Inr lv \<and> is_ok (os_Hostname W)
    \<and> logger = \<lparr>lg_level = lv, lg_hooks = lg_hooks logger, lg_caller = True\<rparr>
    \<and> new_etcd W (DatabaseURI (es_base cfg)) = Inr db
    \<and> (InClusterConfig W = Inr config
       \<or> \<not> is_ok (InClusterConfig W) \<and> HomeDir W \<noteq> []
         \<and> BuildConfigFromFlags W (path_Join [HomeDir W, ''.kube'', ''config'']) = Inr config)
    \<and> NewForConfig W config = Inr client
    \<and> (case pc_env K ''OTEL_EXPORTER_OTLP_TRACES_ENDPOINT'' of None \<Rightarrow> True
       | Some c \<Rightarrow> trace_exporter W c = None \<and> trace_resource W = None)
    \<and> srv = NewWebService (es_base cfg) (router (executionspace_routes ''kubernetes''))
    \<and> provider = \<lparr>pv_db = db, pv_cfg = cfg, pv_url = hostname cfg @ ''/executionspace/v1alpha/executor/kubernetes'',
        pv_executor = \<lparr>ke_client = client, ke_namespace = etosNamespace (es_base cfg), ke_secret = encryptionKeySecretName cfg\<rparr>\<rparr>
    \<and> (''POST'', ''/executionspace/v1alpha/executor/kubernetes'', ''ExecutorStart'') \<in> set (executionspace_routes ''kubernetes''))"
  (is "?serves \<longleftrightarrow> ?needs")
proof -
  have routed: "(''POST'', ''/executionspace/v1alpha/executor/kubernetes'', ''ExecutorStart'') \<in> set (executionspace_routes ''kubernetes'')"
    by (simp add: executionspace_routes_def)
  note eqs = etcd_client_New_Returned Kubernetes_New_Returned Kubernetes_Returned application_New_def executor_url_def
  show ?thesis
  proof
    assume ?serves
    then obtain cfg hooks lv db where c: "NewExecutionSpaceConfig K = Configured cfg" "remoteLogging cfg = Returned hooks"
      "ParseLevel (logLevel (es_base cfg)) = Inr lv" "is_ok (os_Hostname W)"
      "logger = \<lparr>lg_level = lv, lg_hooks = hooks @ fileLogging (es_base cfg), lg_caller = True\<rparr>"
      "etcd_client_New W (es_base cfg) = Returned db" "Kubernetes_New W db cfg = Returned provider"
      "\<exists>b. initTracer K W = Inr b"
      "srv = NewWebService (es_base cfg) (router (application_New (executionspace_routes ''kubernetes'') []))"
      unfolding executionspace_main_Serves by blast
    have h: "if rabbitmqHookURL cfg = [] then lg_hooks logger = fileLogging (es_base cfg)
       else rabbitmqHookExchange cfg \<noteq> []
         \<and> lg_hooks logger = RabbitHook (rabbitmqHookURL cfg) (rabbitmqHookExchange cfg) # fileLogging (es_base cfg)"
      using c(2,5) by (auto simp: remoteLogging_Returned split: if_splits)
    show ?needs
      using c(7) unfolding Kubernetes_New_Returned Kubernetes_Returned
      by (elim exE conjE)
        (intro exI conjI, (rule c(1) h c(3,4) c(6) [unfolded eqs] c(8) [unfolded initTracer_Inr] routed | assumption
          | simp add: c(5,9) application_New_def executor_url_def)+)
  next
    assume ?needs
    then obtain cfg lv db config client where c: "NewExecutionSpaceConfig K = Configured cfg"
      "if rabbitmqHookURL cfg = [] then lg_hooks logger = fileLogging (es_base cfg)
       else rabbitmqHookExchange cfg \<noteq> []
         \<and> lg_hooks logger = RabbitHook (rabbitmqHookURL cfg) (rabbitmqHookExchange cfg) # fileLogging (es_base cfg)"
      "ParseLevel (logLevel (es_base cfg)) = Inr lv" "is_ok (os_Hostname W)"
      "logger = \<lparr>lg_level = lv, lg_hooks = lg_hooks logger, lg_caller = True\<rparr>"
      "new_etcd W (DatabaseURI (es_base cfg)) = Inr db"
      "InClusterConfig W = Inr config \<or> \<not> is_ok (InClusterConfig W) \<and> HomeDir W \<noteq> []
         \<and> BuildConfigFromFlags W (path_Join [HomeDir W, ''.kube'', ''config'']) = Inr config"
      "NewForConfig W config = Inr client"
      "case pc_env K ''OTEL_EXPORTER_OTLP_TRACES_ENDPOINT'' of None \<Rightarrow> True
       | Some c \<Rightarrow> trace_exporter W c = None \<and> trace_resource W = None"
      "srv = NewWebService (es_base cfg) (router (executionspace_routes ''kubernetes''))"
      "provider = \<lparr>pv_db = db, pv_cfg = cfg, pv_url = hostname cfg @ ''/executionspace/v1alpha/executor/kubernetes'',
        pv_executor = \<lparr>ke_client = client, ke_namespace = etosNamespace (es_base cfg), ke_secret = encryptionKeySecretName cfg\<rparr>\<rparr>"
      by blast
    obtain hooks where h: "remoteLogging cfg = Returned hooks" "lg_hooks logger = hooks @ fileLogging (es_base cfg)"
      using c(2) by (auto simp: remoteLogging_Returned split: if_splits)
    have "Kubernetes W (etosNamespace (es_base cfg)) (encryptionKeySecretName cfg)
        = Returned \<lparr>ke_client = client, ke_namespace = etosNamespace (es_base cfg), ke_secret = encryptionKeySecretName cfg\<rparr>"
      unfolding Kubernetes_Returned using c(7,8) by blast
    then have k: "Kubernetes_New W db cfg = Returned provider" by (simp add: Kubernetes_New_def c(11) executor_url_def)
    obtain b where b: "initTracer K W = Inr b" using c(9) initTracer_Inr by blast
    have l: "logger = \<lparr>lg_level = lv, lg_hooks = hooks @ fileLogging (es_base cfg), lg_caller = True\<rparr>" using c(5) h(2) by simp
    have e: "etcd_client_New W (es_base cfg) = Returned db" using c(6) by (simp add: etcd_client_New_Returned)
    have r: "srv = NewWebService (es_base cfg) (router (application_New (executionspace_routes ''kubernetes'') []))"
      using c(10) by (simp add: application_New_def)
    show ?serves unfolding executionspace_main_Serves using c(1) h(1) c(3,4) l e k b r by blast
  qed
qed

definition ex_provider_process :: process where
  "ex_provider_process =
     \<lparr>pc_env = [''ETOS_NAMESPACE'' \<mapsto> ''etos'', ''OTEL_EXPORTER_OTLP_TRACES_ENDPOINT'' \<mapsto> ''collector:4317''],
      pc_read = (\<lambda>_. Inl (Text ''no such file'')), pc_duration = (\<lambda>_. Inr 0), pc_args = [''-hostname=http://provider'']\<rparr>"

definition ex_surroundings :: "(string, string, string) surroundings" where
  "ex_surroundings =
     \<lparr>os_Hostname = Inr ''host'', new_etcd = Inr, InClusterConfig = Inl (Text ''not in a cluster''), HomeDir = ''/home/etos/'',
      BuildConfigFromFlags = Inr, NewForConfig = Inr, trace_exporter = (\<lambda>_. None), trace_resource = None\<rparr>"

theorem executionspace_serves_witness:
  "\<exists>srv provider logger.
     executionspace_main ex_provider_process ex_surroundings (\<lambda>rs r w. w) = Serves (srv, provider, logger)
     \<and> pv_url provider = ''http://provider/executionspace/v1alpha/executor/kubernetes''
     \<and> ke_client (pv_executor provider) = ''/home/etos/.kube/config'' \<and> ke_namespace (pv_executor provider) = ''etos''
     \<and> lg_hooks logger = []"
proof -
  let ?m = "executionspace_main ex_provider_process ex_surroundings (\<lambda>rs r w. w)"
  have "is_serving ?m" by code_simp
  then obtain srv pv lg where m: "?m = Serves (srv, pv, lg)" by (auto simp: is_serving_def split: boot.splits)
  obtain cfg where c: "NewExecutionSpaceConfig ex_provider_process = Configured cfg" "hostname cfg = ''http://provider''"
    "etosNamespace (es_base cfg) = ''etos''" "rabbitmqHookURL cfg = []" "fileLogging (es_base cfg) = []"
  proof -
    have "(case NewExecutionSpaceConfig ex_provider_process of Configured cfg \<Rightarrow> hostname cfg = ''http://provider''
        \<and> etosNamespace (es_base cfg) = ''etos'' \<and> rabbitmqHookURL cfg = [] \<and> fileLogging (es_base cfg) = [] | _ \<Rightarrow> False)"
      by code_simp
    then show thesis using that by (cases "NewExecutionSpaceConfig ex_provider_process") auto
  qed
  have home: "path_Join [''/home/etos/'', ''.kube'', ''config''] = ''/home/etos/.kube/config''" by code_simp
  from m [unfolded executionspace_serves] obtain client where
    "lg_hooks lg = []" "pv_url pv = ''http://provider/executionspace/v1alpha/executor/kubernetes''"
    "pv_executor pv = \<lparr>ke_client = client, ke_namespace = ''etos'', ke_secret = encryptionKeySecretName cfg\<rparr>"
    "client = ''/home/etos/.kube/config''"
    using c home by (auto simp: ex_surroundings_def)
  then show ?thesis using m by (intro exI [of _ srv] exI [of _ pv] exI [of _ lg]) simp
qed

end
