(* ===== verification/File_Lines.thy ===== *)
theory File_Lines
  imports Stream_File
begin

text \<open>
  The goroutine of \<open>FileStream.Consume\<close> (\<open>internal/stream/file.go\<close>) on the bytes of a file that
  grows: \<open>bufio.Reader.ReadLine\<close> with its buffer of 4096 bytes, the loop that joins the pieces of a
  long line, and the channel of the closing error.  \<open>Stream_File\<close> takes the lines of a file as units;
  this is what entitles it to, as long as lines are appended whole, and what happens when they are not.
\<close>

subsection \<open>Reading lines\<close>

abbreviation LF :: char where "LF \<equiv> CHR 0x0A"
abbreviation CR :: char where "CR \<equiv> CHR 0x0D"

definition strip_cr :: "bytes \<Rightarrow> bytes" where
  "strip_cr l = (if l \<noteq> [] \<and> last l = CR then butlast l else l)"

text \<open>
  \<open>ReadLine\<close> on the bytes that are there: the line, whether it is a prefix of a longer one, whether
  this is the end of the file, and the bytes that are left.  A carriage return at the end of a full
  buffer is put back; what is left at the end of the file counts as a line.
\<close>

definition ReadLine :: "bytes \<Rightarrow> (bytes \<times> bool \<times> bool) \<times> bytes" where
  "ReadLine rest =
     (let b = take 4096 rest
      in if LF \<in> set b then
           (let l = takeWhile (\<lambda>c. c \<noteq> LF) b in ((strip_cr l, False, False), drop (length l + 1) rest))
         else if 4096 \<le> length rest then
           (if last b = CR then ((butlast b, True, False), drop 4095 rest) else ((b, True, False), drop 4096 rest))
         else if rest = [] then (([], False, True), [])
         else ((rest, False, False), []))"

text \<open>The inner loop: the pieces of a line are joined; at the end of the file they are dropped.\<close>

function read_event :: "bytes \<Rightarrow> bytes \<Rightarrow> bytes option \<times> bytes" where
  "read_event event rest =
     (case ReadLine rest of
        ((line, isPrefix, eof), rest') \<Rightarrow>
          if eof then (None, rest')
          else if isPrefix then read_event (event @ line) rest'
          else (Some (event @ line), rest'))"
  by auto
termination
  by (relation "measure (length \<circ> snd)") (auto simp: ReadLine_def Let_def split: if_splits)

declare read_event.simps [simp del]

lemma strip_cr_append: "l \<noteq> [] \<Longrightarrow> strip_cr (p @ l) = p @ strip_cr l"
  by (auto simp: strip_cr_def butlast_append)

lemma takeWhile_line: "LF \<notin> set l \<Longrightarrow> takeWhile (\<lambda>c. c \<noteq> LF) (l @ LF # r) = l"
  by (induction l) auto

text \<open>A whole line is read as it is, however long it is and wherever the buffer ends in it.\<close>

lemma read_whole_line:
  "LF \<notin> set l \<Longrightarrow> read_event event (l @ LF # rest) = (Some (event @ strip_cr l), rest)"
proof (induction "length l" arbitrary: l event rule: less_induct)
  case less
  let ?b = "take 4096 (l @ LF # rest)"
  show ?case
  proof (cases "length l < 4096")
    case True
    then have b: "?b = l @ LF # take (4095 - length l) rest" by (simp add: take_Cons' Suc_diff_le split: nat.split)
    have "takeWhile (\<lambda>c. c \<noteq> LF) ?b = l" unfolding b by (rule takeWhile_line [OF less.prems])
    moreover have "LF \<in> set ?b" unfolding b by simp
    ultimately have "ReadLine (l @ LF # rest) = ((strip_cr l, False, False), rest)"
      by (simp add: ReadLine_def Let_def)
    then show ?thesis by (simp add: read_event.simps)
  next
    case False
    then have b: "?b = take 4096 l" by simp
    have n: "LF \<notin> set (take 4096 l)" using less.prems by (meson in_set_takeD)
    show ?thesis
    proof (cases "last (take 4096 l) = CR")
      case True
      have a: "read_event event (l @ LF # rest) = read_event (event @ butlast (take 4096 l)) (drop 4095 l @ LF # rest)"
        using n True False by (subst read_event.simps) (simp add: ReadLine_def Let_def b)
      have h: "read_event (event @ butlast (take 4096 l)) (drop 4095 l @ LF # rest) = (Some ((event @ butlast (take 4096 l)) @ strip_cr (drop 4095 l)), rest)"
        by (rule less.hyps) (use less.prems False in \<open>auto dest: in_set_dropD\<close>)
      have e: "butlast (take 4096 l) @ strip_cr (drop 4095 l) = strip_cr l"
        using False strip_cr_append [of "drop 4095 l" "take 4095 l"] by (simp add: butlast_take)
      show ?thesis using a h e by simp
    next
      case no_cr: False
      have a: "read_event event (l @ LF # rest) = read_event (event @ take 4096 l) (drop 4096 l @ LF # rest)"
        using n no_cr False by (subst read_event.simps) (simp add: ReadLine_def Let_def b)
      have h: "read_event (event @ take 4096 l) (drop 4096 l @ LF # rest) = (Some ((event @ take 4096 l) @ strip_cr (drop 4096 l)), rest)"
        by (rule less.hyps) (use less.prems False in \<open>auto dest: in_set_dropD\<close>)
      have e: "take 4096 l @ strip_cr (drop 4096 l) = strip_cr l"
      proof (cases "drop 4096 l = []")
        case True
        then have "take 4096 l = l" by simp
        then show ?thesis using no_cr True by (simp add: strip_cr_def)
      next
        case False
        then show ?thesis using strip_cr_append [of "drop 4096 l" "take 4096 l"] by simp
      qed
      show ?thesis using a h e by simp
    qed
  qed
qed

lemma read_nothing: "read_event [] [] = (None, [])"
  by (simp add: read_event.simps ReadLine_def)

subsection \<open>The goroutine\<close>

text \<open>
  \<open>fl_rest\<close>: the bytes of the file that have not been read.  \<open>fl_sending\<close>: the message the goroutine
  is blocked on, \<open>fl_storing\<close>: it was taken and the position is stored next.  \<open>fl_closed\<close>: the errors
  put into the channel \<open>closed\<close>; \<open>fl_ended\<close>: the goroutine has returned and closed that channel.
  \<open>fl_channel\<close>: \<open>WithChannel\<close> was called; without it the events are logged, \<open>fl_logged\<close>.
\<close>

record file_loop =
  fl_rest :: bytes
  fl_channel :: bool
  fl_start :: int
  fl_offset :: int
  fl_position :: int
  fl_sending :: "message option"
  fl_storing :: bool
  fl_sent :: "message list"
  fl_logged :: "bytes list"
  fl_closed :: "gerror list"
  fl_ended :: bool

definition fl_init :: "bool \<Rightarrow> int \<Rightarrow> file_loop" where
  "fl_init channel offset = \<lparr>fl_rest = [], fl_channel = channel, fl_start = max offset 0, fl_offset = 0, fl_position = max offset 0, fl_sending = None,
     fl_storing = False, fl_sent = [], fl_logged = [], fl_closed = [], fl_ended = False\<rparr>"

text \<open>
  Somebody writes to the file; the timer fires and a line is read, or the file is at its end, or
  reading fails (and the error is put into \<open>closed\<close>, or the context has ended and the other branch of
  that \<open>select\<close> is taken); the subscriber takes the message; the position is stored; the context ends.
\<close>

datatype fl_act = FAppend bytes | FTick | FReadFails gerror | FReadFailsDone | FTaken | FStore | FDone gerror

definition fl_selecting :: "file_loop \<Rightarrow> bool" where
  "fl_selecting s = (\<not> fl_ended s \<and> fl_sending s = None \<and> \<not> fl_storing s)"

fun Consume_file :: "fl_act \<Rightarrow> file_loop \<Rightarrow> file_loop option" where
  "Consume_file (FAppend bs) s = Some (s\<lparr>fl_rest := fl_rest s @ bs\<rparr>)"
| "Consume_file FTick s =
     (if fl_selecting s then
        (case read_event [] (fl_rest s) of
           (None, rest) \<Rightarrow> Some (s\<lparr>fl_rest := rest\<rparr>)
         | (Some event, rest) \<Rightarrow>
             (let offset = fl_offset s + 1; s' = s\<lparr>fl_rest := rest, fl_offset := offset\<rparr>
              in if offset - 1 < fl_start s then Some s'
                 else if \<not> fl_channel s then Some (s'\<lparr>fl_logged := fl_logged s @ [event], fl_storing := True\<rparr>)
                 else Some (s'\<lparr>fl_sending := Some \<lparr>m_offset = offset - 1, m_data = event\<rparr>\<rparr>)))
      else None)"
| "Consume_file (FReadFails err) s =
     (if fl_selecting s then Some (s\<lparr>fl_closed := fl_closed s @ [err], fl_ended := True\<rparr>) else None)"
| "Consume_file FReadFailsDone s = (if fl_selecting s then Some (s\<lparr>fl_ended := True\<rparr>) else None)"
| "Consume_file FTaken s =
     (case fl_sending s of
        Some m \<Rightarrow>
          if fl_ended s then None else Some (s\<lparr>fl_sending := None, fl_sent := fl_sent s @ [m], fl_storing := True\<rparr>)
      | None \<Rightarrow> None)"
| "Consume_file FStore s =
     (if fl_storing s then Some (s\<lparr>fl_position := fl_offset s, fl_storing := False\<rparr>) else None)"
| "Consume_file (FDone err) s =
     (if fl_selecting s then Some (s\<lparr>fl_closed := fl_closed s @ [err], fl_ended := True\<rparr>)
      else if \<not> fl_ended s \<and> fl_sending s \<noteq> None then Some (s\<lparr>fl_ended := True\<rparr>)
      else None)"

fun fl_run :: "fl_act list \<Rightarrow> file_loop \<Rightarrow> file_loop option" where
  "fl_run [] s = Some s"
| "fl_run (a # as) s = (case Consume_file a s of None \<Rightarrow> None | Some s' \<Rightarrow> fl_run as s')"

subsection \<open>Lines written whole\<close>

definition joined :: "bytes list \<Rightarrow> bytes" where
  "joined ls = concat (map (\<lambda>l. l @ [LF]) ls)"

definition lines_ok :: "bytes list \<Rightarrow> bool" where
  "lines_ok ls = (\<forall>l \<in> set ls. LF \<notin> set l)"

lemma joined_simps [simp]: "joined [] = []" "joined (l # ls) = l @ LF # joined ls" "joined (xs @ ys) = joined xs @ joined ys"
  by (simp_all add: joined_def)

text \<open>What the runs below write: \<open>lines\<close> is what has been written so far.\<close>

fun writes_lines :: "fl_act list \<Rightarrow> bytes list \<Rightarrow> bool" where
  "writes_lines [] lines = (lines = [])"
| "writes_lines (FAppend bs # as) lines =
     (\<exists>n \<le> length lines. bs = joined (take n lines) \<and> writes_lines as (drop n lines))"
| "writes_lines (_ # as) lines = writes_lines as lines"

definition fl_pending :: "file_loop \<Rightarrow> message list" where
  "fl_pending s = (case fl_sending s of None \<Rightarrow> [] | Some m \<Rightarrow> [m])"

text \<open>\<open>ls\<close> is what is in the file, of which \<open>k\<close> lines have been read.\<close>

definition fl_inv :: "bytes list \<Rightarrow> nat \<Rightarrow> file_loop \<Rightarrow> bool" where
  "fl_inv ls k s =
     (k \<le> length ls \<and> fl_offset s = int k \<and> fl_rest s = joined (drop k ls) \<and> 0 \<le> fl_start s
      \<and> (fl_channel s \<longrightarrow> fl_sent s @ fl_pending s = from_offset (fl_start s) (line_messages 0 (map strip_cr (take k ls))))
      \<and> (\<not> fl_channel s \<longrightarrow> fl_sent s = [] \<and> fl_sending s = None
           \<and> fl_logged s = map m_data (from_offset (fl_start s) (line_messages 0 (map strip_cr (take k ls)))))
      \<and> (\<forall>m. fl_sending s = Some m \<longrightarrow> \<not> fl_storing s \<and> m_offset m = fl_offset s - 1)
      \<and> fl_position s \<le> max (fl_start s) (fl_offset s - (if fl_sending s \<noteq> None then 1 else 0))
      \<and> length (fl_closed s) \<le> (if fl_ended s then 1 else 0))"

lemma fl_inv_init: "fl_inv [] 0 (fl_init channel offset)"
  by (simp add: fl_inv_def fl_init_def fl_pending_def from_offset_def)

lemma fl_inv_append: "fl_inv ls k s \<Longrightarrow> fl_inv (ls @ new) k (s\<lparr>fl_rest := fl_rest s @ joined new\<rparr>)"
  by (auto simp: fl_inv_def fl_pending_def)

lemma fl_inv_tick:
  assumes "fl_inv ls k s" "lines_ok ls" "Consume_file FTick s = Some s'"
  shows "\<exists>k'. fl_inv ls k' s'"
proof (cases "k < length ls")
  case False
  then have "fl_rest s = []" using assms(1) by (simp add: fl_inv_def)
  then have "s' = s\<lparr>fl_rest := []\<rparr>" "fl_rest s = []" using assms(3) by (auto simp: read_nothing split: if_splits)
  then have "s' = s" by simp
  then show ?thesis using assms(1) by blast
next
  case True
  have d: "drop k ls = ls ! k # drop (Suc k) ls" using True by (simp add: Cons_nth_drop_Suc)
  have "LF \<notin> set (ls ! k)" using assms(2) True by (simp add: lines_ok_def)
  then have r: "read_event [] (fl_rest s) = (Some (strip_cr (ls ! k)), joined (drop (Suc k) ls))"
    using assms(1) d by (simp add: fl_inv_def read_whole_line)
  have m: "line_messages 0 (map strip_cr (take (Suc k) ls))
      = line_messages 0 (map strip_cr (take k ls)) @ [\<lparr>m_offset = int k, m_data = strip_cr (ls ! k)\<rparr>]"
    using True by (simp add: take_Suc_conv_app_nth)
  have sel: "fl_sending s = None" "\<not> fl_storing s" "\<not> fl_ended s" "fl_selecting s"
    using assms(3) by (auto simp: fl_selecting_def split: if_splits)
  let ?t = "s\<lparr>fl_rest := joined (drop (Suc k) ls), fl_offset := fl_offset s + 1\<rparr>"
  consider (skip) "int k < fl_start s" "s' = ?t"
    | (logged) "fl_start s \<le> int k" "\<not> fl_channel s" "s' = ?t\<lparr>fl_logged := fl_logged s @ [strip_cr (ls ! k)], fl_storing := True\<rparr>"
    | (sending) "fl_start s \<le> int k" "fl_channel s" "s' = ?t\<lparr>fl_sending := Some \<lparr>m_offset = int k, m_data = strip_cr (ls ! k)\<rparr>\<rparr>"
    using assms(1,3) r sel(4) by (auto simp: fl_inv_def Let_def split: if_splits)
  then have "fl_inv ls (Suc k) s'"
    by cases (use assms(1) m True sel in \<open>simp_all add: fl_inv_def fl_pending_def from_offset_def max_def split: if_splits\<close>)
  then show ?thesis by blast
qed

lemma fl_inv_ended:
  assumes "fl_inv ls k s"
  shows "\<exists>k. fl_inv ls k (s\<lparr>fl_ended := True\<rparr>)"
    and "fl_selecting s \<Longrightarrow> \<exists>k. fl_inv ls k (s\<lparr>fl_closed := fl_closed s @ [e], fl_ended := True\<rparr>)"
  using assms by (force simp: fl_inv_def fl_pending_def fl_selecting_def split: if_splits)+

lemma fl_inv_step:
  assumes "fl_inv ls k s" "lines_ok ls" "\<And>bs. a \<noteq> FAppend bs" "Consume_file a s = Some s'"
  shows "\<exists>k'. fl_inv ls k' s'"
proof (cases a)
  case FTick
  then show ?thesis using fl_inv_tick assms by blast
next
  case FTaken
  then obtain m where m: "fl_sending s = Some m" "s' = s\<lparr>fl_sending := None, fl_sent := fl_sent s @ [m], fl_storing := True\<rparr>"
    using assms(4) by (auto split: option.splits if_splits)
  then have "fl_inv ls k s'" using assms(1) by (simp add: fl_inv_def fl_pending_def max_def split: if_splits)
  then show ?thesis by blast
next
  case FStore
  then have "s' = s\<lparr>fl_position := fl_offset s, fl_storing := False\<rparr>" "fl_storing s"
    using assms(4) by (auto split: if_splits)
  then have "fl_inv ls k s'" using assms(1) by (auto simp: fl_inv_def fl_pending_def)
  then show ?thesis by blast
next
  case (FReadFails e)
  then show ?thesis using fl_inv_ended [OF assms(1)] assms(4) by (auto split: if_splits)
next
  case FReadFailsDone
  then show ?thesis using fl_inv_ended [OF assms(1)] assms(4) by (auto split: if_splits)
next
  case (FDone e)
  then show ?thesis using fl_inv_ended [OF assms(1)] assms(4) by (auto split: if_splits)
qed (use assms(3) in blast)

lemma fl_inv_run:
  assumes "fl_inv ls k s" "lines_ok (ls @ new)" "writes_lines as new" "fl_run as s = Some s'"
  shows "\<exists>k. fl_inv (ls @ new) k s'"
  using assms
proof (induction as arbitrary: ls new k s)
  case Nil
  then show ?case by auto
next
  case (Cons a as)
  obtain t where t: "Consume_file a s = Some t" "fl_run as t = Some s'" using Cons.prems(4) by (auto split: option.splits)
  show ?case
  proof (cases "\<exists>bs. a = FAppend bs")
    case True
    then obtain bs n where n: "a = FAppend bs" "bs = joined (take n new)" "writes_lines as (drop n new)"
      using Cons.prems(3) by auto
    then have "fl_inv (ls @ take n new) k t" using fl_inv_append [OF Cons.prems(1)] t(1) by auto
    from Cons.IH [OF this _ n(3) t(2)] Cons.prems(2) show ?thesis by simp
  next
    case False
    have "lines_ok ls" using Cons.prems(2) by (simp add: lines_ok_def)
    then obtain k' where "fl_inv ls k' t" using fl_inv_step [OF Cons.prems(1) _ _ t(1)] False by blast
    moreover have "writes_lines as new" using Cons.prems(3) False by (cases a) auto
    ultimately show ?thesis using Cons.IH Cons.prems(2) t(2) by blast
  qed
qed

lemma fl_config_step: "Consume_file a s = Some s' \<Longrightarrow> fl_start s' = fl_start s \<and> fl_channel s' = fl_channel s"
  by (cases a) (auto simp: Let_def split: if_splits prod.splits option.splits)

lemma fl_config_run: "fl_run as s = Some s' \<Longrightarrow> fl_start s' = fl_start s \<and> fl_channel s' = fl_channel s"
  by (induction as arbitrary: s) (auto split: option.splits dest!: fl_config_step)

lemma line_messages_iff: "m \<in> set (line_messages n ls) \<longleftrightarrow> (\<exists>i < length ls. m = \<lparr>m_offset = int (n + i), m_data = ls ! i\<rparr>)"
proof (induction ls arbitrary: n)
  case (Cons l ls)
  show ?case
    using Cons.IH [of "Suc n"] by (auto simp: less_Suc_eq_0_disj)
qed simp

lemma fl_inv_position:
  assumes "fl_inv ls k s" "fl_channel s" "m \<in> set (from_offset (fl_start s) (line_messages 0 (map strip_cr ls)))" "m_offset m < fl_position s"
  shows "m \<in> set (fl_sent s)"
proof -
  obtain i where i: "i < length ls" "m = \<lparr>m_offset = int i, m_data = strip_cr (ls ! i)\<rparr>" "fl_start s \<le> int i"
    using assms(3) by (auto simp: from_offset_def line_messages_iff)
  have p: "int i < fl_offset s - (if fl_sending s \<noteq> None then 1 else 0)" "fl_offset s = int k" "k \<le> length ls"
    using assms(1,4) i by (auto simp: fl_inv_def)
  have "m \<in> set (from_offset (fl_start s) (line_messages 0 (map strip_cr (take k ls))))"
    using i p by (auto simp: from_offset_def line_messages_iff split: if_splits)
  then have "m \<in> set (fl_sent s @ fl_pending s)" using assms(1,2) by (simp add: fl_inv_def)
  moreover have "m \<notin> set (fl_pending s)" using assms(1) p i(2) by (auto simp: fl_inv_def fl_pending_def split: option.splits)
  ultimately show ?thesis by simp
qed

text \<open>
  C32: A file stream whose file is written a line at a time delivers the lines: with any lengths of the
  lines, any interleaving of writes, ticks and receptions and any buffer boundaries, the messages sent,
  with the one that is being sent, are exactly the lines that have been read from the start
  offset on, each once and with its number; every line below the position has been sent; and at
  most one error is put into the closing channel.
\<close>

theorem file_lines_delivered:
  assumes "writes_lines as ls" "lines_ok ls" "fl_run as (fl_init True offset) = Some s"
  shows "\<exists>k \<le> length ls. fl_offset s = int k \<and> fl_rest s = joined (drop k ls)
    \<and> fl_sent s @ fl_pending s = from_offset (max offset 0) (line_messages 0 (map strip_cr (take k ls)))
    \<and> (\<forall>m \<in> set (from_offset (max offset 0) (line_messages 0 (map strip_cr ls))).
         m_offset m < fl_position s \<longrightarrow> m \<in> set (fl_sent s))
    \<and> length (fl_closed s) \<le> 1"
proof -
  obtain k where k: "fl_inv ls k s" using fl_inv_run [OF fl_inv_init _ assms(1,3)] assms(2) by auto
  have st: "fl_start s = max offset 0" "fl_channel s" using fl_config_run [OF assms(3)] by (simp_all add: fl_init_def)
  have "\<forall>m \<in> set (from_offset (max offset 0) (line_messages 0 (map strip_cr ls))).
      m_offset m < fl_position s \<longrightarrow> m \<in> set (fl_sent s)"
    using fl_inv_position [OF k st(2)] st(1) by simp
  then show ?thesis using k st by (intro exI [of _ k]) (auto simp: fl_inv_def split: if_splits)
qed

text \<open>Two writes, of which the first has two lines; a start offset of one; a carriage return.\<close>

definition ex_file_run :: "fl_act list" where
  "ex_file_run = [FAppend (joined [''skipped'', ''a'' @ [CR]]), FTick, FTick, FTaken, FAppend (joined [''b'']), FStore, FTick]"

theorem file_lines_delivered_witness:
  "\<exists>s. fl_run ex_file_run (fl_init True 1) = Some s
     \<and> fl_sent s @ fl_pending s = [\<lparr>m_offset = 1, m_data = ''a''\<rparr>, \<lparr>m_offset = 2, m_data = ''b''\<rparr>]
     \<and> \<lparr>m_offset = 1, m_data = ''a''\<rparr> \<in> set (fl_sent s)"
proof -
  let ?ls = "[''skipped'', ''a'' @ [CR], ''b'']"
  have "writes_lines [FAppend (joined [''b'']), FStore, FTick] [''b'']"
    by simp (rule exI [of _ 1], simp)
  then have w: "writes_lines ex_file_run ?ls"
    unfolding ex_file_run_def by (simp del: joined_simps) (rule exI [of _ 2], simp)
  have ok: "lines_ok ?ls" by (simp add: lines_ok_def)
  have r: "\<exists>s. fl_run ex_file_run (fl_init True 1) = Some s \<and> fl_offset s = 3 \<and> fl_position s = 2"
    by (simp add: ex_file_run_def fl_init_def fl_selecting_def read_event.simps ReadLine_def Let_def)
  then obtain s where s: "fl_run ex_file_run (fl_init True 1) = Some s" "fl_offset s = 3" "fl_position s = 2" by blast
  show ?thesis using file_lines_delivered [OF w ok s(1)] s by (auto simp: from_offset_def strip_cr_def)
qed

text \<open>Without a channel the same lines are logged instead.\<close>

lemma file_lines_logged:
  assumes "writes_lines as ls" "lines_ok ls" "fl_run as (fl_init False offset) = Some s"
  shows "\<exists>k \<le> length ls. fl_offset s = int k \<and> fl_sent s = []
    \<and> fl_logged s = map m_data (from_offset (max offset 0) (line_messages 0 (map strip_cr (take k ls))))"
proof -
  obtain k where k: "fl_inv ls k s" using fl_inv_run [OF fl_inv_init _ assms(1,3)] assms(2) by auto
  have st: "fl_start s = max offset 0" "\<not> fl_channel s" using fl_config_run [OF assms(3)] by (simp_all add: fl_init_def)
  then show ?thesis using k by (intro exI [of _ k]) (simp add: fl_inv_def)
qed

text \<open>
  A line that is not written whole is delivered in pieces, as if each was a message of its own; and
  when it fills the buffer exactly, its beginning is lost.
\<close>

lemma partial_line_split:
  "\<exists>s. fl_run [FAppend ''{\"a\":'', FTick, FTaken, FStore, FAppend (''1}'' @ [LF]), FTick, FTaken] (fl_init True 0) = Some s
     \<and> map m_data (fl_sent s) = [''{\"a\":'', ''1}'']"
  by (simp add: fl_init_def fl_selecting_def read_event.simps ReadLine_def strip_cr_def)

lemma full_buffer_lost:
  "length l = 4096 \<Longrightarrow> LF \<notin> set l \<Longrightarrow> last l \<noteq> CR \<Longrightarrow> read_event [] l = (None, [])"
  by (subst read_event.simps) (simp add: ReadLine_def read_event.simps [of l])

end
