(* ===== verification/Go_Context.thy ===== *)
theory Go_Context
  imports Provider_Service Iut
begin

text \<open>
  What the services use of \<open>context\<close>: a tree of contexts that end by a call of their
  \<open>cancel\<close>, by their deadline, or with their parent, and the handlers and applications that make
  contexts of their own.  Code under \<open>src/\<close> never reads values from a context except the scope, which
  \<open>Scope_Auth\<close> has.
\<close>

subsection \<open>The tree\<close>

text \<open>
  A context is named by the numbers of the children on the way up to the root, so its descendants
  are the names it is a suffix of; the root \<open>[]\<close> is \<open>context.Background()\<close>.
\<close>

type_synonym ctx_id = "nat list"

datatype ctx_error = Canceled | DeadlineExceeded

record ctx =
  cx_deadline :: "int option"
  cx_err :: "ctx_error option"
  cx_children :: nat

type_synonym ctxs = "ctx_id \<Rightarrow> ctx option"

definition Background :: ctxs where
  "Background = [[] \<mapsto> \<lparr>cx_deadline = None, cx_err = None, cx_children = 0\<rparr>]"

definition is_within :: "ctx_id \<Rightarrow> ctx_id \<Rightarrow> bool" where
  "is_within c d = (drop (length d - length c) d = c)"

lemma is_within_refl [simp]: "is_within c c" by (simp add: is_within_def)

lemma is_within_child: "is_within c p \<Longrightarrow> is_within c (i # p)"
proof -
  assume w: "is_within c p"
  then have "length c \<le> length p" unfolding is_within_def by (metis diff_le_self length_drop)
  with w show ?thesis by (simp add: is_within_def Suc_diff_le)
qed

lemma is_within_Cons: "is_within c (i # p) \<longleftrightarrow> c = i # p \<or> is_within c p"
proof
  assume w: "is_within c (i # p)"
  show "c = i # p \<or> is_within c p"
  proof (cases "length (i # p) - length c")
    case 0
    then show ?thesis using w by (simp add: is_within_def)
  next
    case (Suc n)
    then have "n = length p - length c" by simp
    then show ?thesis using w Suc unfolding is_within_def by simp
  qed
qed (auto intro: is_within_child)

definition ctx_Err :: "ctxs \<Rightarrow> ctx_id \<Rightarrow> ctx_error option" where
  "ctx_Err S c = (case S c of None \<Rightarrow> None | Some x \<Rightarrow> cx_err x)"

definition has_ctx :: "ctxs \<Rightarrow> ctx_id \<Rightarrow> bool" where
  "has_ctx S c = (S c \<noteq> None)"

definition ctx_done :: "ctxs \<Rightarrow> ctx_id \<Rightarrow> bool" where
  "ctx_done S c = (ctx_Err S c \<noteq> None)"

text \<open>The first end of a context is the one it reports.\<close>

definition ended :: "ctx \<Rightarrow> bool" where
  "ended x = (cx_err x \<noteq> None)"

definition end_with :: "ctx_error \<Rightarrow> ctx \<Rightarrow> ctx" where
  "end_with e x = (case cx_err x of Some _ \<Rightarrow> x | None \<Rightarrow> x\<lparr>cx_err := Some e\<rparr>)"

definition cancel :: "ctx_id \<Rightarrow> ctxs \<Rightarrow> ctxs" where
  "cancel c S d = map_option (\<lambda>x. if is_within c d then end_with Canceled x else x) (S d)"

definition expire :: "int \<Rightarrow> ctxs \<Rightarrow> ctxs" where
  "expire now S d =
     map_option (\<lambda>x. case cx_deadline x of
         Some t \<Rightarrow> if t \<le> now then end_with DeadlineExceeded x else x
       | None \<Rightarrow> x) (S d)"

definition earlier :: "int option \<Rightarrow> int option \<Rightarrow> int option" where
  "earlier a b = (case (a, b) of (Some x, Some y) \<Rightarrow> Some (min x y) | (Some x, None) \<Rightarrow> Some x | (None, b) \<Rightarrow> b)"

definition new_child :: "int option \<Rightarrow> ctx_id \<Rightarrow> ctxs \<Rightarrow> ctx_id \<times> ctxs" where
  "new_child t p S =
     (case S p of
        None \<Rightarrow> (p, S)
      | Some x \<Rightarrow>
          (cx_children x # p,
           S(p \<mapsto> x\<lparr>cx_children := Suc (cx_children x)\<rparr>,
             cx_children x # p \<mapsto> \<lparr>cx_deadline = earlier t (cx_deadline x), cx_err = cx_err x, cx_children = 0\<rparr>)))"

definition WithCancel :: "ctx_id \<Rightarrow> ctxs \<Rightarrow> ctx_id \<times> ctxs" where
  "WithCancel p S = new_child None p S"

text \<open>A timeout counts from now, and one that is over at once has ended the context already.\<close>

definition WithTimeout :: "int \<Rightarrow> ctx_id \<Rightarrow> int \<Rightarrow> ctxs \<Rightarrow> ctx_id \<times> ctxs" where
  "WithTimeout now p d S =
     (case new_child (Some (now + d)) p S of (c, S') \<Rightarrow> (c, if d \<le> 0 then expire now S' else S'))"

subsection \<open>Well-formed trees\<close>

text \<open>A context has ended when its parent has, and its deadline is not later.\<close>

definition not_later :: "int option \<Rightarrow> int option \<Rightarrow> bool" where
  "not_later a b = (\<forall>y. b = Some y \<longrightarrow> (\<exists>x \<le> y. a = Some x))"

lemma not_later_refl [simp]: "not_later a a" by (simp add: not_later_def)

lemma not_later_trans: "not_later a b \<Longrightarrow> not_later b c \<Longrightarrow> not_later a c"
  by (force simp: not_later_def)

lemma earlier_not_later [simp]: "not_later (earlier a b) b" "not_later (earlier a b) a"
  by (cases a; cases b; simp add: earlier_def not_later_def min.coboundedI1 min.coboundedI2)+

definition below_parent :: "ctx \<Rightarrow> ctx \<Rightarrow> bool" where
  "below_parent x y = ((ended y \<longrightarrow> ended x) \<and> not_later (cx_deadline x) (cx_deadline y))"

definition ctx_ok :: "ctxs \<Rightarrow> bool" where
  "ctx_ok S =
     (S [] \<noteq> None
      \<and> (\<forall>i p x. S (i # p) = Some x \<longrightarrow> (\<exists>y. S p = Some y \<and> i < cx_children y \<and> below_parent x y)))"

lemma ctx_okD: "ctx_ok S \<Longrightarrow> S (i # p) = Some x \<Longrightarrow> \<exists>y. S p = Some y \<and> i < cx_children y \<and> below_parent x y"
  by (simp add: ctx_ok_def)

lemma end_with_simps [simp]:
  "ended (end_with e x)" "cx_deadline (end_with e x) = cx_deadline x" "cx_children (end_with e x) = cx_children x"
  by (auto simp: ended_def end_with_def split: option.splits)

lemma end_with_old: "cx_err x = Some f \<Longrightarrow> end_with e x = x"
  by (simp add: end_with_def)

lemma ctx_ok_Background [etos_inv]: "ctx_ok Background"
  by (simp add: ctx_ok_def Background_def)

text \<open>Contexts end together with what is below them.\<close>

lemma ctx_ok_mark:
  assumes ok: "ctx_ok S" and S': "\<And>d. S' d = map_option (f d) (S d)"
    and keep: "\<And>d x. cx_deadline (f d x) = cx_deadline x" "\<And>d x. cx_children (f d x) = cx_children x"
    and down: "\<And>i p x y. below_parent x y \<Longrightarrow> ended (f p y) \<Longrightarrow> ended (f (i # p) x)"
  shows "ctx_ok S'"
  unfolding ctx_ok_def
proof (intro conjI allI impI)
  show "S' [] \<noteq> None" using ok S' by (simp add: ctx_ok_def)
  fix i p x
  assume "S' (i # p) = Some x"
  then obtain x0 where x0: "S (i # p) = Some x0" "x = f (i # p) x0" using S' by auto
  obtain y0 where y0: "S p = Some y0" "i < cx_children y0" "below_parent x0 y0"
    using ctx_okD [OF ok x0(1)] by blast
  have "below_parent x (f p y0)"
    using y0(3) down [OF y0(3)] keep(1) unfolding x0(2) below_parent_def by simp
  then show "\<exists>y. S' p = Some y \<and> i < cx_children y \<and> below_parent x y"
    using y0 S' keep(2) by simp
qed

lemma ctx_ok_cancel [etos_inv]:
  assumes "ctx_ok S"
  shows "ctx_ok (cancel c S)"
proof (rule ctx_ok_mark [OF assms])
  show "cancel c S d = map_option ((\<lambda>d x. if is_within c d then end_with Canceled x else x) d) (S d)" for d
    by (simp add: cancel_def)
  show "ended (if is_within c (i # p) then end_with Canceled x else x)"
    if "below_parent x y" "ended (if is_within c p then end_with Canceled y else y)" for i p x y
    using that is_within_child [of c p i] by (auto simp: below_parent_def split: if_splits)
qed simp_all

definition expired_ctx :: "int \<Rightarrow> ctx \<Rightarrow> ctx" where
  "expired_ctx now x =
     (if (\<exists>t \<in> set_option (cx_deadline x). t \<le> now) then end_with DeadlineExceeded x else x)"

lemma expire_alt: "expire now S d = map_option (expired_ctx now) (S d)"
  by (cases "S d") (auto simp: expire_def expired_ctx_def split: option.splits)

lemma expired_ctx_simps [simp]:
  "cx_deadline (expired_ctx now x) = cx_deadline x" "cx_children (expired_ctx now x) = cx_children x"
  by (simp_all add: expired_ctx_def)

lemma expired_ctx_err:
  "ended (expired_ctx now x) \<longleftrightarrow> ended x \<or> (\<exists>t \<le> now. cx_deadline x = Some t)"
  by (cases "cx_deadline x") (simp_all add: expired_ctx_def)

lemma ctx_ok_expire [etos_inv]:
  assumes "ctx_ok S"
  shows "ctx_ok (expire now S)"
proof (rule ctx_ok_mark [OF assms])
  show "expire now S d = map_option ((\<lambda>_. expired_ctx now) d) (S d)" for d by (simp add: expire_alt)
  show "ended (expired_ctx now x)"
    if p: "below_parent x y" and e: "ended (expired_ctx now y)" for x y
  proof (cases "ended y")
    case False
    then obtain t where t: "t \<le> now" "cx_deadline y = Some t" using e expired_ctx_err by blast
    then obtain u where "u \<le> t" "cx_deadline x = Some u" using p by (auto simp: below_parent_def not_later_def)
    then show ?thesis using t(1) expired_ctx_err order_trans by blast
  next
    case True
    then show ?thesis using p expired_ctx_err by (auto simp: below_parent_def)
  qed
qed simp_all

lemma ctx_ok_fresh: "ctx_ok S \<Longrightarrow> S p = Some x \<Longrightarrow> S (cx_children x # p) = None"
  using ctx_okD by (metis less_irrefl not_None_eq option.inject)

lemma ctx_ok_fresh_deep: "ctx_ok S \<Longrightarrow> S p = None \<Longrightarrow> S (i # p) = None"
  using ctx_okD by (metis not_None_eq option.distinct(1))

lemma ctx_ok_new_child [etos_inv]:
  assumes ok: "ctx_ok S" and n: "new_child t p S = (c, S')"
  shows "ctx_ok S'"
proof (cases "S p")
  case None
  then show ?thesis using assms by (simp add: new_child_def)
next
  case (Some x)
  let ?c = "cx_children x # p" and ?x = "x\<lparr>cx_children := Suc (cx_children x)\<rparr>"
  let ?n = "\<lparr>cx_deadline = earlier t (cx_deadline x), cx_err = cx_err x, cx_children = 0\<rparr>"
  have S': "S' = S(p \<mapsto> ?x, ?c \<mapsto> ?n)" using n unfolding new_child_def Some option.case by blast
  show ?thesis unfolding ctx_ok_def
  proof (intro conjI allI impI)
    show "S' [] \<noteq> None" using ok by (auto simp: S' ctx_ok_def)
    fix i q z
    assume z: "S' (i # q) = Some z"
    have fresh: "S ?c = None" "S (i # ?c) = None"
      using ctx_ok_fresh [OF ok Some] ctx_ok_fresh_deep [OF ok] by auto
    show "\<exists>y. S' q = Some y \<and> i < cx_children y \<and> below_parent z y"
    proof (cases "i # q = ?c")
      case True
      then show ?thesis using z by (auto simp: S' below_parent_def ended_def)
    next
      case False
      have "\<exists>z0. S (i # q) = Some z0 \<and> cx_err z = cx_err z0 \<and> cx_deadline z = cx_deadline z0"
        using z False Some by (auto simp: S' split: if_splits)
      then obtain y where "S q = Some y" "i < cx_children y" "below_parent z y"
        using ctx_okD [OF ok, of i q] by (auto simp: below_parent_def ended_def)
      moreover have "q \<noteq> ?c" using fresh(1) calculation(1) by auto
      ultimately show ?thesis using Some by (auto simp: S' below_parent_def ended_def)
    qed
  qed
qed

subsection \<open>Contexts over time\<close>

text \<open>What may happen to a tree while code runs: new contexts, and ends that stay as they are.\<close>

definition evolves :: "ctxs \<Rightarrow> ctxs \<Rightarrow> bool" where
  "evolves S S' =
     (ctx_ok S'
      \<and> (\<forall>d x. S d = Some x \<longrightarrow> (\<exists>x'. S' d = Some x' \<and> cx_deadline x' = cx_deadline x
            \<and> (ended x \<longrightarrow> cx_err x' = cx_err x))))"

lemma evolves_refl: "ctx_ok S \<Longrightarrow> evolves S S" by (simp add: evolves_def)

lemma evolves_trans: "evolves S T \<Longrightarrow> evolves T U \<Longrightarrow> evolves S U"
proof -
  assume a: "evolves S T" "evolves T U"
  have "\<exists>z. U d = Some z \<and> cx_deadline z = cx_deadline x \<and> (ended x \<longrightarrow> cx_err z = cx_err x)"
    if sd: "S d = Some x" for d x
  proof -
    obtain y where y: "T d = Some y" "cx_deadline y = cx_deadline x" "ended x \<longrightarrow> cx_err y = cx_err x"
      using a(1) sd unfolding evolves_def by blast
    obtain z where "U d = Some z" "cx_deadline z = cx_deadline y" "ended y \<longrightarrow> cx_err z = cx_err y"
      using a(2) y(1) unfolding evolves_def by blast
    then show ?thesis using y(2,3) by (auto simp: ended_def)
  qed
  then show ?thesis using a(2) by (simp add: evolves_def)
qed

lemma evolves_Err: "evolves S S' \<Longrightarrow> ctx_Err S c = Some e \<Longrightarrow> ctx_Err S' c = Some e"
  by (fastforce simp: evolves_def ctx_Err_def ended_def split: option.splits)

lemma evolves_done: "evolves S S' \<Longrightarrow> ctx_done S c \<Longrightarrow> ctx_done S' c"
  unfolding ctx_done_def using evolves_Err by blast

lemma end_with_keeps: "ended x \<Longrightarrow> end_with e x = x"
  by (auto simp: ended_def end_with_def)

lemma cancel_evolves [etos_inv]: "ctx_ok S \<Longrightarrow> evolves S (cancel c S)"
  using ctx_ok_cancel by (auto simp: evolves_def cancel_def end_with_keeps)

lemma expire_evolves [etos_inv]: "ctx_ok S \<Longrightarrow> evolves S (expire now S)"
  using ctx_ok_expire by (auto simp: evolves_def expire_alt expired_ctx_def end_with_keeps)

lemma new_child_evolves [etos_inv]:
  assumes "ctx_ok S" "new_child t p S = (c, S')"
  shows "evolves S S'"
proof (cases "S p")
  case None
  then show ?thesis using assms by (simp add: new_child_def evolves_refl)
next
  case (Some x)
  have f: "S (cx_children x # p) = None" using ctx_ok_fresh [OF assms(1) Some] .
  have S': "S' = S(p \<mapsto> x\<lparr>cx_children := Suc (cx_children x)\<rparr>,
             cx_children x # p \<mapsto> \<lparr>cx_deadline = earlier t (cx_deadline x), cx_err = cx_err x, cx_children = 0\<rparr>)"
    using assms(2) unfolding new_child_def Some option.case by blast
  have "\<exists>y'. S' d = Some y' \<and> cx_deadline y' = cx_deadline y \<and> (ended y \<longrightarrow> cx_err y' = cx_err y)"
    if "S d = Some y" for d y
    using that f Some by (auto simp: S')
  then show ?thesis using ctx_ok_new_child [OF assms] by (simp add: evolves_def)
qed

lemma WithTimeout_evolves [etos_inv]:
  assumes ok: "ctx_ok S" and w: "WithTimeout now p d S = (c, S')"
  shows "evolves S S'"
proof -
  obtain S1 where n: "new_child (Some (now + d)) p S = (c, S1)" "S' = (if d \<le> 0 then expire now S1 else S1)"
    using w by (auto simp: WithTimeout_def split: prod.splits)
  show ?thesis
    using n(2) new_child_evolves [OF ok n(1)] evolves_trans expire_evolves [OF ctx_ok_new_child [OF ok n(1)]] by metis
qed

lemma WithCancel_evolves [etos_inv]:
  "ctx_ok S \<Longrightarrow> WithCancel p S = (c, S') \<Longrightarrow> evolves S S'"
  using new_child_evolves by (simp add: WithCancel_def)

lemma evolves_ok: "evolves S S' \<Longrightarrow> ctx_ok S'" by (simp add: evolves_def)

text \<open>A cancelled context has ended with everything below it, and nothing else has.\<close>

lemma cancel_done:
  "ctx_done (cancel c S) d \<longleftrightarrow> ctx_done S d \<or> (S d \<noteq> None \<and> is_within c d)"
  by (cases "S d") (auto simp: ctx_done_def ctx_Err_def cancel_def end_with_def split: option.splits)

lemma has_ctx_cancel [simp]: "has_ctx (cancel c S) d = has_ctx S d"
  by (simp add: has_ctx_def cancel_def)

lemma done_down: "ctx_ok S \<Longrightarrow> S (i # p) \<noteq> None \<Longrightarrow> ctx_done S p \<Longrightarrow> ctx_done S (i # p)"
  using ctx_okD [of S i p] by (fastforce simp: ctx_done_def ctx_Err_def below_parent_def ended_def split: option.splits)

lemma WithTimeout_child:
  assumes "ctx_ok S" "S p = Some x" "WithTimeout now p d S = (c, S')"
  shows "S c = None \<and> c = cx_children x # p
    \<and> (\<exists>y t. S' c = Some y \<and> cx_deadline y = Some t \<and> t \<le> now + d \<and> not_later (Some t) (cx_deadline x))"
proof -
  let ?n = "\<lparr>cx_deadline = earlier (Some (now + d)) (cx_deadline x), cx_err = cx_err x, cx_children = 0\<rparr>"
  obtain S1 where S1: "new_child (Some (now + d)) p S = (cx_children x # p, S1)" "S1 (cx_children x # p) = Some ?n"
    using assms(2) by (simp add: new_child_def)
  have c: "c = cx_children x # p" "S' = (if d \<le> 0 then expire now S1 else S1)"
    using assms(3) S1(1) by (auto simp: WithTimeout_def)
  obtain t where t: "earlier (Some (now + d)) (cx_deadline x) = Some t" "t \<le> now + d"
    by (cases "cx_deadline x") (auto simp: earlier_def)
  have "not_later (Some t) (cx_deadline x)" using earlier_not_later(1) [of "Some (now + d)" "cx_deadline x"] t(1) by simp
  moreover have "\<exists>y. S' c = Some y \<and> cx_deadline y = Some t"
    using S1(2) t(1) by (auto simp: c expire_alt)
  ultimately show ?thesis using t(2) c(1) ctx_ok_fresh [OF assms(1,2)] by blast
qed

subsection \<open>Handlers with a timeout\<close>

text \<open>
  \<open>timeoutHandler\<close> of the execution space service and of the IUT provider, on a state that has the
  time and the contexts: the handler runs with a context of its own below the request's, which is
  cancelled when it returns, or panics.
\<close>

record 'a server_state =
  ss_now :: int
  ss_ctxs :: ctxs
  ss_world :: 'a

definition timeoutHandler :: "int \<Rightarrow> (ctx_id \<Rightarrow> 'a server_state handler) \<Rightarrow> ctx_id \<Rightarrow> 'a server_state handler" where
  "timeoutHandler timeout fn c rs =
     (case WithTimeout (ss_now (snd rs)) c timeout (ss_ctxs (snd rs)) of
        (c', S) \<Rightarrow>
          (case fn c' (fst rs, (snd rs)\<lparr>ss_ctxs := S\<rparr>) of
             (r, w, s) \<Rightarrow> (r, w, s\<lparr>ss_ctxs := cancel c' (ss_ctxs s)\<rparr>)))"

definition iut_timeoutHandler :: "(ctx_id \<Rightarrow> 'a server_state handler) \<Rightarrow> ctx_id \<Rightarrow> 'a server_state handler" where
  "iut_timeoutHandler = timeoutHandler (10 * 10 ^ 9)"

text \<open>What a handler may do to the contexts while it runs.\<close>

definition well_behaved :: "(ctx_id \<Rightarrow> 'a server_state handler) \<Rightarrow> bool" where
  "well_behaved fn =
     (\<forall>c w s. ctx_ok (ss_ctxs s) \<longrightarrow> evolves (ss_ctxs s) (ss_ctxs (snd (snd (fn c (w, s))))))"

lemma timeoutHandler_split:
  assumes "ctx_ok (ss_ctxs s)" "ss_ctxs s c \<noteq> None" "well_behaved fn"
    and "timeoutHandler timeout fn c (w, s) = (r, w', s')"
  obtains c' S s1 where "WithTimeout (ss_now s) c timeout (ss_ctxs s) = (c', S)"
    "fn c' (w, s\<lparr>ss_ctxs := S\<rparr>) = (r, w', s1)" "s' = s1\<lparr>ss_ctxs := cancel c' (ss_ctxs s1)\<rparr>"
    "evolves (ss_ctxs s) S" "evolves S (ss_ctxs s1)"
proof -
  obtain c' S where n: "WithTimeout (ss_now s) c timeout (ss_ctxs s) = (c', S)" by (metis prod.exhaust)
  obtain r2 w2 s1 where f: "fn c' (w, s\<lparr>ss_ctxs := S\<rparr>) = (r2, w2, s1)" by (metis prod.exhaust)
  have e: "evolves (ss_ctxs s) S" using WithTimeout_evolves [OF assms(1) n] .
  then have "evolves S (ss_ctxs s1)"
    using assms(3) f evolves_ok unfolding well_behaved_def
    by (metis (no_types, lifting) select_convs(2) snd_conv surjective update_convs(2))
  then show thesis using that n f e assms(4) by (simp add: timeoutHandler_def)
qed


subsection \<open>Databases under a context\<close>

text \<open>
  An operation of a client that was opened with a context fails with the error of the context when
  that has ended, and otherwise is the operation on the world; the laws of the store carry over.
\<close>

definition context_error :: "ctx_error \<Rightarrow> gerror" where
  "context_error e =
     (case e of Canceled \<Rightarrow> Sentinel ''context canceled'' | DeadlineExceeded \<Rightarrow> Sentinel ''context deadline exceeded'')"

definition on_world :: "('a \<Rightarrow> 'r \<times> 'a) \<Rightarrow> 'a server_state \<Rightarrow> 'r \<times> 'a server_state" where
  "on_world f s = (case f (ss_world s) of (r, a) \<Rightarrow> (r, s\<lparr>ss_world := a\<rparr>))"

definition with_context :: "'a opener \<Rightarrow> ctx_id \<Rightarrow> 'a server_state opener" where
  "with_context db c =
     \<lparr>db_write = (\<lambda>u b s. case ctx_Err (ss_ctxs s) c of
          Some e \<Rightarrow> (Some (context_error e), s) | None \<Rightarrow> on_world (db_write db u b) s),
      db_read = (\<lambda>u s. case ctx_Err (ss_ctxs s) c of
          Some e \<Rightarrow> (Inl (context_error e), s) | None \<Rightarrow> on_world (db_read db u) s),
      db_delete = (\<lambda>u s. case ctx_Err (ss_ctxs s) c of
          Some e \<Rightarrow> (Some (context_error e), s) | None \<Rightarrow> on_world (db_delete db u) s)\<rparr>"

lemma with_context_keeps:
  "db_write (with_context db c) u b s = (r, s') \<Longrightarrow> ss_ctxs s' = ss_ctxs s \<and> ss_now s' = ss_now s"
  "db_read (with_context db c) u s = (q, s') \<Longrightarrow> ss_ctxs s' = ss_ctxs s \<and> ss_now s' = ss_now s"
  "db_delete (with_context db c) u s = (r, s') \<Longrightarrow> ss_ctxs s' = ss_ctxs s \<and> ss_now s' = ss_now s"
  by (auto simp: with_context_def on_world_def split: option.splits prod.splits)

lemma with_context_ended:
  assumes "ctx_Err (ss_ctxs s) c = Some e"
  shows "db_write (with_context db c) u b s = (Some (context_error e), s)"
    "db_read (with_context db c) u s = (Inl (context_error e), s)"
    "db_delete (with_context db c) u s = (Some (context_error e), s)"
  using assms by (simp_all add: with_context_def)

context byte_store
begin

lemma with_context_store:
  "byte_store (with_context db c) (\<lambda>s. ok (ss_world s)) (\<lambda>s. contents (ss_world s))"
proof (unfold_locales, goal_cases)
  case 1 then show ?case
    by (auto simp: with_context_def on_world_def split: option.splits prod.splits dest: write_done)
next
  case 2 then show ?case
    by (auto simp: with_context_def on_world_def split: option.splits prod.splits dest: write_failed)
next
  case 3 then show ?case
    by (auto simp: with_context_def on_world_def split: option.splits prod.splits dest: read_done)
next
  case 4 then show ?case
    by (auto simp: with_context_def on_world_def split: option.splits prod.splits dest: read_failed)
next
  case 5 then show ?case
    by (auto simp: with_context_def on_world_def split: option.splits prod.splits dest: delete_done)
next
  case 6 then show ?case
    by (auto simp: with_context_def on_world_def split: option.splits prod.splits dest: delete_failed)
qed

end

interpretation timed_etcd: byte_store "with_context (etcd_opener L c e0) x"
    "\<lambda>s. etcd_lawful c \<and> uuid_lawful L" "\<lambda>s. etcd_contents L c (ss_world s)"
  by (rule etcd_store.with_context_store)

text \<open>The handlers of the IUT provider leave the contexts alone.\<close>

definition iut_route :: "string \<Rightarrow> ('a server_state opener \<Rightarrow> 'a server_state handler) \<Rightarrow> 'a opener \<Rightarrow> ctx_id
    \<Rightarrow> 'a server_state handler" where
  "iut_route ident fn db c = iut_panicRecovery ident (iut_timeoutHandler (\<lambda>c'. fn (with_context db c')) c)"

lemma well_behavedI:
  assumes "\<And>c w s r w' s'. fn c (w, s) = (r, w', s') \<Longrightarrow> ss_ctxs s' = ss_ctxs s"
  shows "well_behaved fn"
proof -
  have "ss_ctxs (snd (snd (fn c (w, s)))) = ss_ctxs s" for c w s
    using assms [of c w s] by (metis prod.collapse)
  then show ?thesis by (simp add: well_behaved_def evolves_refl)
qed

lemma iut_Start_keeps:
  "iut_Start L eiffel U (with_context db c) cid etosId body (w, s) = (r, w', s') \<Longrightarrow> ss_ctxs s' = ss_ctxs s"
  by (auto simp: iut_Start_def Let_def split: prod.splits option.splits sum.splits if_splits dest: with_context_keeps)

lemma iut_Status_keeps:
  "iut_Status L U (with_context db c) etosId query (w, s) = (r, w', s') \<Longrightarrow> ss_ctxs s' = ss_ctxs s"
  by (auto simp: iut_Status_def Let_def split: prod.splits sum.splits dest: with_context_keeps)

lemma iut_Stop_keeps:
  "iut_Stop L (with_context db c) canDelete etosId (w, s) = (r, w', s') \<Longrightarrow> ss_ctxs s' = ss_ctxs s"
  by (auto simp: iut_Stop_def Let_def split: prod.splits option.splits if_splits dest: with_context_keeps)

lemma iut_well_behaved:
  "well_behaved (\<lambda>c. iut_Start L eiffel U (with_context db c) cid etosId body)"
  "well_behaved (\<lambda>c. iut_Status L U (with_context db c) etosId query)"
  "well_behaved (\<lambda>c. iut_Stop L (with_context db c) canDelete etosId)"
  by (rule well_behavedI, erule iut_Start_keeps iut_Status_keeps iut_Stop_keeps)+

definition ex_server :: "(string \<Rightarrow> bytes option) server_state" where
  "ex_server = \<lparr>ss_now = 5, ss_ctxs = snd (WithCancel [] Background), ss_world = Map.empty\<rparr>"

lemma ex_server_ok: "ctx_ok (ss_ctxs ex_server)"
  "ss_ctxs ex_server [0] = Some \<lparr>cx_deadline = None, cx_err = None, cx_children = 0\<rparr>"
proof -
  obtain c S where n: "new_child None [] Background = (c, S)" by (metis prod.exhaust)
  show "ctx_ok (ss_ctxs ex_server)"
    using ctx_ok_new_child [OF ctx_ok_Background n] n by (simp add: ex_server_def WithCancel_def)
  show "ss_ctxs ex_server [0] = Some \<lparr>cx_deadline = None, cx_err = None, cx_children = 0\<rparr>" by code_simp
qed


subsection \<open>Applications\<close>

text \<open>
  The applications of the SSE server and of the key service own a context that their \<open>Close\<close>
  cancels; that of v2alpha closes its streamer, too.  A nil telemetry is replaced by a new one.
\<close>

definition v1_New :: "ctx_id \<Rightarrow> ctxs \<Rightarrow> ctx_id \<times> ctxs" where "v1_New = WithCancel"

definition v1_Close :: "ctx_id \<Rightarrow> ctxs \<Rightarrow> ctxs" where "v1_Close = cancel"

definition v1alpha_New :: "ctx_id \<Rightarrow> ctxs \<Rightarrow> ctx_id \<times> ctxs" where "v1alpha_New = WithCancel"

definition v1alpha_Close :: "ctx_id \<Rightarrow> ctxs \<Rightarrow> ctxs" where "v1alpha_Close = cancel"

definition keys_New :: "ctx_id \<Rightarrow> ctxs \<Rightarrow> ctx_id \<times> ctxs" where "keys_New = WithCancel"

definition keys_Close :: "ctx_id \<Rightarrow> ctxs \<Rightarrow> ctxs" where "keys_Close = cancel"

end
