(* ===== verification/Sse_Lifecycle.thy ===== *)
theory Sse_Lifecycle
  imports Go_Context Sse_Handler
begin

text \<open>
  The goroutines of one v2alpha connection (\<open>GetEvents\<close> and \<open>subscribe\<close> of
  \<open>pkg/sse/v2alpha/sse.go\<close>, \<open>Consume\<close>, \<open>handleMessage\<close>, \<open>notifyClose\<close> and \<open>Close\<close> of
  \<open>internal/stream/rabbitmq.go\<close>): who waits for whom, which context wakes whom, and what the
  deferred calls release.  What the events say is in \<open>Sse_Delivery\<close>; here a message is only
  something that a goroutine blocks on.
\<close>

subsection \<open>State\<close>

text \<open>
  The contexts of a connection: the application's (\<open>New\<close>), the request's, which \<open>net/http\<close> ends when
  the client leaves, the handler's below it, and the subscriber's below that.
\<close>

abbreviation app_ctx :: ctx_id where "app_ctx \<equiv> [0]"
abbreviation req_ctx :: ctx_id where "req_ctx \<equiv> [1]"
abbreviation handler_ctx :: ctx_id where "handler_ctx \<equiv> [0, 1]"
abbreviation sub_ctx :: ctx_id where "sub_ctx \<equiv> [0, 0, 1]"

text \<open>
  Where the handler is: in its \<open>select\<close>, writing an event, or in its deferred calls \<open>cancel\<close> and
  \<open>stop\<close>.  The subscriber: before the loop, sending its last event, in the loop's \<open>select\<close>, sending
  an event, and in its deferred calls \<open>streamer.Close\<close>, \<open>cancel\<close> and \<open>close(ch)\<close>.  The goroutine of
  \<open>notifyClose\<close> waits, or has an error to forward; the consumer's callback waits in
  \<open>handleMessage\<close> or is idle.
\<close>

datatype handler_pc = HSelect | HWrite | HCancel | HStop | HDone

datatype sub_pc = SBegin | SSendLast | SLoop | SSend | SClosing | SCanceling | SEnding | SEnded

datatype notify_pc = NOff | NWait | NSend | NEnded

datatype callback_pc = COff | CIdle | CHandling

text \<open>
  \<open>lc_after\<close>: the function of \<open>context.AfterFunc\<close> has neither run nor been stopped.  \<open>lc_event\<close>: the
  client library has an event for \<open>NotifyClose\<close>.  \<open>lc_closed\<close>: how many errors are in the channel
  \<open>closed\<close>, which holds one.  \<open>lc_closes\<close> and \<open>lc_ch_closes\<close> count \<open>streamer.Close\<close> and \<open>close(ch)\<close>.
\<close>

record lifecycle =
  lc_ctxs :: ctxs
  lc_handler :: handler_pc
  lc_aborted :: bool
  lc_after :: bool
  lc_sub :: sub_pc
  lc_notify :: notify_pc
  lc_callback :: callback_pc
  lc_event :: bool
  lc_closed :: nat
  lc_closes :: nat
  lc_ch_closes :: nat

subsection \<open>Applications and requests\<close>

text \<open>\<open>New\<close> and \<open>Close\<close> of the application; the streamer is closed with it.\<close>

record application =
  ap_ctx :: ctx_id
  ap_metrics :: sse_metrics
  ap_streamer_closed :: bool

definition v2_New :: "ctx_id \<Rightarrow> sse_metrics option \<Rightarrow> ctxs \<Rightarrow> application \<times> ctxs" where
  "v2_New p telemetry S =
     (case WithCancel p S of
        (c, S') \<Rightarrow>
          (\<lparr>ap_ctx = c, ap_metrics = (case telemetry of None \<Rightarrow> NewSSEMetrics | Some m \<Rightarrow> m),
            ap_streamer_closed = False\<rparr>, S'))"

definition v2_Close :: "application \<Rightarrow> ctxs \<Rightarrow> application \<times> ctxs" where
  "v2_Close a S = (a\<lparr>ap_streamer_closed := True\<rparr>, cancel (ap_ctx a) S)"

text \<open>A connection starts when \<open>GetEvents\<close> has made its context and started the subscriber.\<close>

definition lc_contexts :: ctxs where
  "lc_contexts =
     (case v2_New [] None Background of (_, S1) \<Rightarrow>
      case WithCancel [] S1 of (r, S2) \<Rightarrow>
      case WithCancel r S2 of (h, S3) \<Rightarrow> snd (WithCancel h S3))"

definition lc_init :: lifecycle where
  "lc_init = \<lparr>lc_ctxs = lc_contexts, lc_handler = HSelect, lc_aborted = False, lc_after = True, lc_sub = SBegin,
     lc_notify = NOff, lc_callback = COff, lc_event = False, lc_closed = 0, lc_closes = 0, lc_ch_closes = 0\<rparr>"

subsection \<open>Steps\<close>

text \<open>
  Steps of the environment: the client leaves, the application is closed, the broker closes the
  consumer, the library dispatches a message that passes the filter, the ping timer fires.  The
  others are steps of the goroutines; \<open>Receive\<close> and \<open>Message\<close> are rendezvous on the two unbuffered
  channels.
\<close>

datatype lc_act =
    ClientLeaves | AppCloses | BrokerCloses | Dispatch
  | AfterFunc | Gone | ChannelClosed | Receive | Written | WriteFails | HandlerCancel | HandlerStop
  | Refused | Consuming | Expired | SubDone | PingDue | StreamClosed | Message bool | GiveUp
  | CloseStream | SubCancel | CloseChannel
  | NotifyDone | NotifyEvent | NotifyPut
  | CallbackDone

definition lc_done :: "lifecycle \<Rightarrow> ctx_id \<Rightarrow> bool" where
  "lc_done s c = ctx_done (lc_ctxs s) c"

definition guarded :: "bool \<Rightarrow> 'a \<Rightarrow> 'a option" where
  "guarded b x = (if b then Some x else None)"

lemma guarded_Some [simp]: "guarded b x = Some y \<longleftrightarrow> b \<and> x = y" by (simp add: guarded_def)

text \<open>\<open>notifyClose\<close>: forwards a close unless the subscription has ended.\<close>

fun notify_step :: "lc_act \<Rightarrow> lifecycle \<Rightarrow> lifecycle option" where
  "notify_step NotifyDone s = guarded (lc_notify s \<in> {NWait, NSend} \<and> lc_done s sub_ctx) (s\<lparr>lc_notify := NEnded\<rparr>)"
| "notify_step NotifyEvent s = guarded (lc_notify s = NWait \<and> lc_event s) (s\<lparr>lc_event := False, lc_notify := NSend\<rparr>)"
| "notify_step NotifyPut s = guarded (lc_notify s = NSend \<and> lc_closed s < 1) (s\<lparr>lc_closed := Suc (lc_closed s), lc_notify := NEnded\<rparr>)"
| "notify_step _ s = None"

text \<open>
  \<open>Close\<close> of the stream closes the consumer, if there is one: the library then dispatches no more
  messages, while a callback that is blocked stays so until its context ends.
\<close>

definition stream_Close :: "lifecycle \<Rightarrow> lifecycle" where
  "stream_Close s = s\<lparr>lc_closes := Suc (lc_closes s)\<rparr>"

definition dispatch_step :: "lifecycle \<Rightarrow> lifecycle option" where
  "dispatch_step s = guarded (lc_callback s = CIdle \<and> lc_closes s = 0) (s\<lparr>lc_callback := CHandling\<rparr>)"

text \<open>The \<open>select\<close> of \<open>handleMessage\<close> when the subscriber's context has ended.\<close>

definition callback_step :: "lifecycle \<Rightarrow> lifecycle option" where
  "callback_step s = guarded (lc_callback s = CHandling \<and> lc_done s sub_ctx) (s\<lparr>lc_callback := CIdle\<rparr>)"

text \<open>
  \<open>subscribe\<close>: the resumption is refused or \<open>Consume\<close> fails (\<open>Refused\<close>), or the stream is consumed,
  and found expired by the second check or not.  A message is dropped when it does not parse.
\<close>

fun subscribe_step :: "lc_act \<Rightarrow> lifecycle \<Rightarrow> lifecycle option" where
  "subscribe_step Refused s = guarded (lc_sub s = SBegin) (s\<lparr>lc_sub := SSendLast\<rparr>)"
| "subscribe_step Consuming s =
     guarded (lc_sub s = SBegin) (s\<lparr>lc_sub := SLoop, lc_callback := CIdle, lc_notify := NWait\<rparr>)"
| "subscribe_step Expired s =
     guarded (lc_sub s = SBegin) (s\<lparr>lc_sub := SSendLast, lc_callback := CIdle, lc_notify := NWait\<rparr>)"
| "subscribe_step SubDone s = guarded (lc_sub s = SLoop \<and> lc_done s sub_ctx) (s\<lparr>lc_sub := SClosing\<rparr>)"
| "subscribe_step PingDue s = guarded (lc_sub s = SLoop) (s\<lparr>lc_sub := SSend\<rparr>)"
| "subscribe_step StreamClosed s =
     guarded (lc_sub s = SLoop \<and> 0 < lc_closed s)
       (s\<lparr>lc_closed := lc_closed s - 1, lc_sub := (if lc_done s sub_ctx then SClosing else SSendLast)\<rparr>)"
| "subscribe_step (Message parses) s =
     guarded (lc_sub s = SLoop \<and> lc_callback s = CHandling)
       (s\<lparr>lc_callback := CIdle, lc_sub := (if parses then SSend else SLoop)\<rparr>)"
| "subscribe_step GiveUp s = guarded (lc_sub s \<in> {SSend, SSendLast} \<and> lc_done s sub_ctx) (s\<lparr>lc_sub := SClosing\<rparr>)"
| "subscribe_step CloseStream s = guarded (lc_sub s = SClosing) (stream_Close (s\<lparr>lc_sub := SCanceling\<rparr>))"
| "subscribe_step SubCancel s =
     guarded (lc_sub s = SCanceling) (s\<lparr>lc_ctxs := cancel sub_ctx (lc_ctxs s), lc_sub := SEnding\<rparr>)"
| "subscribe_step CloseChannel s = guarded (lc_sub s = SEnding) (s\<lparr>lc_ch_closes := Suc (lc_ch_closes s), lc_sub := SEnded\<rparr>)"
| "subscribe_step _ s = None"

text \<open>The loop of \<open>GetEvents\<close>, with the function that ends its context with the application's.\<close>

fun handler_step :: "lc_act \<Rightarrow> lifecycle \<Rightarrow> lifecycle option" where
  "handler_step AfterFunc s =
     guarded (lc_after s \<and> lc_done s app_ctx) (s\<lparr>lc_ctxs := cancel handler_ctx (lc_ctxs s), lc_after := False\<rparr>)"
| "handler_step Gone s =
     guarded (lc_handler s = HSelect \<and> lc_done s handler_ctx) (s\<lparr>lc_handler := HCancel, lc_aborted := lc_done s app_ctx\<rparr>)"
| "handler_step ChannelClosed s = guarded (lc_handler s = HSelect \<and> 0 < lc_ch_closes s) (s\<lparr>lc_handler := HCancel\<rparr>)"
| "handler_step Receive s =
     guarded (lc_handler s = HSelect \<and> lc_sub s \<in> {SSend, SSendLast})
       (s\<lparr>lc_handler := HWrite, lc_sub := (if lc_sub s = SSend then SLoop else SClosing)\<rparr>)"
| "handler_step Written s = guarded (lc_handler s = HWrite) (s\<lparr>lc_handler := HSelect\<rparr>)"
| "handler_step WriteFails s = guarded (lc_handler s = HWrite) (s\<lparr>lc_handler := HCancel\<rparr>)"
| "handler_step HandlerCancel s =
     guarded (lc_handler s = HCancel) (s\<lparr>lc_ctxs := cancel handler_ctx (lc_ctxs s), lc_handler := HStop\<rparr>)"
| "handler_step HandlerStop s = guarded (lc_handler s = HStop) (s\<lparr>lc_after := False, lc_handler := HDone\<rparr>)"
| "handler_step _ s = None"

fun lc_step :: "lc_act \<Rightarrow> lifecycle \<Rightarrow> lifecycle option" where
  "lc_step ClientLeaves s = Some (s\<lparr>lc_ctxs := cancel req_ctx (lc_ctxs s)\<rparr>)"
| "lc_step AppCloses s = Some (s\<lparr>lc_ctxs := cancel app_ctx (lc_ctxs s)\<rparr>)"
| "lc_step BrokerCloses s = guarded (lc_callback s \<noteq> COff) (s\<lparr>lc_event := True\<rparr>)"
| "lc_step Dispatch s = dispatch_step s"
| "lc_step CallbackDone s = callback_step s"
| "lc_step AfterFunc s = handler_step AfterFunc s"
| "lc_step Gone s = handler_step Gone s"
| "lc_step ChannelClosed s = handler_step ChannelClosed s"
| "lc_step Receive s = handler_step Receive s"
| "lc_step Written s = handler_step Written s"
| "lc_step WriteFails s = handler_step WriteFails s"
| "lc_step HandlerCancel s = handler_step HandlerCancel s"
| "lc_step HandlerStop s = handler_step HandlerStop s"
| "lc_step Refused s = subscribe_step Refused s"
| "lc_step Consuming s = subscribe_step Consuming s"
| "lc_step Expired s = subscribe_step Expired s"
| "lc_step SubDone s = subscribe_step SubDone s"
| "lc_step PingDue s = subscribe_step PingDue s"
| "lc_step StreamClosed s = subscribe_step StreamClosed s"
| "lc_step (Message b) s = subscribe_step (Message b) s"
| "lc_step GiveUp s = subscribe_step GiveUp s"
| "lc_step CloseStream s = subscribe_step CloseStream s"
| "lc_step SubCancel s = subscribe_step SubCancel s"
| "lc_step CloseChannel s = subscribe_step CloseChannel s"
| "lc_step NotifyDone s = notify_step NotifyDone s"
| "lc_step NotifyEvent s = notify_step NotifyEvent s"
| "lc_step NotifyPut s = notify_step NotifyPut s"

fun lc_run :: "lc_act list \<Rightarrow> lifecycle \<Rightarrow> lifecycle option" where
  "lc_run [] s = Some s"
| "lc_run (a # as) s = (case lc_step a s of None \<Rightarrow> None | Some s' \<Rightarrow> lc_run as s')"

subsection \<open>Invariant\<close>

text \<open>The program counters alone; what they say of the contexts; the tree of contexts.\<close>

definition lc_control :: "lifecycle \<Rightarrow> bool" where
  "lc_control s =
     (lc_closes s = (if lc_sub s \<in> {SCanceling, SEnding, SEnded} then 1 else 0)
      \<and> lc_ch_closes s = (if lc_sub s = SEnded then 1 else 0)
      \<and> (lc_handler s = HDone \<longrightarrow> \<not> lc_after s)
      \<and> (lc_sub s = SBegin \<longrightarrow> lc_callback s = COff)
      \<and> lc_closed s \<le> 1 \<and> (0 < lc_closed s \<longrightarrow> lc_notify s = NEnded)
      \<and> (lc_notify s = NOff \<longleftrightarrow> lc_callback s = COff))"

definition lc_ends :: "lifecycle \<Rightarrow> bool" where
  "lc_ends s =
     ((lc_sub s \<in> {SEnding, SEnded} \<longrightarrow> lc_done s sub_ctx)
      \<and> (lc_handler s \<in> {HStop, HDone} \<longrightarrow> lc_done s handler_ctx)
      \<and> (lc_aborted s \<longrightarrow> lc_done s app_ctx)
      \<and> (\<not> lc_after s \<longrightarrow> lc_done s handler_ctx))"

definition lc_tree :: "lifecycle \<Rightarrow> bool" where
  "lc_tree s = (ctx_ok (lc_ctxs s) \<and> has_ctx (lc_ctxs s) handler_ctx \<and> has_ctx (lc_ctxs s) sub_ctx)"

definition lc_inv :: "lifecycle \<Rightarrow> bool" where
  "lc_inv s = (lc_control s \<and> lc_ends s \<and> lc_tree s)"

lemma lc_contexts_eq:
  "lc_contexts = [[] \<mapsto> \<lparr>cx_deadline = None, cx_err = None, cx_children = 2\<rparr>,
     app_ctx \<mapsto> \<lparr>cx_deadline = None, cx_err = None, cx_children = 0\<rparr>,
     req_ctx \<mapsto> \<lparr>cx_deadline = None, cx_err = None, cx_children = 1\<rparr>,
     handler_ctx \<mapsto> \<lparr>cx_deadline = None, cx_err = None, cx_children = 1\<rparr>,
     sub_ctx \<mapsto> \<lparr>cx_deadline = None, cx_err = None, cx_children = 0\<rparr>]"
  by (auto simp: lc_contexts_def v2_New_def WithCancel_def new_child_def Background_def earlier_def fun_eq_iff)

lemma lc_init_inv: "lc_inv lc_init"
proof -
  have "ctx_ok lc_contexts"
    by (auto simp: ctx_ok_def lc_contexts_eq below_parent_def ended_def split: if_splits)
  then show ?thesis by (simp add: lc_inv_def lc_control_def lc_ends_def lc_tree_def lc_init_def) (simp add: has_ctx_def lc_contexts_eq)
qed

text \<open>Ended contexts stay so, and the subscriber's ends with the handler's, which ends with the request's.\<close>

lemma cancel_mono: "ctx_done S d \<Longrightarrow> ctx_done (cancel c S) d"
  by (simp add: cancel_done)

lemma cancel_self: "has_ctx S c \<Longrightarrow> ctx_done (cancel c S) c"
  by (simp add: cancel_done has_ctx_def)

lemma lc_inv_done:
  "lc_inv s \<Longrightarrow> lc_done s handler_ctx \<Longrightarrow> lc_done s sub_ctx"
  "lc_inv s \<Longrightarrow> lc_done s req_ctx \<Longrightarrow> lc_done s handler_ctx"
  using done_down [of "lc_ctxs s" 0 handler_ctx] done_down [of "lc_ctxs s" 0 req_ctx]
  by (simp_all add: lc_inv_def lc_tree_def lc_done_def has_ctx_def)

lemmas lc_step_defs = dispatch_step_def callback_step_def stream_Close_def

lemma lc_control_step: "lc_control s \<Longrightarrow> lc_step a s = Some s' \<Longrightarrow> lc_control s'"
  unfolding lc_control_def by (cases a; clarsimp simp: lc_step_defs; (auto split: if_splits)?)

lemma lc_step_ctxs:
  assumes "lc_step a s = Some s'"
  shows "lc_ctxs s' = lc_ctxs s \<or> (\<exists>c. lc_ctxs s' = cancel c (lc_ctxs s))"
  using assms by (cases a) (auto simp: lc_step_defs)

lemma lc_step_done: "lc_step a s = Some s' \<Longrightarrow> lc_done s c \<Longrightarrow> lc_done s' c"
  using lc_step_ctxs [of a s s'] cancel_mono by (auto simp: lc_done_def)

lemma lc_tree_step: "lc_tree s \<Longrightarrow> lc_step a s = Some s' \<Longrightarrow> lc_tree s'"
  using lc_step_ctxs [of a s s'] ctx_ok_cancel by (auto simp: lc_tree_def)

lemma lc_ends_step:
  assumes "lc_ends s" "lc_tree s" "lc_step a s = Some s'"
  shows "lc_ends s'"
proof -
  have mono: "lc_done s c \<Longrightarrow> lc_done s' c" for c using lc_step_done [OF assms(3)] .
  have own: "a \<in> {AfterFunc, HandlerCancel} \<Longrightarrow> lc_done s' handler_ctx" "a = SubCancel \<Longrightarrow> lc_done s' sub_ctx"
    using assms(2,3) by (auto simp: lc_done_def lc_tree_def cancel_self)
  have pcs: "lc_sub s' \<in> {SEnding, SEnded} \<Longrightarrow> lc_sub s \<in> {SEnding, SEnded} \<or> a = SubCancel"
    "lc_handler s' \<in> {HStop, HDone} \<Longrightarrow> lc_handler s \<in> {HStop, HDone} \<or> a = HandlerCancel"
    "lc_aborted s' \<Longrightarrow> lc_aborted s \<or> lc_done s app_ctx"
    "\<not> lc_after s' \<Longrightarrow> \<not> lc_after s \<or> a = AfterFunc \<or> lc_handler s \<in> {HStop, HDone}"
    using assms(3) by (cases a; clarsimp simp: lc_step_defs split: if_splits; fail)+
  show ?thesis using assms(1) mono own pcs unfolding lc_ends_def by blast
qed

lemma lc_step_inv: "lc_inv s \<Longrightarrow> lc_step a s = Some s' \<Longrightarrow> lc_inv s'"
  unfolding lc_inv_def using lc_control_step lc_ends_step lc_tree_step by blast

lemma lc_run_inv: "lc_inv s \<Longrightarrow> lc_run as s = Some s' \<Longrightarrow> lc_inv s'"
  by (induction as arbitrary: s) (auto split: option.splits dest: lc_step_inv)

subsection \<open>Winding down\<close>

definition environment_act :: "lc_act \<Rightarrow> bool" where
  "environment_act a = (a \<in> {ClientLeaves, AppCloses, BrokerCloses, Dispatch, PingDue})"

definition lc_finished :: "lifecycle \<Rightarrow> bool" where
  "lc_finished s =
     (lc_handler s = HDone \<and> lc_sub s = SEnded \<and> lc_notify s \<in> {NOff, NEnded} \<and> lc_callback s \<noteq> CHandling)"

text \<open>How far the goroutines still have to go once the handler has returned.\<close>

fun sub_rank :: "sub_pc \<Rightarrow> nat" where
  "sub_rank SBegin = 9"
| "sub_rank SLoop = 6"
| "sub_rank SSend = 5"
| "sub_rank SSendLast = 4"
| "sub_rank SClosing = 3"
| "sub_rank SCanceling = 2"
| "sub_rank SEnding = 1"
| "sub_rank SEnded = 0"

fun notify_rank :: "notify_pc \<Rightarrow> nat" where
  "notify_rank NWait = 2"
| "notify_rank NSend = 1"
| "notify_rank _ = 0"

definition lc_rank :: "lifecycle \<Rightarrow> nat" where
  "lc_rank s = sub_rank (lc_sub s) + notify_rank (lc_notify s) + (if lc_callback s = CHandling then 1 else 0)"

lemma lc_rank_bound: "lc_inv s \<Longrightarrow> lc_rank s \<le> 9"
  by (cases "lc_sub s"; cases "lc_notify s"; auto simp: lc_rank_def lc_inv_def lc_control_def)

lemma lc_rank_step:
  assumes "lc_inv s" "lc_handler s = HDone" "lc_step a s = Some s'"
  shows "lc_handler s' = HDone \<and> lc_rank s' + (if environment_act a then 0 else 1) \<le> lc_rank s + (if a = Dispatch then 1 else 0)"
proof -
  have "lc_control s" using assms(1) by (simp add: lc_inv_def)
  then show ?thesis
    using assms(2,3) unfolding lc_rank_def environment_act_def lc_control_def
    by (cases a; clarsimp simp: lc_step_defs; (auto split: if_splits)?)
qed

lemma lc_run_rank:
  assumes "lc_inv s" "lc_handler s = HDone" "lc_run as s = Some s'"
  shows "lc_handler s' = HDone
    \<and> lc_rank s' + length (filter (\<lambda>a. \<not> environment_act a) as) \<le> lc_rank s + count_list as Dispatch"
  using assms
proof (induction as arbitrary: s)
  case (Cons a as)
  then obtain t where t: "lc_step a s = Some t" "lc_run as t = Some s'" by (auto split: option.splits)
  note r = lc_rank_step [OF Cons.prems(1,2) t(1)]
  have "lc_rank s' + length (filter (\<lambda>a. \<not> environment_act a) as) \<le> lc_rank t + count_list as Dispatch"
    "lc_handler s' = HDone"
    using Cons.IH [OF lc_step_inv [OF Cons.prems(1) t(1)] _ t(2)] r by auto
  then show ?case using r by (auto split: if_splits)
qed simp

text \<open>Whoever has something to wait for is woken: no state is stuck once a context has ended.\<close>

lemma lc_no_deadlock:
  assumes "lc_inv s" "lc_done s req_ctx \<or> lc_done s app_ctx" "\<not> lc_finished s"
  shows "\<exists>a s'. \<not> environment_act a \<and> lc_step a s = Some s'"
proof (cases "lc_handler s")
  case HSelect
  show ?thesis
  proof (cases "lc_done s handler_ctx")
    case True
    then show ?thesis using HSelect by (intro exI [of _ Gone]) (simp add: environment_act_def guarded_def)
  next
    case False
    then have "lc_done s app_ctx" using assms(1,2) lc_inv_done(2) by blast
    moreover have "lc_after s" using False assms(1) by (auto simp: lc_inv_def lc_ends_def)
    ultimately show ?thesis by (intro exI [of _ AfterFunc]) (simp add: environment_act_def guarded_def)
  qed
next
  case HWrite
  then show ?thesis by (intro exI [of _ Written]) (simp add: environment_act_def guarded_def)
next
  case HCancel
  then show ?thesis by (intro exI [of _ HandlerCancel]) (simp add: environment_act_def guarded_def)
next
  case HStop
  then show ?thesis by (intro exI [of _ HandlerStop]) (simp add: environment_act_def guarded_def)
next
  case HDone
  then have d: "lc_done s sub_ctx" using assms(1) lc_inv_done(1) by (auto simp: lc_inv_def lc_ends_def)
  show ?thesis
  proof (cases "lc_sub s")
    case SBegin
    then show ?thesis by (intro exI [of _ Refused]) (simp add: environment_act_def guarded_def)
  next
    case SSendLast
    then show ?thesis using d by (intro exI [of _ GiveUp]) (simp add: environment_act_def guarded_def)
  next
    case SLoop
    then show ?thesis using d by (intro exI [of _ SubDone]) (simp add: environment_act_def guarded_def)
  next
    case SSend
    then show ?thesis using d by (intro exI [of _ GiveUp]) (simp add: environment_act_def guarded_def)
  next
    case SClosing
    then show ?thesis by (intro exI [of _ CloseStream]) (simp add: environment_act_def guarded_def)
  next
    case SCanceling
    then show ?thesis by (intro exI [of _ SubCancel]) (simp add: environment_act_def guarded_def)
  next
    case SEnding
    then show ?thesis by (intro exI [of _ CloseChannel]) (simp add: environment_act_def guarded_def)
  next
    case SEnded
    show ?thesis
    proof (cases "lc_callback s = CHandling")
      case True
      then show ?thesis using d by (intro exI [of _ CallbackDone]) (simp add: environment_act_def guarded_def callback_step_def)
    next
      case False
      then have "lc_notify s \<in> {NWait, NSend}" using assms(3) HDone SEnded
        by (cases "lc_notify s") (auto simp: lc_finished_def)
      then show ?thesis using d by (intro exI [of _ NotifyDone]) (auto simp: environment_act_def guarded_def)
    qed
  qed
qed

subsection \<open>Properties\<close>


text \<open>
  The client leaves while a message waits in the subscriber and another in the callback, and the
  broker closes the consumer.
\<close>

definition lc_example :: "lc_act list" where
  "lc_example = [Consuming, Dispatch, Message True, Dispatch, BrokerCloses, NotifyEvent, ClientLeaves, Gone,
     HandlerCancel, HandlerStop]"

definition lc_example_end :: "lc_act list" where
  "lc_example_end = [NotifyPut, GiveUp, CloseStream, SubCancel, CallbackDone, CloseChannel]"


end
