(* ===== verification/Publisher_Conc.thy ===== *)
theory Publisher_Conc
  imports Publisher
begin

text \<open>
  \<open>Publish\<close> called by several goroutines at once: \<open>ensureConnection\<close> under the mutex \<open>connMu\<close>,
  \<open>tryPublish\<close> under \<open>publishMu\<close>, as steps with one access to the shared fields each, in any
  interleaving.  \<open>Publisher\<close> has the calls one after the other.
\<close>

subsection \<open>State\<close>

text \<open>
  Every dial makes a new connection with one channel, named by a number: whether connection and
  channel are open, whether the channel is in confirm mode (the broker answers only messages that
  were published in it), whether \<open>NotifyPublish\<close> has registered a listener, the messages the broker
  has not answered, and the confirmations that were not read.
\<close>

record 'm connection =
  cn_open :: bool
  cn_chan :: bool
  cn_confirming :: bool
  cn_listening :: bool
  cn_unanswered :: "'m list"
  cn_confirms :: "('m \<times> bool) list"

definition closed_connection :: "'m connection" where
  "closed_connection = \<lparr>cn_open = False, cn_chan = False, cn_confirming = False,
     cn_listening = False, cn_unanswered = [], cn_confirms = []\<rparr>"

text \<open>
  Where a goroutine is.  From \<open>PEnsure\<close> on it wants a connection, from \<open>PDial\<close> to \<open>PNotifyPublish\<close>
  it holds \<open>connMu\<close>, \<open>PWant\<close> wants \<open>publishMu\<close>, which is held from \<open>PCheck\<close> to \<open>PEnd\<close>.  A \<open>select\<close>
  has read the three notification fields when it waits.  \<open>PEnd\<close> has the result of the attempt and
  whether its context has ended, which \<open>CloseOnTimeout\<close> asks.
\<close>

datatype 'm pub_pc =
    PIdle | PEnsure 'm | PDial 'm | PNotifyConn 'm | PChannel 'm | PConfirmMode 'm | PReset 'm | PNotifyChan 'm
  | PNotifyPublish 'm | PWant 'm | PCheck 'm | PDrain 'm "nat option" "nat option" "nat option" | PSend 'm | PMark 'm
  | PSelect 'm | PAwait 'm "nat option" "nat option" "nat option" | PEnd 'm bool bool | PFailed 'm | PPanicked

record 'm shared =
  sh_conns :: "nat \<Rightarrow> 'm connection"
  sh_next :: nat
  sh_conn :: "nat option"
  sh_channel :: "nat option"
  sh_connClosures :: "nat option"
  sh_chanClosures :: "nat option"
  sh_confirmations :: "nat option"
  sh_hasOutstanding :: bool
  sh_connMu :: "nat option"
  sh_publishMu :: "nat option"
  sh_pc :: "nat \<Rightarrow> 'm pub_pc"
  sh_acked :: "'m list"
  sh_published :: "'m list"

text \<open>\<open>sh_acked\<close>: what the broker has acknowledged.  \<open>sh_published\<close>: what \<open>Publish\<close> has returned nil for.\<close>

definition sh_init :: "'m shared" where
  "sh_init = \<lparr>sh_conns = (\<lambda>_. closed_connection), sh_next = 0, sh_conn = None, sh_channel = None,
     sh_connClosures = None, sh_chanClosures = None, sh_confirmations = None, sh_hasOutstanding = False,
     sh_connMu = None, sh_publishMu = None, sh_pc = (\<lambda>_. PIdle), sh_acked = [], sh_published = []\<rparr>"

subsection \<open>Steps\<close>

definition at :: "nat \<Rightarrow> 'm pub_pc \<Rightarrow> 'm shared \<Rightarrow> 'm shared" where
  "at i pc s = s\<lparr>sh_pc := (sh_pc s)(i := pc)\<rparr>"

definition on_conn :: "nat \<Rightarrow> ('m connection \<Rightarrow> 'm connection) \<Rightarrow> 'm shared \<Rightarrow> 'm shared" where
  "on_conn g f s = s\<lparr>sh_conns := (sh_conns s)(g := f (sh_conns s g))\<rparr>"

text \<open>Closing a connection closes its channel and the notification channels.\<close>

definition shut :: "'m connection \<Rightarrow> 'm connection" where
  "shut c = c\<lparr>cn_open := False, cn_chan := False\<rparr>"

definition close_current :: "'m shared \<Rightarrow> 'm shared" where
  "close_current s = (case sh_conn s of None \<Rightarrow> s | Some g \<Rightarrow> on_conn g shut s)"

definition must_connect :: "'m shared \<Rightarrow> bool" where
  "must_connect s =
     (case sh_conn s of None \<Rightarrow> True | Some g \<Rightarrow> sh_channel s = None \<or> \<not> cn_open (sh_conns s g))"

text \<open>
  What decides a step where the code leaves it open: the answer of the AMQP library (\<open>Go\<close> or \<open>Fail\<close>,
  \<open>Malformed\<close> for the URL), the case of a \<open>select\<close>, or the end of a context.
\<close>

datatype 'm choice = Begin 'm | Go | Fail | Malformed | Take pick

text \<open>\<open>ensureConnection\<close>; the mutex is released with the last step and with every error.\<close>

fun ensure_step :: "nat \<Rightarrow> 'm choice \<Rightarrow> 'm shared \<Rightarrow> 'm shared option" where
  "ensure_step i ch s =
     (case sh_pc s i of
        PEnsure m \<Rightarrow>
          (if sh_connMu s \<noteq> None then None
           else if must_connect s then Some (at i (PDial m) (close_current (s\<lparr>sh_connMu := Some i\<rparr>)))
           else Some (at i (PWant m) s))
      | PDial m \<Rightarrow>
          (case ch of
             Go \<Rightarrow> Some (at i (PNotifyConn m)
                 (on_conn (sh_next s) (\<lambda>_. closed_connection\<lparr>cn_open := True\<rparr>)
                    (s\<lparr>sh_conn := Some (sh_next s), sh_next := Suc (sh_next s)\<rparr>)))
           | Fail \<Rightarrow> Some (at i (PFailed m) (s\<lparr>sh_conn := None, sh_connMu := None\<rparr>))
           | Malformed \<Rightarrow> Some (at i (PFailed m) (s\<lparr>sh_connMu := None\<rparr>))
           | _ \<Rightarrow> None)
      | PNotifyConn m \<Rightarrow> Some (at i (PChannel m) (s\<lparr>sh_connClosures := sh_conn s\<rparr>))
      | PChannel m \<Rightarrow>
          (case (ch, sh_conn s) of
             (Go, Some g) \<Rightarrow>
               if cn_open (sh_conns s g)
               then Some (at i (PConfirmMode m) (on_conn g (\<lambda>c. c\<lparr>cn_chan := True\<rparr>) (s\<lparr>sh_channel := Some g\<rparr>)))
               else None
           | (Fail, _) \<Rightarrow> Some (at i (PFailed m) (s\<lparr>sh_channel := None, sh_connMu := None\<rparr>))
           | _ \<Rightarrow> None)
      | PConfirmMode m \<Rightarrow>
          (case ch of
             Go \<Rightarrow>
               (case sh_channel s of
                  None \<Rightarrow> None
                | Some g \<Rightarrow> Some (at i (PReset m) (on_conn g (\<lambda>c. c\<lparr>cn_confirming := True\<rparr>) s)))
           | Fail \<Rightarrow> Some (at i (PFailed m) (close_current (s\<lparr>sh_connMu := None\<rparr>)))
           | _ \<Rightarrow> None)
      | PReset m \<Rightarrow> Some (at i (PNotifyChan m) (s\<lparr>sh_hasOutstanding := False\<rparr>))
      | PNotifyChan m \<Rightarrow> Some (at i (PNotifyPublish m) (s\<lparr>sh_chanClosures := sh_channel s\<rparr>))
      | PNotifyPublish m \<Rightarrow>
          (case sh_channel s of
             None \<Rightarrow> Some (at i PPanicked (s\<lparr>sh_connMu := None\<rparr>))
           | Some g \<Rightarrow>
               Some (at i (PWant m) (on_conn g (\<lambda>c. c\<lparr>cn_listening := True\<rparr>)
                 (s\<lparr>sh_confirmations := Some g, sh_connMu := None\<rparr>))))
      | _ \<Rightarrow> None)"

text \<open>
  The \<open>select\<close> of \<open>awaitConfirmation\<close> on the channels it has read: a nil channel is never ready, one
  of a closed connection or channel always is, and a closed channel of confirmations gives the zero
  value once it is empty.
\<close>

definition select_ready ::
  "pick \<Rightarrow> nat option \<Rightarrow> nat option \<Rightarrow> nat option \<Rightarrow> 'm shared \<Rightarrow> (bool option \<times> 'm shared) option" where
  "select_ready k a b c s =
     (case k of
        PConn \<Rightarrow> (case a of Some g \<Rightarrow> if cn_open (sh_conns s g) then None else Some (None, s) | None \<Rightarrow> None)
      | PChan \<Rightarrow> (case b of Some g \<Rightarrow> if cn_chan (sh_conns s g) then None else Some (None, s) | None \<Rightarrow> None)
      | PConfirm \<Rightarrow>
          (case c of
             None \<Rightarrow> None
           | Some g \<Rightarrow>
               (case cn_confirms (sh_conns s g) of
                  (m, ack) # cs \<Rightarrow>
                    Some (Some ack, (on_conn g (\<lambda>x. x\<lparr>cn_confirms := cs\<rparr>) s)\<lparr>sh_hasOutstanding := False\<rparr>)
                | [] \<Rightarrow>
                    if cn_chan (sh_conns s g) then None else Some (Some False, s\<lparr>sh_hasOutstanding := False\<rparr>)))
      | PCtx \<Rightarrow> Some (None, s))"

text \<open>
  \<open>tryPublish\<close> under \<open>publishMu\<close>.  Publishing on a nil channel panics, on a closed one it fails.  At
  the end \<open>CloseOnTimeout\<close> closes the connection when the context has ended, which it may also have
  done after the last \<open>select\<close>; for that it takes \<open>connMu\<close>.
\<close>

fun publish_step :: "nat \<Rightarrow> 'm choice \<Rightarrow> 'm shared \<Rightarrow> 'm shared option" where
  "publish_step i ch s =
     (case sh_pc s i of
        PWant m \<Rightarrow> if sh_publishMu s = None then Some (at i (PCheck m) (s\<lparr>sh_publishMu := Some i\<rparr>)) else None
      | PCheck m \<Rightarrow>
          Some (at i (if sh_hasOutstanding s
                      then PDrain m (sh_connClosures s) (sh_chanClosures s) (sh_confirmations s) else PSend m) s)
      | PDrain m a b c \<Rightarrow>
          (case ch of
             Take k \<Rightarrow>
               (case select_ready k a b c s of
                  None \<Rightarrow> None
                | Some (None, s') \<Rightarrow> Some (at i (PEnd m False (k = PCtx)) s')
                | Some (Some _, s') \<Rightarrow> Some (at i (PSend m) s'))
           | _ \<Rightarrow> None)
      | PSend m \<Rightarrow>
          (case sh_channel s of
             None \<Rightarrow> Some (at i PPanicked (s\<lparr>sh_publishMu := None\<rparr>))
           | Some g \<Rightarrow>
               if ch = Go \<and> cn_chan (sh_conns s g)
               then Some (at i (PMark m) (on_conn g (\<lambda>x.
                   x\<lparr>cn_unanswered := (if cn_confirming x then cn_unanswered x @ [m] else cn_unanswered x)\<rparr>) s))
               else if ch = Fail then Some (at i (PEnd m False False) s)
               else None)
      | PMark m \<Rightarrow> Some (at i (PSelect m) (s\<lparr>sh_hasOutstanding := True\<rparr>))
      | PSelect m \<Rightarrow> Some (at i (PAwait m (sh_connClosures s) (sh_chanClosures s) (sh_confirmations s)) s)
      | PAwait m a b c \<Rightarrow>
          (case ch of
             Take k \<Rightarrow>
               (case select_ready k a b c s of
                  None \<Rightarrow> None
                | Some (r, s') \<Rightarrow> Some (at i (PEnd m (r = Some True) (k = PCtx)) s'))
           | _ \<Rightarrow> None)
      | PEnd m ok ended \<Rightarrow>
          (if ended \<or> ch = Fail then
             (if sh_connMu s = None
              then Some (at i (if ok then PIdle else PFailed m) ((close_current s)\<lparr>sh_publishMu := None,
                     sh_published := (if ok then m # sh_published s else sh_published s)\<rparr>))
              else None)
           else Some (at i (if ok then PIdle else PFailed m) (s\<lparr>sh_publishMu := None,
                  sh_published := (if ok then m # sh_published s else sh_published s)\<rparr>)))
      | _ \<Rightarrow> None)"

text \<open>
  \<open>Publish\<close>: a call begins, and a failed attempt is tried again unless the caller's context has ended.
\<close>

fun goroutine_step :: "nat \<Rightarrow> 'm choice \<Rightarrow> 'm shared \<Rightarrow> 'm shared option" where
  "goroutine_step i ch s =
     (case sh_pc s i of
        PIdle \<Rightarrow> (case ch of Begin m \<Rightarrow> Some (at i (PEnsure m) s) | _ \<Rightarrow> None)
      | PFailed m \<Rightarrow> Some (at i (if ch = Fail then PIdle else PEnsure m) s)
      | _ \<Rightarrow> (case ensure_step i ch s of Some s' \<Rightarrow> Some s' | None \<Rightarrow> publish_step i ch s))"

text \<open>The broker answers the oldest message, or closes a channel or a connection.\<close>

datatype 'm pub_act = Run nat "'m choice" | Answer nat bool | CloseChan nat | CloseConn nat

definition answer :: "nat \<Rightarrow> bool \<Rightarrow> 'm shared \<Rightarrow> 'm shared option" where
  "answer g a s =
     (case cn_unanswered (sh_conns s g) of
        [] \<Rightarrow> None
      | m # ms \<Rightarrow>
          if cn_chan (sh_conns s g) then
            Some ((on_conn g (\<lambda>c. c\<lparr>cn_unanswered := ms,
                     cn_confirms := (if cn_listening c then cn_confirms c @ [(m, a)] else cn_confirms c)\<rparr>) s)
                   \<lparr>sh_acked := (if a then m # sh_acked s else sh_acked s)\<rparr>)
          else None)"

fun pub_step :: "'m pub_act \<Rightarrow> 'm shared \<Rightarrow> 'm shared option" where
  "pub_step (Run i ch) s = goroutine_step i ch s"
| "pub_step (Answer g a) s = answer g a s"
| "pub_step (CloseChan g) s = Some (on_conn g (\<lambda>c. c\<lparr>cn_chan := False\<rparr>) s)"
| "pub_step (CloseConn g) s = Some (on_conn g shut s)"

fun pub_run :: "'m pub_act list \<Rightarrow> 'm shared \<Rightarrow> 'm shared option" where
  "pub_run [] s = Some s"
| "pub_run (a # as) s = (case pub_step a s of None \<Rightarrow> None | Some s' \<Rightarrow> pub_run as s')"

subsection \<open>The mutexes\<close>

fun dialing :: "'m pub_pc \<Rightarrow> bool" where
  "dialing (PDial _) = True" | "dialing (PNotifyConn _) = True" | "dialing (PChannel _) = True"
| "dialing (PConfirmMode _) = True" | "dialing (PReset _) = True" | "dialing (PNotifyChan _) = True"
| "dialing (PNotifyPublish _) = True" | "dialing _ = False"

fun publishing :: "'m pub_pc \<Rightarrow> bool" where
  "publishing (PCheck _) = True" | "publishing (PDrain _ _ _ _) = True" | "publishing (PSend _) = True"
| "publishing (PMark _) = True" | "publishing (PSelect _) = True" | "publishing (PAwait _ _ _ _) = True"
| "publishing (PEnd _ _ _) = True" | "publishing _ = False"

text \<open>Each mutex is held by exactly the goroutine that is in its part of the code.\<close>

definition held :: "'m shared \<Rightarrow> bool" where
  "held s = (\<forall>i. (sh_connMu s = Some i \<longleftrightarrow> dialing (sh_pc s i)) \<and> (sh_publishMu s = Some i \<longleftrightarrow> publishing (sh_pc s i)))"

lemma held_init: "held sh_init" by (simp add: held_def sh_init_def)

lemma at_simps [simp]:
  "sh_pc (at i pc s) = (sh_pc s)(i := pc)" "sh_conns (at i pc s) = sh_conns s" "sh_next (at i pc s) = sh_next s"
  "sh_conn (at i pc s) = sh_conn s" "sh_channel (at i pc s) = sh_channel s"
  "sh_connClosures (at i pc s) = sh_connClosures s" "sh_chanClosures (at i pc s) = sh_chanClosures s"
  "sh_confirmations (at i pc s) = sh_confirmations s" "sh_hasOutstanding (at i pc s) = sh_hasOutstanding s"
  "sh_connMu (at i pc s) = sh_connMu s" "sh_publishMu (at i pc s) = sh_publishMu s" "sh_acked (at i pc s) = sh_acked s"
  "sh_published (at i pc s) = sh_published s"
  by (simp_all add: at_def)

lemma on_conn_simps [simp]:
  "sh_pc (on_conn g f s) = sh_pc s" "sh_conns (on_conn g f s) = (sh_conns s)(g := f (sh_conns s g))"
  "sh_next (on_conn g f s) = sh_next s" "sh_conn (on_conn g f s) = sh_conn s" "sh_channel (on_conn g f s) = sh_channel s"
  "sh_connClosures (on_conn g f s) = sh_connClosures s" "sh_chanClosures (on_conn g f s) = sh_chanClosures s"
  "sh_confirmations (on_conn g f s) = sh_confirmations s" "sh_hasOutstanding (on_conn g f s) = sh_hasOutstanding s"
  "sh_connMu (on_conn g f s) = sh_connMu s" "sh_publishMu (on_conn g f s) = sh_publishMu s"
  "sh_acked (on_conn g f s) = sh_acked s" "sh_published (on_conn g f s) = sh_published s"
  by (simp_all add: on_conn_def)

lemma close_current_simps [simp]:
  "sh_pc (close_current s) = sh_pc s" "sh_next (close_current s) = sh_next s" "sh_conn (close_current s) = sh_conn s"
  "sh_channel (close_current s) = sh_channel s" "sh_connClosures (close_current s) = sh_connClosures s"
  "sh_chanClosures (close_current s) = sh_chanClosures s" "sh_confirmations (close_current s) = sh_confirmations s"
  "sh_hasOutstanding (close_current s) = sh_hasOutstanding s" "sh_connMu (close_current s) = sh_connMu s"
  "sh_publishMu (close_current s) = sh_publishMu s" "sh_acked (close_current s) = sh_acked s"
  "sh_published (close_current s) = sh_published s"
  by (auto simp: close_current_def split: option.splits)

text \<open>What a step of a goroutine leaves alone, and how it moves the mutexes.\<close>

lemma select_ready_keeps:
  assumes "select_ready k a b c s = Some (r, s')"
  shows "sh_connMu s' = sh_connMu s \<and> sh_publishMu s' = sh_publishMu s \<and> sh_pc s' = sh_pc s
    \<and> sh_channel s' = sh_channel s \<and> sh_conn s' = sh_conn s \<and> sh_confirmations s' = sh_confirmations s
    \<and> sh_next s' = sh_next s \<and> sh_acked s' = sh_acked s \<and> sh_published s' = sh_published s
    \<and> (\<forall>g. set (cn_confirms (sh_conns s' g)) \<subseteq> set (cn_confirms (sh_conns s g))
          \<and> (sh_conns s g = closed_connection \<longrightarrow> sh_conns s' g = closed_connection))"
  using assms
  by (auto simp: select_ready_def closed_connection_def split: pick.splits option.splits if_splits list.splits)

lemma held_goroutine:
  assumes h: "held s" and st: "goroutine_step i ch s = Some s'"
  shows "held s'"
proof -
  have c: "sh_connMu s = Some i \<longleftrightarrow> dialing (sh_pc s i)" and p: "sh_publishMu s = Some i \<longleftrightarrow> publishing (sh_pc s i)"
    using h by (simp_all add: held_def)
  have o1: "sh_pc s' j = sh_pc s j" if "j \<noteq> i" for j
    using st that
    by (cases "sh_pc s i") (auto split: choice.splits option.splits if_splits dest!: select_ready_keeps)
  have o2: "(sh_connMu s' = sh_connMu s \<and> dialing (sh_pc s' i) = dialing (sh_pc s i))
     \<or> (sh_connMu s = None \<and> sh_connMu s' = Some i \<and> dialing (sh_pc s' i))
     \<or> (sh_connMu s = Some i \<and> sh_connMu s' = None \<and> \<not> dialing (sh_pc s' i))"
    using st c
    by (cases "sh_pc s i") (auto split: choice.splits option.splits if_splits dest!: select_ready_keeps)
  have o3: "(sh_publishMu s' = sh_publishMu s \<and> publishing (sh_pc s' i) = publishing (sh_pc s i))
     \<or> (sh_publishMu s = None \<and> sh_publishMu s' = Some i \<and> publishing (sh_pc s' i))
     \<or> (sh_publishMu s = Some i \<and> sh_publishMu s' = None \<and> \<not> publishing (sh_pc s' i))"
    using st p
    by (cases "sh_pc s i") (auto split: choice.splits option.splits if_splits dest!: select_ready_keeps)
  show ?thesis unfolding held_def
  proof
    fix j
    have hj: "sh_connMu s = Some j \<longleftrightarrow> dialing (sh_pc s j)" "sh_publishMu s = Some j \<longleftrightarrow> publishing (sh_pc s j)"
      using h by (simp_all add: held_def)
    show "(sh_connMu s' = Some j \<longleftrightarrow> dialing (sh_pc s' j)) \<and> (sh_publishMu s' = Some j \<longleftrightarrow> publishing (sh_pc s' j))"
    proof (cases "j = i")
      case True
      then show ?thesis using o2 o3 c p by auto
    next
      case False
      then show ?thesis using o2 o3 o1 [OF False] hj by auto
    qed
  qed
qed

lemma held_step: "held s \<Longrightarrow> pub_step a s = Some s' \<Longrightarrow> held s'"
proof (cases a)
  case (Run i ch)
  then show "held s \<Longrightarrow> pub_step a s = Some s' \<Longrightarrow> held s'" using held_goroutine by simp
qed (auto simp: held_def answer_def split: list.splits if_splits)

lemma held_run: "held s \<Longrightarrow> pub_run as s = Some s' \<Longrightarrow> held s'"
  by (induction as arbitrary: s) (auto split: option.splits dest: held_step)

subsection \<open>Publishing while nobody reconnects\<close>

text \<open>
  The code only keeps reconnecting goroutines apart from each other, and publishing ones from each
  other.  What follows is for the executions in which no goroutine sets up a connection while
  another one publishes.
\<close>

definition exclusive :: "'m shared \<Rightarrow> bool" where
  "exclusive s = (sh_connMu s = None \<or> sh_publishMu s = None)"

fun exclusive_run :: "'m pub_act list \<Rightarrow> 'm shared \<Rightarrow> bool" where
  "exclusive_run [] s = exclusive s"
| "exclusive_run (a # as) s =
     (exclusive s \<and> (case pub_step a s of None \<Rightarrow> True | Some s' \<Rightarrow> exclusive_run as s'))"

definition only :: "nat \<Rightarrow> 'm \<Rightarrow> 'm shared \<Rightarrow> bool" where
  "only g m s =
     (\<forall>x. x \<in> set (cn_unanswered (sh_conns s g)) \<union> fst ` set (cn_confirms (sh_conns s g)) \<longrightarrow> x = m)"

definition pending :: "nat \<Rightarrow> 'm shared \<Rightarrow> nat" where
  "pending g s = length (cn_unanswered (sh_conns s g)) + length (cn_confirms (sh_conns s g))"

fun marking :: "'m pub_pc \<Rightarrow> bool" where
  "marking (PMark _) = True" | "marking _ = False"

text \<open>The shared fields belong together, and at most one message is out on an open channel.\<close>

definition in_sync :: "'m shared \<Rightarrow> bool" where
  "in_sync s =
     (\<forall>g. sh_channel s = Some g \<and> cn_chan (sh_conns s g) \<longrightarrow>
        sh_conn s = Some g \<and> sh_confirmations s = Some g
        \<and> pending g s \<le> (if sh_hasOutstanding s \<or> (\<exists>i. sh_publishMu s = Some i \<and> marking (sh_pc s i)) then 1 else 0))"

definition shut_down :: "'m shared \<Rightarrow> bool" where
  "shut_down s = (\<forall>g. sh_channel s = Some g \<longrightarrow> \<not> cn_chan (sh_conns s g))"

definition fresh_conn :: "'m shared \<Rightarrow> bool" where
  "fresh_conn s = (\<exists>g. sh_conn s = Some g \<and> pending g s = 0 \<and> sh_channel s \<noteq> Some g)"

definition fresh_channel :: "'m shared \<Rightarrow> bool" where
  "fresh_channel s = (\<exists>g. sh_conn s = Some g \<and> sh_channel s = Some g \<and> pending g s = 0)"

text \<open>What the goroutine that holds \<open>connMu\<close>, or \<open>publishMu\<close>, relies on.\<close>

fun dial_ok :: "'m pub_pc \<Rightarrow> 'm shared \<Rightarrow> bool" where
  "dial_ok (PDial _) s = shut_down s"
| "dial_ok (PNotifyConn _) s = (shut_down s \<and> fresh_conn s)"
| "dial_ok (PChannel _) s = (shut_down s \<and> fresh_conn s)"
| "dial_ok (PConfirmMode _) s = fresh_channel s"
| "dial_ok (PReset _) s = fresh_channel s"
| "dial_ok (PNotifyChan _) s = (fresh_channel s \<and> \<not> sh_hasOutstanding s)"
| "dial_ok (PNotifyPublish _) s = (fresh_channel s \<and> \<not> sh_hasOutstanding s)"
| "dial_ok _ s = True"

definition sent_alone :: "'m \<Rightarrow> nat option \<Rightarrow> 'm shared \<Rightarrow> bool" where
  "sent_alone m c s = (\<forall>g. c = Some g \<longrightarrow> only g m s)"

fun pub_ok :: "'m pub_pc \<Rightarrow> 'm shared \<Rightarrow> bool" where
  "pub_ok (PDrain m a b c) s = (c = sh_confirmations s)"
| "pub_ok (PSend m) s = (\<not> sh_hasOutstanding s)"
| "pub_ok (PMark m) s = sent_alone m (sh_confirmations s) s"
| "pub_ok (PSelect m) s = (sent_alone m (sh_confirmations s) s \<and> sh_hasOutstanding s)"
| "pub_ok (PAwait m a b c) s = (c = sh_confirmations s \<and> sent_alone m c s \<and> sh_hasOutstanding s)"
| "pub_ok (PEnd m ok e) s = (ok \<longrightarrow> m \<in> set (sh_acked s))"
| "pub_ok _ s = True"

definition acks_true :: "'m shared \<Rightarrow> bool" where
  "acks_true s = ((\<forall>g m. (m, True) \<in> set (cn_confirms (sh_conns s g)) \<longrightarrow> m \<in> set (sh_acked s))
     \<and> set (sh_published s) \<subseteq> set (sh_acked s))"

definition numbered :: "'m shared \<Rightarrow> bool" where
  "numbered s =
     ((\<forall>g \<ge> sh_next s. sh_conns s g = closed_connection)
      \<and> (\<forall>g. sh_channel s = Some g \<or> sh_conn s = Some g \<or> sh_confirmations s = Some g \<longrightarrow> g < sh_next s))"

definition pub_safe :: "'m shared \<Rightarrow> bool" where
  "pub_safe s =
     (acks_true s \<and> numbered s \<and> (sh_connMu s = None \<longrightarrow> in_sync s)
      \<and> (\<forall>i. sh_connMu s = Some i \<longrightarrow> dial_ok (sh_pc s i) s)
      \<and> (\<forall>i. sh_publishMu s = Some i \<longrightarrow> pub_ok (sh_pc s i) s))"

lemma pub_safe_init: "pub_safe sh_init"
  by (simp add: pub_safe_def sh_init_def acks_true_def numbered_def in_sync_def closed_connection_def)

text \<open>The environment answers messages and closes things: whatever is pending only shrinks.\<close>

definition shrinks :: "'m shared \<Rightarrow> 'm shared \<Rightarrow> bool" where
  "shrinks s s' =
     (sh_pc s' = sh_pc s \<and> sh_next s' = sh_next s \<and> sh_conn s' = sh_conn s \<and> sh_channel s' = sh_channel s
      \<and> sh_confirmations s' = sh_confirmations s \<and> sh_hasOutstanding s' = sh_hasOutstanding s
      \<and> sh_connMu s' = sh_connMu s \<and> sh_publishMu s' = sh_publishMu s
      \<and> (\<forall>g. (cn_chan (sh_conns s' g) \<longrightarrow> cn_chan (sh_conns s g)) \<and> pending g s' \<le> pending g s
            \<and> (\<forall>m. only g m s \<longrightarrow> only g m s')
            \<and> (sh_conns s g = closed_connection \<longrightarrow> sh_conns s' g = closed_connection)))"

lemma shrinks_safe:
  assumes "shrinks s s'" "acks_true s'" "set (sh_acked s) \<subseteq> set (sh_acked s')" "pub_safe s"
  shows "pub_safe s'"
proof -
  note sh = assms(1) [unfolded shrinks_def]
  have le: "pending g s' \<le> pending g s" for g using sh by blast
  have sy: "in_sync s \<Longrightarrow> in_sync s'"
    using sh order_trans [OF le] unfolding in_sync_def by simp
  have sd: "shut_down s \<Longrightarrow> shut_down s'" using assms(1) by (auto simp: shut_down_def shrinks_def)
  have fc: "fresh_conn s \<Longrightarrow> fresh_conn s'" "fresh_channel s \<Longrightarrow> fresh_channel s'"
    using sh le_zero_eq unfolding fresh_conn_def fresh_channel_def by (metis, metis)
  have d: "dial_ok pc s \<Longrightarrow> dial_ok pc s'" for pc
    using assms(1) sd fc by (cases pc) (auto simp: shrinks_def)
  have sa: "sent_alone m c s \<Longrightarrow> sent_alone m c s'" for m c using assms(1) by (auto simp: sent_alone_def shrinks_def)
  have p: "pub_ok pc s \<Longrightarrow> pub_ok pc s'" for pc
    using assms(1,3) sa by (cases pc) (auto simp: shrinks_def)
  have n: "numbered s \<Longrightarrow> numbered s'" using assms(1) by (auto simp: numbered_def shrinks_def)
  show ?thesis using assms(1,2,4) sy d p n by (auto simp: pub_safe_def shrinks_def)
qed

lemma shut_shrinks: "shrinks s (on_conn g shut s)" "shrinks s (on_conn g (\<lambda>c. c\<lparr>cn_chan := False\<rparr>) s)"
  by (auto simp: shrinks_def shut_def pending_def only_def closed_connection_def)

lemma pub_safe_shut: "pub_safe s \<Longrightarrow> pub_safe (on_conn g shut s)" "pub_safe s \<Longrightarrow> pub_safe (on_conn g (\<lambda>c. c\<lparr>cn_chan := False\<rparr>) s)"
  by (rule shrinks_safe [OF shut_shrinks(1)]; auto simp: pub_safe_def acks_true_def shut_def)
     (rule shrinks_safe [OF shut_shrinks(2)]; auto simp: pub_safe_def acks_true_def)

lemma answer_safe:
  assumes "pub_safe s" "answer g a s = Some s'"
  shows "pub_safe s'"
proof (rule shrinks_safe [OF _ _ _ assms(1)])
  obtain m ms where u: "cn_unanswered (sh_conns s g) = m # ms" and s': "s' = (on_conn g (\<lambda>c. c\<lparr>cn_unanswered := ms,
                     cn_confirms := (if cn_listening c then cn_confirms c @ [(m, a)] else cn_confirms c)\<rparr>) s)
                   \<lparr>sh_acked := (if a then m # sh_acked s else sh_acked s)\<rparr>"
    using assms(2) by (auto simp: answer_def split: list.splits if_splits)
  show "shrinks s s'" using u by (auto simp: s' shrinks_def pending_def only_def closed_connection_def)
  show "set (sh_acked s) \<subseteq> set (sh_acked s')" by (auto simp: s')
  show "acks_true s'" using assms(1) by (auto simp: s' pub_safe_def acks_true_def)
qed

text \<open>A step that moves a goroutine which holds nothing, and changes nothing else.\<close>

lemma pub_safe_at:
  assumes "pub_safe s" "sh_connMu s \<noteq> Some i" "sh_publishMu s \<noteq> Some i"
  shows "pub_safe (at i pc s)"
proof -
  have d: "dial_ok p (at i pc s) = dial_ok p s" for p
    by (cases p) (simp_all add: shut_down_def fresh_conn_def fresh_channel_def pending_def)
  have q: "pub_ok p (at i pc s) = pub_ok p s" for p
    by (cases p) (simp_all add: sent_alone_def only_def)
  have "in_sync (at i pc s) = in_sync s"
    using assms(3) by (auto simp: in_sync_def pending_def)
  moreover have "acks_true (at i pc s) = acks_true s" "numbered (at i pc s) = numbered s"
    by (simp_all add: acks_true_def numbered_def)
  ultimately show ?thesis using assms d q by (simp add: pub_safe_def)
qed

lemma close_current_cases: "close_current s = s \<and> sh_conn s = None \<or> (\<exists>g. sh_conn s = Some g \<and> close_current s = on_conn g shut s)"
  by (simp add: close_current_def split: option.splits)

lemma close_current_conns:
  "sh_conns (close_current s) g = (if sh_conn s = Some g then shut (sh_conns s g) else sh_conns s g)"
  by (auto simp: close_current_def split: option.splits)

lemma acks_true_close [simp]: "acks_true (close_current s) = acks_true s"
  by (auto simp: acks_true_def close_current_conns shut_def)

lemma numbered_close: "numbered s \<Longrightarrow> numbered (close_current s)"
  by (auto simp: numbered_def close_current_conns shut_def closed_connection_def)

text \<open>Confirmations are only read, and connections numbered on, by the goroutines.\<close>

lemma closed_connection_simps:
  "cn_confirms closed_connection = []" "cn_unanswered closed_connection = []" "\<not> cn_chan closed_connection"
  by (simp_all add: closed_connection_def)

lemma confirms_step:
  assumes "goroutine_step i ch s = Some s'"
  shows "sh_acked s' = sh_acked s \<and> (\<forall>g. set (cn_confirms (sh_conns s' g)) \<subseteq> set (cn_confirms (sh_conns s g)))"
proof -
  have cc: "cn_confirms (sh_conns (close_current t) g) = cn_confirms (sh_conns t g)" for t :: "'a shared" and g
    by (simp add: close_current_conns shut_def)
  show ?thesis using assms
    by (cases "sh_pc s i"; (auto simp: cc closed_connection_simps split: choice.splits option.splits if_splits
         dest!: select_ready_keeps; blast))
qed

lemma numbered_step:
  assumes "numbered s" "goroutine_step i ch s = Some s'"
  shows "numbered s'"
proof -
  have sc: "shut closed_connection = closed_connection" by (simp add: shut_def closed_connection_def)
  show ?thesis using assms
    by (cases "sh_pc s i")
       (auto simp: numbered_def close_current_conns sc less_SucI
          split: choice.splits option.splits if_splits dest!: select_ready_keeps)
qed

text \<open>What remains to be shown of a step.\<close>

lemma pub_safeI:
  assumes "pub_safe s" "goroutine_step i ch s = Some s'"
    and "set (sh_published s') \<subseteq> set (sh_acked s')"
    and "sh_connMu s' = None \<Longrightarrow> in_sync s'"
    and "\<And>j. sh_connMu s' = Some j \<Longrightarrow> dial_ok (sh_pc s' j) s'"
    and "\<And>j. sh_publishMu s' = Some j \<Longrightarrow> pub_ok (sh_pc s' j) s'"
  shows "pub_safe s'"
proof -
  have n: "numbered s'" using numbered_step [OF _ assms(2)] assms(1) by (simp add: pub_safe_def)
  have c: "sh_acked s' = sh_acked s" "\<And>g. set (cn_confirms (sh_conns s' g)) \<subseteq> set (cn_confirms (sh_conns s g))"
    using confirms_step [OF assms(2)] by blast+
  have a: "m \<in> set (sh_acked s)" if "(m, True) \<in> set (cn_confirms (sh_conns s g))" for g m
    using assms(1) that unfolding pub_safe_def acks_true_def by blast
  have "acks_true s'" unfolding acks_true_def using a c(1) subsetD [OF c(2)] assms(3) by metis
  then show ?thesis using n assms(4-6) by (simp add: pub_safe_def)
qed

lemma pub_safe_published: "pub_safe s \<Longrightarrow> set (sh_published s) \<subseteq> set (sh_acked s)"
  by (simp add: pub_safe_def acks_true_def)

text \<open>The goroutine that sets up a connection: nobody publishes meanwhile.\<close>

lemma dial_safe:
  assumes s: "pub_safe s" "held s" "exclusive s" and d: "sh_connMu s = Some i" and st: "goroutine_step i ch s = Some s'"
  shows "pub_safe s'"
proof (rule pub_safeI [OF s(1) st])
  have p: "sh_publishMu s = None" using s(3) d by (simp add: exclusive_def)
  have ok: "dial_ok (sh_pc s i) s" using s(1) d by (simp add: pub_safe_def)
  have pc: "dialing (sh_pc s i)" using s(2) d unfolding held_def by blast
  have n: "sh_channel s \<noteq> Some (sh_next s)" using s(1) by (auto simp: pub_safe_def numbered_def)
  note defs = in_sync_def shut_down_def fresh_conn_def fresh_channel_def pending_def
  show "set (sh_published s') \<subseteq> set (sh_acked s')"
    using st pub_safe_published [OF s(1)] pc by (cases "sh_pc s i") (auto split: choice.splits option.splits if_splits)
  show "in_sync s'" if "sh_connMu s' = None"
    using that st ok pc p d
    by (cases "sh_pc s i")
       (auto simp: defs close_current_conns shut_def split: choice.splits option.splits if_splits)
  show "dial_ok (sh_pc s' j) s'" if "sh_connMu s' = Some j" for j
    using that st ok pc p d n
    by (cases "sh_pc s i")
       (auto simp: defs closed_connection_simps split: choice.splits option.splits if_splits)
  show "pub_ok (sh_pc s' j) s'" if "sh_publishMu s' = Some j" for j
    using that st pc p by (cases "sh_pc s i") (auto split: choice.splits option.splits if_splits)
qed

lemma in_syncD:
  assumes "in_sync s" "sh_channel s = Some g" "cn_chan (sh_conns s g)"
  shows "sh_conn s = Some g" "sh_confirmations s = Some g" "pending g s \<le> 1"
    and "\<not> sh_hasOutstanding s \<Longrightarrow> \<nexists>i. sh_publishMu s = Some i \<and> marking (sh_pc s i) \<Longrightarrow> pending g s = 0"
  using assms by (auto simp: in_sync_def split: if_splits)

text \<open>Reading a confirmation frees the channel; what is read as positive is an acknowledged message.\<close>

lemma select_ready_sync:
  assumes r: "select_ready k a b c s = Some (r, s')" and s: "in_sync s" "c = sh_confirmations s"
    and nm: "\<nexists>j. sh_publishMu s = Some j \<and> marking (sh_pc s j)"
  shows "in_sync s' \<and> (r \<noteq> None \<longrightarrow> \<not> sh_hasOutstanding s') \<and> (r = None \<longrightarrow> s' = s)"
proof (cases "r = None")
  case True
  then show ?thesis using r s by (auto simp: select_ready_def split: pick.splits option.splits if_splits list.splits)
next
  case False
  then obtain g where k: "k = PConfirm" "c = Some g"
    using r by (auto simp: select_ready_def split: pick.splits option.splits if_splits)
  show ?thesis
  proof (cases "cn_confirms (sh_conns s g)")
    case Nil
    then have e: "s' = s\<lparr>sh_hasOutstanding := False\<rparr>" "\<not> cn_chan (sh_conns s g)"
      using r k by (auto simp: select_ready_def split: if_splits)
    have "in_sync s'" unfolding in_sync_def
    proof (intro allI impI)
      fix h
      assume h: "sh_channel s' = Some h \<and> cn_chan (sh_conns s' h)"
      then have "sh_confirmations s = Some h" using s(1) by (auto simp: e(1) in_sync_def)
      then show "sh_conn s' = Some h \<and> sh_confirmations s' = Some h
        \<and> pending h s' \<le> (if sh_hasOutstanding s' \<or> (\<exists>i. sh_publishMu s' = Some i \<and> marking (sh_pc s' i)) then 1 else 0)"
        using h e s(2) k(2) by simp
    qed
    then show ?thesis using False by (cases r) (simp_all add: e(1))
  next
    case (Cons q cs)
    then obtain m ack where q: "cn_confirms (sh_conns s g) = (m, ack) # cs" by (cases q) auto
    then have e: "s' = (on_conn g (\<lambda>x. x\<lparr>cn_confirms := cs\<rparr>) s)\<lparr>sh_hasOutstanding := False\<rparr>"
      using r k by (auto simp: select_ready_def)
    have "in_sync s'" unfolding in_sync_def
    proof (intro allI impI)
      fix h
      assume h: "sh_channel s' = Some h \<and> cn_chan (sh_conns s' h)"
      then have h': "sh_channel s = Some h" "cn_chan (sh_conns s h)" by (auto simp: e split: if_splits)
      note c = in_syncD(1-3) [OF s(1) h']
      then have "h = g" using s(2) k(2) by simp
      then have "pending h s' = 0" using c(3) q by (simp add: e pending_def)
      then show "sh_conn s' = Some h \<and> sh_confirmations s' = Some h
        \<and> pending h s' \<le> (if sh_hasOutstanding s' \<or> (\<exists>i. sh_publishMu s' = Some i \<and> marking (sh_pc s' i)) then 1 else 0)"
        using c by (simp add: e)
    qed
    then show ?thesis using False by (cases r) (simp_all add: e)
  qed
qed

lemma select_ready_acked:
  assumes "select_ready k a b c s = Some (Some True, s')" "acks_true s" "sent_alone m c s"
  shows "m \<in> set (sh_acked s)"
proof -
  obtain g x cs where g: "c = Some g" "cn_confirms (sh_conns s g) = (x, True) # cs"
    using assms(1) by (auto simp: select_ready_def split: pick.splits option.splits if_splits list.splits)
  have "x = m" using assms(3) g by (auto simp: sent_alone_def only_def)
  moreover have "(x, True) \<in> set (cn_confirms (sh_conns s g))" using g by simp
  ultimately show ?thesis using assms(2) unfolding acks_true_def by blast
qed

text \<open>The goroutine that publishes: nobody reconnects meanwhile.\<close>

lemma publish_safe:
  assumes s: "pub_safe s" "held s" "exclusive s" and d: "sh_publishMu s = Some i" and st: "goroutine_step i ch s = Some s'"
  shows "pub_safe s'"
proof -
  have c: "sh_connMu s = None" using s(3) d by (simp add: exclusive_def)
  have a: "acks_true s" "in_sync s" "pub_ok (sh_pc s i) s" using s(1) d c by (auto simp: pub_safe_def)
  have pc: "publishing (sh_pc s i)" using s(2) d unfolding held_def by blast
  note published = pub_safe_published [OF s(1)]
  show ?thesis
  proof (cases "sh_pc s i")
    case (PCheck m)
    then have s': "s' = at i (if sh_hasOutstanding s
        then PDrain m (sh_connClosures s) (sh_chanClosures s) (sh_confirmations s) else PSend m) s"
      using st by simp
    show ?thesis
      using published a c d by (intro pub_safeI [OF s(1) st]) (auto simp: s' in_sync_def pending_def PCheck)
  next
    case (PDrain m x y z)
    then obtain k r t where k: "select_ready k x y z s = Some (r, t)"
      "s' = at i (case r of None \<Rightarrow> PEnd m False (k = PCtx) | Some _ \<Rightarrow> PSend m) t"
      using st by (auto split: choice.splits option.splits)
    have t: "in_sync t \<and> (r \<noteq> None \<longrightarrow> \<not> sh_hasOutstanding t)"
      using select_ready_sync [OF k(1) a(2)] a(3) PDrain d by auto
    note keep = select_ready_keeps [OF k(1)]
    show ?thesis
      using published t keep c d PDrain
      by (intro pub_safeI [OF s(1) st]) (auto simp: k(2) in_sync_def pending_def split: option.splits)
  next
    case (PSend m)
    then consider "s' = at i PPanicked (s\<lparr>sh_publishMu := None\<rparr>)" | "s' = at i (PEnd m False False) s"
      | g where "sh_channel s = Some g" "cn_chan (sh_conns s g)" "s' = at i (PMark m) (on_conn g (\<lambda>x.
                   x\<lparr>cn_unanswered := (if cn_confirming x then cn_unanswered x @ [m] else cn_unanswered x)\<rparr>) s)"
      using st by (auto split: option.splits if_splits)
    then show ?thesis
    proof cases
      case 1
      show ?thesis using published a c d PSend
        by (intro pub_safeI [OF s(1) st]) (auto simp: 1 in_sync_def pending_def)
    next
      case 2
      show ?thesis using published a c d PSend
        by (intro pub_safeI [OF s(1) st]) (auto simp: 2 in_sync_def pending_def)
    next
      case (3 g)
      have "\<not> sh_hasOutstanding s" using a(3) PSend by simp
      moreover have "\<not> marking (sh_pc s i)" using PSend by simp
      ultimately have g: "sh_conn s = Some g" "sh_confirmations s = Some g" "pending g s = 0"
        using in_syncD [OF a(2) 3(1,2)] d by auto
      have "in_sync s'" using g 3(1,2) d by (auto simp: 3(3) in_sync_def pending_def)
      moreover have "pub_ok (PMark m) s'" using g by (auto simp: 3(3) sent_alone_def only_def pending_def)
      ultimately show ?thesis using published c d by (intro pub_safeI [OF s(1) st]) (auto simp: 3(3))
    qed
  next
    case (PMark m)
    then have s': "s' = at i (PSelect m) (s\<lparr>sh_hasOutstanding := True\<rparr>)" using st by simp
    show ?thesis using published a c d PMark
      by (intro pub_safeI [OF s(1) st]) (auto simp: s' in_sync_def pending_def sent_alone_def only_def)
  next
    case (PSelect m)
    then have s': "s' = at i (PAwait m (sh_connClosures s) (sh_chanClosures s) (sh_confirmations s)) s" using st by simp
    show ?thesis using published a c d PSelect
      by (intro pub_safeI [OF s(1) st]) (auto simp: s' in_sync_def pending_def sent_alone_def only_def)
  next
    case (PAwait m x y z)
    then obtain k r t where k: "select_ready k x y z s = Some (r, t)" "s' = at i (PEnd m (r = Some True) (k = PCtx)) t"
      using st by (auto split: choice.splits option.splits)
    have t: "in_sync t" using select_ready_sync [OF k(1) a(2)] a(3) PAwait d by auto
    have ack: "r = Some True \<Longrightarrow> m \<in> set (sh_acked s)"
      using select_ready_acked [of k x y z s t m] k(1) a(1,3) PAwait by auto
    note keep = select_ready_keeps [OF k(1)]
    show ?thesis
      using published t ack keep c d PAwait
      by (intro pub_safeI [OF s(1) st]) (auto simp: k(2) in_sync_def pending_def)
  next
    case (PEnd m ok e)
    define ps where "ps = (if ok then m # sh_published s else sh_published s)"
    have ps: "set ps \<subseteq> set (sh_acked s)" using published a(3) PEnd by (auto simp: ps_def)
    define t where "t = (if e \<or> ch = Fail then close_current s else s)"
    have t: "t = s \<or> t = close_current s"
      "s' = at i (if ok then PIdle else PFailed m) (t\<lparr>sh_publishMu := None, sh_published := ps\<rparr>)"
      using st PEnd c by (cases "e \<or> ch = Fail"; cases ok; simp add: ps_def t_def)+
    have keep: "sh_acked t = sh_acked s" "sh_connMu t = None" "sh_channel t = sh_channel s" "sh_conn t = sh_conn s"
      "sh_confirmations t = sh_confirmations s" "sh_hasOutstanding t = sh_hasOutstanding s"
      "cn_chan (sh_conns t g) \<Longrightarrow> cn_chan (sh_conns s g)" "pending g t = pending g s" for g
      using t(1) c by (auto simp: close_current_conns shut_def pending_def split: if_splits)
    have "\<not> marking (sh_pc s i)" using PEnd by simp
    then have "in_sync s'" using a(2) d keep by (auto simp: t(2) in_sync_def pending_def)
    then show ?thesis using ps keep by (intro pub_safeI [OF s(1) st]) (auto simp: t(2))
  qed (use pc in auto)
qed

lemma ensure_begin_safe:
  assumes "pub_safe s" "sh_connMu s = None" "sh_publishMu s = None"
    and "goroutine_step i ch s = Some (at i (PDial m) (close_current (s\<lparr>sh_connMu := Some i\<rparr>)))"
  shows "pub_safe (at i (PDial m) (close_current (s\<lparr>sh_connMu := Some i\<rparr>)))"
proof (rule pub_safeI [OF assms(1,4)])
  have "in_sync s" using assms by (simp add: pub_safe_def)
  then have "shut_down (at i (PDial m) (close_current (s\<lparr>sh_connMu := Some i\<rparr>)))"
    by (auto simp: shut_down_def close_current_conns shut_def dest: in_syncD(1))
  then show "dial_ok (sh_pc (at i (PDial m) (close_current (s\<lparr>sh_connMu := Some i\<rparr>))) j)
      (at i (PDial m) (close_current (s\<lparr>sh_connMu := Some i\<rparr>)))"
    if "sh_connMu (at i (PDial m) (close_current (s\<lparr>sh_connMu := Some i\<rparr>))) = Some j" for j
    using that by simp
qed (use assms(3) pub_safe_published [OF assms(1)] in simp_all)

lemma idle_step:
  assumes "sh_connMu s \<noteq> Some i" "sh_publishMu s \<noteq> Some i" "held s" "goroutine_step i ch s = Some s'"
  shows "(\<exists>pc. s' = at i pc s)
    \<or> (\<exists>m. sh_connMu s = None \<and> s' = at i (PDial m) (close_current (s\<lparr>sh_connMu := Some i\<rparr>)))
    \<or> (\<exists>m. sh_publishMu s = None \<and> s' = at i (PCheck m) (s\<lparr>sh_publishMu := Some i\<rparr>))"
proof -
  have "\<not> dialing (sh_pc s i)" "\<not> publishing (sh_pc s i)" using assms(1-3) unfolding held_def by blast+
  then show ?thesis using assms(4) by (cases "sh_pc s i") (auto split: choice.splits if_splits)
qed

lemma pub_safe_step:
  assumes s: "pub_safe s" "held s" "exclusive s" and st: "pub_step a s = Some s'" and x: "exclusive s'"
  shows "pub_safe s'"
proof (cases a)
  case (Run i ch)
  then have g: "goroutine_step i ch s = Some s'" using st by simp
  consider "sh_connMu s = Some i" | "sh_publishMu s = Some i" | "sh_connMu s \<noteq> Some i" "sh_publishMu s \<noteq> Some i" by blast
  then show ?thesis
  proof cases
    case 1
    then show ?thesis using dial_safe [OF s _ g] by blast
  next
    case 2
    then show ?thesis using publish_safe [OF s _ g] by blast
  next
    case 3
    from idle_step [OF 3 s(2) g] show ?thesis
    proof (elim disjE exE conjE)
      fix pc
      assume "s' = at i pc s"
      then show ?thesis using pub_safe_at [OF s(1) 3] by simp
    next
      fix m
      assume c: "sh_connMu s = None" "s' = at i (PDial m) (close_current (s\<lparr>sh_connMu := Some i\<rparr>))"
      then have "sh_publishMu s = None" using x by (simp add: exclusive_def)
      then show ?thesis using ensure_begin_safe [OF s(1) c(1)] c(2) g by simp
    next
      fix m
      assume c: "sh_publishMu s = None" "s' = at i (PCheck m) (s\<lparr>sh_publishMu := Some i\<rparr>)"
      then have "sh_connMu s = None" using x by (simp add: exclusive_def)
      then have "in_sync s'" using s(1) c by (auto simp: pub_safe_def in_sync_def pending_def split: if_splits)
      then show ?thesis using pub_safe_published [OF s(1)] c \<open>sh_connMu s = None\<close>
        by (intro pub_safeI [OF s(1) g]) auto
    qed
  qed
next
  case (Answer g b)
  then show ?thesis using st answer_safe [OF s(1)] by simp
next
  case (CloseChan g)
  then show ?thesis using st pub_safe_shut(2) [OF s(1)] by auto
next
  case (CloseConn g)
  then show ?thesis using st pub_safe_shut(1) [OF s(1)] by auto
qed

lemma pub_safe_run:
  "pub_safe s \<Longrightarrow> held s \<Longrightarrow> exclusive_run as s \<Longrightarrow> pub_run as s = Some s' \<Longrightarrow> pub_safe s'"
proof (induction as arbitrary: s)
  case (Cons a as)
  then obtain t where t: "pub_step a s = Some t" "pub_run as t = Some s'" "exclusive_run as t" "exclusive s"
    by (auto split: option.splits)
  then have "exclusive t" by (cases as) auto
  then show ?case
    using Cons.IH [OF pub_safe_step [OF Cons.prems(1,2) t(4,1)] held_step [OF Cons.prems(2) t(1)] t(3,2)] by simp
qed simp

subsection \<open>No deadlock\<close>

text \<open>
  A goroutine that has begun can move, or waits for a mutex whose holder can: \<open>CloseOnTimeout\<close> takes
  \<open>connMu\<close> under \<open>publishMu\<close>, but nobody does it the other way round.
\<close>

definition busy :: "'m pub_pc \<Rightarrow> bool" where
  "busy pc = (pc \<noteq> PIdle \<and> pc \<noteq> PPanicked)"

lemma dialing_moves: "dialing (sh_pc s i) \<Longrightarrow> \<exists>ch s'. goroutine_step i ch s = Some s'"
  by (cases "sh_pc s i") (auto intro!: exI [of _ Fail] split: option.splits)

lemma publishing_moves:
  assumes "publishing (sh_pc s i)" "sh_connMu s = None"
  shows "\<exists>ch s'. goroutine_step i ch s = Some s'"
proof (cases "sh_pc s i")
  case (PDrain m a b c)
  then show ?thesis by (intro exI [of _ "Take PCtx"]) (simp add: select_ready_def)
next
  case (PAwait m a b c)
  then show ?thesis by (intro exI [of _ "Take PCtx"]) (simp add: select_ready_def)
qed (use assms in \<open>auto intro!: exI [of _ Fail] split: option.splits\<close>)

lemma busy_moves:
  assumes h: "held s" and b: "busy (sh_pc s i)"
  shows "\<exists>j ch s'. goroutine_step j ch s = Some s' \<and> (j = i \<or> sh_connMu s = Some j \<or> sh_publishMu s = Some j)"
proof (cases "sh_connMu s")
  case (Some j)
  then have "dialing (sh_pc s j)" using h unfolding held_def by blast
  then show ?thesis using dialing_moves Some by blast
next
  case None
  show ?thesis
  proof (cases "sh_publishMu s")
    case (Some j)
    then have "publishing (sh_pc s j)" using h unfolding held_def by blast
    then show ?thesis using publishing_moves None Some by blast
  next
    case n: None
    then have "\<not> dialing (sh_pc s i)" "\<not> publishing (sh_pc s i)" using h None unfolding held_def by auto
    then have "\<exists>ch s'. goroutine_step i ch s = Some s'"
      using b None n by (cases "sh_pc s i") (auto simp: busy_def)
    then show ?thesis by blast
  qed
qed

subsection \<open>Properties\<close>

text \<open>
  C9: In every interleaving of concurrent calls in which no goroutine sets up a connection while
  another one publishes, a call that returned nil had its own message acknowledged; and in every
  interleaving at all, each mutex is held by one goroutine at most, and whoever has not returned can
  move or waits for somebody who can.
\<close>

theorem concurrent_publish:
  assumes "pub_run as sh_init = Some s"
  shows "(exclusive_run as sh_init \<and> m \<in> set (sh_published s) \<longrightarrow> m \<in> set (sh_acked s))
    \<and> (dialing (sh_pc s i) \<and> dialing (sh_pc s j) \<longrightarrow> i = j)
    \<and> (publishing (sh_pc s i) \<and> publishing (sh_pc s j) \<longrightarrow> i = j)
    \<and> (busy (sh_pc s i) \<longrightarrow> (\<exists>k ch s'. goroutine_step k ch s = Some s'
          \<and> (k = i \<or> sh_connMu s = Some k \<or> sh_publishMu s = Some k)))"
proof -
  have h: "held s" using held_run [OF held_init assms] .
  have "m \<in> set (sh_acked s)" if "exclusive_run as sh_init" "m \<in> set (sh_published s)"
    using pub_safe_published [OF pub_safe_run [OF pub_safe_init held_init that(1) assms]] that(2) by blast
  moreover have "i = j" if "dialing (sh_pc s i) \<and> dialing (sh_pc s j) \<or> publishing (sh_pc s i) \<and> publishing (sh_pc s j)"
    using h that unfolding held_def by (metis option.inject)
  ultimately show ?thesis using busy_moves [OF h] by blast
qed

text \<open>Two calls, the second of which reuses the connection of the first.\<close>

definition two_publishers :: "nat pub_act list" where
  "two_publishers = [Run 0 (Begin 10), Run 0 Go, Run 1 (Begin 11), Run 0 Go, Run 0 Go, Run 0 Go, Run 0 Go, Run 0 Go, Run 0 Go,
     Run 0 Go, Run 1 Go, Run 1 Go, Run 1 Go, Run 1 Go, Run 1 Go, Run 1 Go, Answer 0 True, Run 1 (Take PConfirm), Run 1 Go,
     Run 0 Go]"

theorem concurrent_publish_witness:
  "\<exists>s. pub_run two_publishers sh_init = Some s \<and> exclusive_run two_publishers sh_init
    \<and> 11 \<in> set (sh_published s) \<and> 11 \<in> set (sh_acked s) \<and> publishing (sh_pc s 0)
    \<and> (\<exists>k ch s'. goroutine_step k ch s = Some s')"
proof -
  have r: "case pub_run two_publishers sh_init of None \<Rightarrow> False
      | Some s \<Rightarrow> 11 \<in> set (sh_published s) \<and> publishing (sh_pc s 0)" by code_simp
  then obtain s where s: "pub_run two_publishers sh_init = Some s" "11 \<in> set (sh_published s)" "publishing (sh_pc s 0)"
    by (auto split: option.splits)
  have x: "exclusive_run two_publishers sh_init" by code_simp
  have "busy (sh_pc s 0)" using s(3) by (cases "sh_pc s 0") (simp_all add: busy_def)
  then show ?thesis using concurrent_publish [OF s(1), of 11 0 0] s x by blast
qed

definition racing :: "nat pub_act list" where
  "racing = [Run 0 (Begin 10), Run 0 Go, Run 0 Go, Run 0 Go, Run 0 Go, Run 0 Go, Run 0 Go, Run 0 Go, Run 0 Go,
     CloseConn 0,
     Run 1 (Begin 11), Run 1 Go, Run 1 Go, Run 1 Go, Run 1 Go, Run 1 Go,
     Run 0 Go, Run 0 Go, Run 0 Go, Run 0 Go, Run 0 Go, Run 0 (Take PChan), Run 0 Go, Run 0 Fail,
     Run 1 Go, Run 1 Go, Run 1 Go, Answer 1 True,
     Run 1 Go, Run 1 Go, Run 1 Go, Run 1 Go, Run 1 Go, Run 1 (Take PConfirm), Run 1 Go]"


text \<open>
  When the second goroutine cannot open a channel on its new connection, it leaves the field nil, and
  the first one, which had found a good connection, panics.
\<close>

definition nil_channel :: "nat pub_act list" where
  "nil_channel = [Run 0 (Begin 10), Run 0 Go, Run 0 Go, Run 0 Go, Run 0 Go, Run 0 Go, Run 0 Go, Run 0 Go, Run 0 Go,
     CloseConn 0, Run 1 (Begin 11), Run 1 Go, Run 1 Go, Run 1 Go, Run 1 Fail, Run 0 Go, Run 0 Go, Run 0 Go]"

lemma nil_channel_panics:
  "\<exists>s. pub_run nil_channel sh_init = Some s \<and> sh_pc s 0 = PPanicked \<and> exclusive_run nil_channel sh_init"
proof -
  have "case pub_run nil_channel sh_init of None \<Rightarrow> False | Some s \<Rightarrow> sh_pc s 0 = PPanicked" by code_simp
  moreover have "exclusive_run nil_channel sh_init" by code_simp
  ultimately show ?thesis by (auto split: option.splits)
qed

end
