(* ===== verification/Service_Stop.thy ===== *)
theory Service_Stop
  imports Main
begin

text \<open>
  How the services other than the SSE server stop (the end of \<open>main\<close> under \<open>cmd/executionspace\<close>,
  \<open>cmd/iut\<close>, \<open>cmd/keys\<close> and \<open>cmd/logarea\<close>, with \<open>Close\<close> of their applications): the signal, the
  graceful shutdown of the web server, wait groups, and the goroutines that still run.
\<close>

subsection \<open>Goroutines\<close>

text \<open>
  What a goroutine does: a request of the execution space service, a checkout that a start request
  has begun with \<open>go\<close>, or a request of another service, which registers nowhere.  Its stage: entered,
  counted in the handlers' wait group (\<open>h.wg\<close>), counted in the provider's (\<open>e.active\<close>), past that,
  ended.
\<close>

datatype work = WStart | WStatus | WStop | WExecutorStart | WCheckout | WOther

datatype stage = Entered | Joined | Active | Left | Ended

type_synonym thread = "work \<times> stage"

text \<open>
  The stages that may come next, where requests that are refused early end at once: \<open>Start\<close> begins
  its checkout last; \<open>Status\<close> and \<open>Checkin\<close> count as active; \<open>Stop\<close> and \<open>ExecutorStart\<close> join the
  group first thing; \<open>Checkout\<close> is counted by its own first statement.
\<close>

fun next_stages :: "work \<Rightarrow> stage \<Rightarrow> stage list" where
  "next_stages WStart Entered = [Left, Ended]"
| "next_stages WStart Left = [Ended]"
| "next_stages WStatus Entered = [Active, Ended]"
| "next_stages WStatus Active = [Left]"
| "next_stages WStatus Left = [Ended]"
| "next_stages WStop Entered = [Joined]"
| "next_stages WStop Joined = [Active, Ended]"
| "next_stages WStop Active = [Left]"
| "next_stages WStop Left = [Ended]"
| "next_stages WExecutorStart Entered = [Joined]"
| "next_stages WExecutorStart Joined = [Ended]"
| "next_stages WCheckout Entered = [Active]"
| "next_stages WCheckout Active = [Ended]"
| "next_stages WOther Entered = [Ended]"
| "next_stages _ _ = []"

fun in_active :: "thread \<Rightarrow> bool" where
  "in_active (w, st) = (st = Active)"

fun in_group :: "thread \<Rightarrow> bool" where
  "in_group (WStop, st) = (st \<in> {Joined, Active, Left})"
| "in_group (WExecutorStart, st) = (st = Joined)"
| "in_group _ = False"

fun is_handling :: "thread \<Rightarrow> bool" where
  "is_handling (w, st) = (w \<noteq> WCheckout \<and> st \<noteq> Ended)"

subsection \<open>The main function\<close>

text \<open>
  What \<open>main\<close> does after the signal: the explicit calls and then the deferred ones.  \<open>Shutdown t\<close> is
  \<open>srv.Close\<close> with a timeout of \<open>t\<close> seconds, \<open>WaitActive\<close> is \<open>provider.Done\<close>, \<open>WaitGroup\<close> is
  \<open>wg.Wait\<close>, \<open>QuitRetention\<close> is \<open>Shutdown\<close> of the retention handler.
\<close>

datatype main_op = Shutdown nat | WaitActive | WaitGroup | ClosePublisher | CancelContext | QuitRetention

text \<open>\<open>ProviderServiceApplication.Close\<close>, and \<open>V1Alpha1Application.Close\<close> of the IUT provider.\<close>

definition provider_Close :: "main_op list" where
  "provider_Close = [WaitActive, WaitGroup]"

definition iut_Close :: "main_op list" where
  "iut_Close = [WaitGroup]"

definition executionspace_stop :: "nat \<Rightarrow> bool \<Rightarrow> main_op list" where
  "executionspace_stop timeout publisher =
     Shutdown timeout # provider_Close @ (if publisher then [ClosePublisher] else [])"

definition iut_stop :: "main_op list" where
  "iut_stop = iut_Close @ Shutdown 10 # iut_Close"

definition keys_stop :: "main_op list" where
  "keys_stop = [Shutdown 60, CancelContext]"

definition logarea_stop :: "main_op list" where
  "logarea_stop = [Shutdown 60, QuitRetention]"

text \<open>The retention handler's goroutine: in its \<open>select\<close>, in a cleanup, or ended.\<close>

datatype retention = RNone | RSelect | RCleanup | REnded

text \<open>
  \<open>pr_main\<close>: what \<open>main\<close> has left to do, \<open>None\<close> before the signal; with nothing left the process
  has ended, and with it every goroutine.
\<close>

record process_state =
  pr_main :: "main_op list option"
  pr_listening :: bool
  pr_timed_out :: bool
  pr_waited :: nat
  pr_active :: nat
  pr_group :: nat
  pr_threads :: "thread list"
  pr_retention :: retention

definition pr_start :: "retention \<Rightarrow> process_state" where
  "pr_start r = \<lparr>pr_main = None, pr_listening = True, pr_timed_out = False, pr_waited = 0, pr_active = 0, pr_group = 0,
     pr_threads = [], pr_retention = r\<rparr>"

definition running :: "process_state \<Rightarrow> bool" where
  "running s = (pr_main s \<noteq> Some [])"

definition if_running :: "bool \<Rightarrow> process_state \<Rightarrow> process_state \<Rightarrow> process_state option" where
  "if_running b s s' = (if running s \<and> b then Some s' else None)"

lemma if_running_Some [simp]: "if_running b s s' = Some t \<longleftrightarrow> running s \<and> b \<and> s' = t"
  by (auto simp: if_running_def)

subsection \<open>Steps\<close>

text \<open>
  A request comes in; a goroutine goes on to a stage; the signal; \<open>Shutdown\<close> closes the listeners,
  a second passes in it, it returns with no handler left or with its timeout; the next call of
  \<open>main\<close> returns; the retention handler's timer fires and its cleanup ends.
\<close>

datatype stop_act = Request work | Advance nat stage | Terminate | CloseListeners | Tick | AllServed | TimedOut | Return
  | CleanupDue | CleanupDone

definition set_thread :: "nat \<Rightarrow> thread \<Rightarrow> process_state \<Rightarrow> process_state" where
  "set_thread i t s =
     s\<lparr>pr_active := pr_active s - (if in_active (pr_threads s ! i) then 1 else 0) + (if in_active t then 1 else 0),
       pr_group := pr_group s - (if in_group (pr_threads s ! i) then 1 else 0) + (if in_group t then 1 else 0),
       pr_threads := (pr_threads s)[i := t]\<rparr>"

definition spawn :: "thread \<Rightarrow> process_state \<Rightarrow> process_state" where
  "spawn t s = s\<lparr>pr_threads := pr_threads s @ [t]\<rparr>"

definition thread_step :: "nat \<Rightarrow> stage \<Rightarrow> process_state \<Rightarrow> process_state option" where
  "thread_step i st s =
     (if i < length (pr_threads s) then
        (case pr_threads s ! i of (w, old) \<Rightarrow>
           if_running (st \<in> set (next_stages w old)) s
             (let s' = set_thread i (w, st) s
              in if w = WStart \<and> st = Left then spawn (WCheckout, Entered) s' else s'))
      else None)"

fun return_step :: "process_state \<Rightarrow> process_state option" where
  "return_step s =
     (case pr_main s of
        Some (WaitActive # ops) \<Rightarrow> if_running (pr_active s = 0) s (s\<lparr>pr_main := Some ops\<rparr>)
      | Some (WaitGroup # ops) \<Rightarrow> if_running (pr_group s = 0) s (s\<lparr>pr_main := Some ops\<rparr>)
      | Some (ClosePublisher # ops) \<Rightarrow> Some (s\<lparr>pr_main := Some ops\<rparr>)
      | Some (CancelContext # ops) \<Rightarrow> Some (s\<lparr>pr_main := Some ops\<rparr>)
      | Some (QuitRetention # ops) \<Rightarrow>
          if_running (pr_retention s = RSelect) s (s\<lparr>pr_main := Some ops, pr_retention := REnded\<rparr>)
      | _ \<Rightarrow> None)"

fun stop_step :: "main_op list \<Rightarrow> stop_act \<Rightarrow> process_state \<Rightarrow> process_state option" where
  "stop_step ops (Request w) s = if_running (pr_listening s \<and> w \<noteq> WCheckout) s (spawn (w, Entered) s)"
| "stop_step ops (Advance i st) s = thread_step i st s"
| "stop_step ops Terminate s = if_running (pr_main s = None) s (s\<lparr>pr_main := Some ops\<rparr>)"
| "stop_step ops CloseListeners s =
     (case pr_main s of
        Some (Shutdown t # _) \<Rightarrow> if_running (pr_listening s) s (s\<lparr>pr_listening := False, pr_waited := 0\<rparr>)
      | _ \<Rightarrow> None)"
| "stop_step ops Tick s =
     (case pr_main s of
        Some (Shutdown t # _) \<Rightarrow> if_running (\<not> pr_listening s \<and> pr_waited s < t) s (s\<lparr>pr_waited := Suc (pr_waited s)\<rparr>)
      | _ \<Rightarrow> None)"
| "stop_step ops AllServed s =
     (case pr_main s of
        Some (Shutdown t # rest) \<Rightarrow>
          if_running (\<not> pr_listening s \<and> filter is_handling (pr_threads s) = []) s (s\<lparr>pr_main := Some rest\<rparr>)
      | _ \<Rightarrow> None)"
| "stop_step ops TimedOut s =
     (case pr_main s of
        Some (Shutdown t # rest) \<Rightarrow>
          if_running (\<not> pr_listening s \<and> t \<le> pr_waited s) s (s\<lparr>pr_main := Some rest, pr_timed_out := True\<rparr>)
      | _ \<Rightarrow> None)"
| "stop_step ops Return s = return_step s"
| "stop_step ops CleanupDue s = if_running (pr_retention s = RSelect) s (s\<lparr>pr_retention := RCleanup\<rparr>)"
| "stop_step ops CleanupDone s = if_running (pr_retention s = RCleanup) s (s\<lparr>pr_retention := RSelect\<rparr>)"

fun stop_run :: "main_op list \<Rightarrow> stop_act list \<Rightarrow> process_state \<Rightarrow> process_state option" where
  "stop_run ops [] s = Some s"
| "stop_run ops (a # as) s = (case stop_step ops a s of None \<Rightarrow> None | Some s' \<Rightarrow> stop_run ops as s')"

subsection \<open>Wait groups count\<close>

definition counts :: "process_state \<Rightarrow> bool" where
  "counts s = (pr_active s = length (filter in_active (pr_threads s)) \<and> pr_group s = length (filter in_group (pr_threads s)))"

lemma filter_update:
  "i < length xs \<Longrightarrow> length (filter P (xs[i := x])) + (if P (xs ! i) then 1 else 0) = length (filter P xs) + (if P x then 1 else 0)"
proof (induction xs arbitrary: i)
  case (Cons y ys)
  then show ?case by (cases i) auto
qed simp

lemma filter_update_minus:
  "i < length xs \<Longrightarrow> length (filter P (xs[i := x])) = length (filter P xs) - (if P (xs ! i) then 1 else 0) + (if P x then 1 else 0)"
proof -
  assume i: "i < length xs"
  have "P (xs ! i) \<Longrightarrow> 0 < length (filter P xs)" using i by (auto simp: filter_empty_conv)
  then show ?thesis using filter_update [OF i, of P x] by (auto split: if_splits)
qed

lemma counts_set_thread: "counts s \<Longrightarrow> i < length (pr_threads s) \<Longrightarrow> counts (set_thread i t s)"
  using filter_update_minus [of i "pr_threads s"] by (simp add: counts_def set_thread_def)

lemma counts_spawn: "counts s \<Longrightarrow> \<not> in_active t \<Longrightarrow> \<not> in_group t \<Longrightarrow> counts (spawn t s)"
  by (simp add: counts_def spawn_def)

lemma entered_uncounted [simp]: "\<not> in_active (w, Entered)" "\<not> in_group (w, Entered)"
  by (cases w; simp)+

lemma counts_step: "counts s \<Longrightarrow> stop_step ops a s = Some s' \<Longrightarrow> counts s'"
proof (cases a)
  case (Advance i st)
  then show "counts s \<Longrightarrow> stop_step ops a s = Some s' \<Longrightarrow> counts s'"
    by (auto simp: thread_step_def Let_def intro!: counts_spawn counts_set_thread split: if_splits prod.splits)
qed (auto simp: counts_spawn, auto simp: counts_def split: option.splits list.splits main_op.splits)

lemma counts_run: "counts s \<Longrightarrow> stop_run ops as s = Some s' \<Longrightarrow> counts s'"
  by (induction as arbitrary: s) (auto split: option.splits dest: counts_step)

lemma counts_start: "counts (pr_start r)" by (simp add: counts_def pr_start_def)

subsection \<open>What a wait waits for\<close>

text \<open>\<open>op\<close> is still to come, for sure: the signal has not been received, or the call has not returned.\<close>

definition to_come :: "main_op list \<Rightarrow> main_op \<Rightarrow> process_state \<Rightarrow> bool" where
  "to_come ops q s = (case pr_main s of None \<Rightarrow> q \<in> set ops | Some rest \<Rightarrow> q \<in> set rest)"

lemma set_thread_simps [simp]:
  "pr_main (set_thread i t s) = pr_main s" "pr_threads (set_thread i t s) = (pr_threads s)[i := t]"
  "pr_listening (set_thread i t s) = pr_listening s" "pr_retention (set_thread i t s) = pr_retention s"
  "pr_waited (set_thread i t s) = pr_waited s" "pr_timed_out (set_thread i t s) = pr_timed_out s"
  by (simp_all add: set_thread_def)

lemma spawn_simps [simp]:
  "pr_main (spawn t s) = pr_main s" "pr_threads (spawn t s) = pr_threads s @ [t]" "pr_listening (spawn t s) = pr_listening s"
  "pr_retention (spawn t s) = pr_retention s" "pr_waited (spawn t s) = pr_waited s" "pr_timed_out (spawn t s) = pr_timed_out s"
  by (simp_all add: spawn_def)

lemma thread_step_cases:
  assumes "thread_step i st s = Some s'"
  obtains w old where "running s" "i < length (pr_threads s)" "pr_threads s ! i = (w, old)" "st \<in> set (next_stages w old)"
    "s' = (if w = WStart \<and> st = Left then spawn (WCheckout, Entered) (set_thread i (w, st) s) else set_thread i (w, st) s)"
  using assms by (auto simp: thread_step_def Let_def split: if_splits prod.splits)

text \<open>What a goroutine is doing is either unchanged by a step, or its next stage.\<close>

lemma thread_moves:
  assumes "stop_step ops a s = Some s'" "i < length (pr_threads s)"
  shows "i < length (pr_threads s')
    \<and> (pr_threads s' ! i = pr_threads s ! i
       \<or> (\<exists>w old st. pr_threads s ! i = (w, old) \<and> pr_threads s' ! i = (w, st) \<and> st \<in> set (next_stages w old)))"
proof (cases a)
  case (Advance j st)
  then obtain w old where t: "j < length (pr_threads s)" "pr_threads s ! j = (w, old)" "st \<in> set (next_stages w old)"
    "s' = (if w = WStart \<and> st = Left then spawn (WCheckout, Entered) (set_thread j (w, st) s) else set_thread j (w, st) s)"
    using assms(1) by (auto elim: thread_step_cases)
  then show ?thesis using assms(2) by (cases "i = j") (auto simp: nth_append)
qed (use assms in \<open>auto simp: nth_append split: option.splits list.splits main_op.splits\<close>)

lemma next_stages_ended [simp]: "next_stages w Ended = []"
  by (cases w) simp_all

lemma group_end:
  "in_group (w, old) \<Longrightarrow> st \<in> set (next_stages w old) \<Longrightarrow> in_group (w, st) \<or> st = Ended"
  by (cases w; cases old) auto

text \<open>A wait that returns has no goroutine of its kind left.\<close>

lemma return_waits:
  assumes "counts s" "stop_step ops a s = Some s'" "to_come ops q s" "\<not> to_come ops q s'"
  shows "(q = WaitActive \<longrightarrow> (\<forall>t \<in> set (pr_threads s). \<not> in_active t)) \<and> (q = WaitGroup \<longrightarrow> (\<forall>t \<in> set (pr_threads s). \<not> in_group t))
    \<and> (q = QuitRetention \<longrightarrow> pr_retention s' = REnded) \<and> pr_threads s' = pr_threads s"
proof (cases a)
  case (Advance i st)
  then show ?thesis using assms by (auto simp: to_come_def elim!: thread_step_cases split: if_splits)
next
  case Return
  then show ?thesis using assms
    by (auto simp: to_come_def counts_def filter_empty_conv split: option.splits list.splits main_op.splits)
qed (use assms in \<open>auto simp: to_come_def split: option.splits list.splits main_op.splits\<close>)

lemma ended_stays:
  "stop_run ops as s = Some s' \<Longrightarrow> i < length (pr_threads s) \<Longrightarrow> snd (pr_threads s ! i) = Ended \<Longrightarrow>
   i < length (pr_threads s') \<and> pr_threads s' ! i = pr_threads s ! i"
proof (induction as arbitrary: s)
  case (Cons a as)
  then obtain t where t: "stop_step ops a s = Some t" "stop_run ops as t = Some s'" by (auto split: option.splits)
  then show ?case using Cons.IH [OF t(2)] thread_moves [OF t(1) Cons.prems(2)] Cons.prems(3) by auto
qed simp

text \<open>A goroutine of the kind \<open>P\<close> that a wait counts has ended when the process does.\<close>

lemma waits_for:
  assumes kind: "\<And>w old st. P (w, old) \<Longrightarrow> st \<in> set (next_stages w old) \<Longrightarrow> P (w, st) \<or> st = Ended"
    and counted: "q = WaitActive \<and> (\<forall>t. P t \<longrightarrow> in_active t) \<or> q = WaitGroup \<and> (\<forall>t. P t \<longrightarrow> in_group t)"
    and run: "stop_run ops as s = Some s'" "counts s" "to_come ops q s" "pr_main s' = Some []"
    and i: "i < length (pr_threads s)" "P (pr_threads s ! i) \<or> snd (pr_threads s ! i) = Ended"
  shows "i < length (pr_threads s') \<and> fst (pr_threads s' ! i) = fst (pr_threads s ! i) \<and> snd (pr_threads s' ! i) = Ended"
  using run i
proof (induction as arbitrary: s)
  case Nil
  then show ?case by (simp add: to_come_def)
next
  case (Cons a as)
  then obtain t where t: "stop_step ops a s = Some t" "stop_run ops as t = Some s'" by (auto split: option.splits)
  have i: "i < length (pr_threads t) \<and> fst (pr_threads t ! i) = fst (pr_threads s ! i)
    \<and> (P (pr_threads t ! i) \<or> snd (pr_threads t ! i) = Ended)"
    using thread_moves [OF t(1) Cons.prems(5)]
  proof (elim conjE disjE exE)
    fix w old st
    assume m: "pr_threads s ! i = (w, old)" "pr_threads t ! i = (w, st)" "st \<in> set (next_stages w old)" "i < length (pr_threads t)"
    then have "P (w, old)" using Cons.prems(6) by auto
    then show ?thesis using kind [OF _ m(3)] m by auto
  qed (use Cons.prems(6) in auto)
  show ?case
  proof (cases "to_come ops q t")
    case True
    then show ?thesis using Cons.IH [OF t(2) counts_step [OF Cons.prems(2) t(1)] _ Cons.prems(4)] i by simp
  next
    case False
    note r = return_waits [OF Cons.prems(2) t(1) Cons.prems(3) False]
    have "\<not> P (pr_threads t ! i)" using counted r nth_mem [OF Cons.prems(5)] by metis
    then show ?thesis using ended_stays [OF t(2)] i by auto
  qed
qed

text \<open>With the listeners closed and no handler left, there will be none.\<close>

definition all_served :: "process_state \<Rightarrow> bool" where
  "all_served s = (\<not> pr_listening s \<and> (\<forall>t \<in> set (pr_threads s). \<not> is_handling t))"

lemma all_served_step:
  assumes "all_served s" "stop_step ops a s = Some s'"
  shows "all_served s'"
proof (cases a)
  case (Advance i st)
  then obtain w old where t: "i < length (pr_threads s)" "pr_threads s ! i = (w, old)" "st \<in> set (next_stages w old)"
    "s' = (if w = WStart \<and> st = Left then spawn (WCheckout, Entered) (set_thread i (w, st) s) else set_thread i (w, st) s)"
    using assms(2) by (auto elim: thread_step_cases)
  have "(w, old) \<in> set (pr_threads s)" using t(1,2) nth_mem by fastforce
  moreover have "old \<noteq> Ended" using t(3) by auto
  ultimately have w: "w = WCheckout" using assms(1) by (auto simp: all_served_def)
  have "set ((pr_threads s)[i := (w, st)]) \<subseteq> insert (w, st) (set (pr_threads s))" by (rule set_update_subset_insert)
  then show ?thesis using assms(1) t(4) w by (auto simp: all_served_def)
qed (use assms in \<open>auto simp: all_served_def split: option.splits list.splits main_op.splits\<close>)

fun is_shutdown :: "main_op \<Rightarrow> bool" where
  "is_shutdown (Shutdown _) = True"
| "is_shutdown _ = False"

definition has_shutdown :: "main_op list \<Rightarrow> bool" where
  "has_shutdown ops = list_ex is_shutdown ops"

definition shutdown_to_come :: "main_op list \<Rightarrow> process_state \<Rightarrow> bool" where
  "shutdown_to_come ops s = has_shutdown (case pr_main s of None \<Rightarrow> ops | Some rest \<Rightarrow> rest)"

definition shut_inv :: "main_op list \<Rightarrow> process_state \<Rightarrow> bool" where
  "shut_inv ops s = (shutdown_to_come ops s \<or> pr_timed_out s \<or> all_served s)"

lemma timed_out_stays: "stop_step ops a s = Some s' \<Longrightarrow> pr_timed_out s \<Longrightarrow> pr_timed_out s'"
  by (cases a) (auto elim!: thread_step_cases split: option.splits list.splits main_op.splits)

lemma shutdown_returns:
  assumes "stop_step ops a s = Some s'" "shutdown_to_come ops s" "\<not> shutdown_to_come ops s'"
  shows "a = TimedOut \<and> pr_timed_out s' \<or> a = AllServed \<and> all_served s'"
proof (cases a)
  case (Advance i st)
  then show ?thesis using assms by (auto simp: shutdown_to_come_def elim!: thread_step_cases split: if_splits)
next
  case AllServed
  then show ?thesis using assms
    by (auto simp: all_served_def filter_empty_conv split: option.splits list.splits main_op.splits)
next
  case Return
  then show ?thesis using assms
    by (auto simp: shutdown_to_come_def has_shutdown_def split: option.splits list.splits main_op.splits)
qed (use assms in \<open>auto simp: shutdown_to_come_def split: option.splits list.splits main_op.splits\<close>)

lemma shut_inv_step: "shut_inv ops s \<Longrightarrow> stop_step ops a s = Some s' \<Longrightarrow> shut_inv ops s'"
  unfolding shut_inv_def using timed_out_stays all_served_step shutdown_returns by blast

lemma shut_inv_run: "shut_inv ops s \<Longrightarrow> stop_run ops as s = Some s' \<Longrightarrow> shut_inv ops s'"
  by (induction as arbitrary: s) (auto split: option.splits dest: shut_inv_step)

subsection \<open>Every stop comes to an end\<close>

definition legal :: "thread \<Rightarrow> bool" where
  "legal t = (snd t = Ended \<or> next_stages (fst t) (snd t) \<noteq> [])"

lemma legal_next: "st \<in> set (next_stages w old) \<Longrightarrow> legal (w, st)"
  by (cases w; cases old; auto simp: legal_def)

lemma legal_entered: "legal (w, Entered)"
  by (cases w) (simp_all add: legal_def)

definition remaining :: "main_op list \<Rightarrow> process_state \<Rightarrow> main_op list" where
  "remaining ops s = (case pr_main s of None \<Rightarrow> ops | Some rest \<Rightarrow> rest)"

text \<open>The retention handler, where there is one, runs exactly until \<open>main\<close> has shut it down.\<close>

definition retention_ok :: "main_op list \<Rightarrow> process_state \<Rightarrow> bool" where
  "retention_ok ops s =
     (count_list (remaining ops s) QuitRetention \<le> 1
      \<and> (QuitRetention \<in> set (remaining ops s) \<longrightarrow> pr_retention s \<in> {RSelect, RCleanup})
      \<and> (QuitRetention \<in> set ops \<and> QuitRetention \<notin> set (remaining ops s) \<longrightarrow> pr_retention s = REnded))"

definition stop_inv :: "main_op list \<Rightarrow> process_state \<Rightarrow> bool" where
  "stop_inv ops s = (counts s \<and> (\<forall>t \<in> set (pr_threads s). legal t) \<and> retention_ok ops s)"

text \<open>The services: their stop, and whether there is a retention handler.\<close>

inductive service :: "main_op list \<Rightarrow> retention \<Rightarrow> bool" where
  "service (executionspace_stop timeout publisher) RNone"
| "service iut_stop RNone"
| "service keys_stop RNone"
| "service logarea_stop RSelect"

inductive_cases serviceE: "service ops r"

lemmas stops_defs = executionspace_stop_def iut_stop_def keys_stop_def logarea_stop_def provider_Close_def iut_Close_def

lemma service_start: "service ops r \<Longrightarrow> stop_inv ops (pr_start r)"
  by (elim serviceE) (auto simp: stop_inv_def counts_start,
    auto simp: pr_start_def retention_ok_def remaining_def stops_defs)

lemma legal_step:
  assumes "\<forall>t \<in> set (pr_threads s). legal t" "stop_step ops a s = Some s'"
  shows "\<forall>t \<in> set (pr_threads s'). legal t"
proof (cases a)
  case (Advance i st)
  then obtain w old where t: "st \<in> set (next_stages w old)"
    "s' = (if w = WStart \<and> st = Left then spawn (WCheckout, Entered) (set_thread i (w, st) s) else set_thread i (w, st) s)"
    using assms(2) by (auto elim: thread_step_cases)
  have "set ((pr_threads s)[i := (w, st)]) \<subseteq> insert (w, st) (set (pr_threads s))" by (rule set_update_subset_insert)
  then show ?thesis using assms(1) t legal_next [OF t(1)] legal_entered by auto
qed (use assms legal_entered in \<open>auto split: option.splits list.splits main_op.splits\<close>)

lemma retention_ok_step:
  assumes "retention_ok ops s" "stop_step ops a s = Some s'"
  shows "retention_ok ops s'"
proof (cases a)
  case (Advance i st)
  then have "pr_main s' = pr_main s" "pr_retention s' = pr_retention s"
    using assms(2) by (auto elim!: thread_step_cases split: if_splits)
  then show ?thesis using assms(1) by (simp add: retention_ok_def remaining_def)
next
  case Return
  then show ?thesis using assms
    by (auto simp: retention_ok_def remaining_def count_list_0_iff split: option.splits list.splits main_op.splits)
qed (use assms in \<open>auto simp: retention_ok_def remaining_def split: option.splits list.splits main_op.splits\<close>)

lemma stop_inv_step: "stop_inv ops s \<Longrightarrow> stop_step ops a s = Some s' \<Longrightarrow> stop_inv ops s'"
  unfolding stop_inv_def using counts_step legal_step retention_ok_step by blast

lemma stop_inv_run: "stop_inv ops s \<Longrightarrow> stop_run ops as s = Some s' \<Longrightarrow> stop_inv ops s'"
  by (induction as arbitrary: s) (auto split: option.splits dest: stop_inv_step)

fun stage_rank :: "thread \<Rightarrow> nat" where
  "stage_rank (WStart, Entered) = 5"
| "stage_rank (WStatus, Entered) = 3"
| "stage_rank (WStop, Entered) = 4"
| "stage_rank (WExecutorStart, Entered) = 2"
| "stage_rank (WCheckout, Entered) = 2"
| "stage_rank (WOther, Entered) = 1"
| "stage_rank (WCheckout, Active) = 1"
| "stage_rank (WExecutorStart, Joined) = 1"
| "stage_rank (w, Joined) = 3"
| "stage_rank (w, Active) = 2"
| "stage_rank (w, Left) = 1"
| "stage_rank (w, Ended) = 0"

lemma stage_rank_next:
  "st \<in> set (next_stages w old) \<Longrightarrow> stage_rank (w, st) + (if w = WStart \<and> st = Left then 2 else 0) < stage_rank (w, old)"
  by (cases w; cases old) auto

fun op_rank :: "main_op \<Rightarrow> nat" where
  "op_rank (Shutdown t) = t + 2"
| "op_rank _ = 1"

fun ops_rank :: "bool \<Rightarrow> nat \<Rightarrow> main_op list \<Rightarrow> nat" where
  "ops_rank listening waited (Shutdown t # rest) = (if listening then t + 2 else Suc (t - waited)) + sum_list (map op_rank rest)"
| "ops_rank listening waited ops = sum_list (map op_rank ops)"

definition main_rank :: "process_state \<Rightarrow> nat" where
  "main_rank s = ops_rank (pr_listening s) (pr_waited s) (case pr_main s of None \<Rightarrow> [] | Some ops \<Rightarrow> ops)"

definition stop_rank :: "process_state \<Rightarrow> nat" where
  "stop_rank s = sum_list (map stage_rank (pr_threads s)) + main_rank s + (if pr_retention s = RCleanup then 1 else 0)"

text \<open>Steps that come from outside: requests, and the timer of the retention handler.\<close>

definition outside :: "stop_act \<Rightarrow> bool" where
  "outside a = (\<exists>w. a = Request w \<or> a = CleanupDue)"

lemma sum_list_update: "i < length xs \<Longrightarrow> sum_list (map f (xs[i := x])) + f (xs ! i) = sum_list (map f xs) + (f x :: nat)"
proof (induction xs arbitrary: i)
  case (Cons y ys)
  then show ?case by (cases i) auto
qed simp

lemma main_rank_cong:
  "pr_main s' = pr_main s \<Longrightarrow> pr_listening s' = pr_listening s \<Longrightarrow> pr_waited s' = pr_waited s \<Longrightarrow> main_rank s' = main_rank s"
  by (simp add: main_rank_def)

lemma ops_rank_le: "ops_rank l w ops \<le> sum_list (map op_rank ops)"
  by (induction l w ops rule: ops_rank.induct) auto

lemma main_rank_le: "main_rank s \<le> sum_list (map op_rank (case pr_main s of None \<Rightarrow> [] | Some ops \<Rightarrow> ops))"
  unfolding main_rank_def by (rule ops_rank_le)

lemma stop_rank_step:
  assumes "pr_main s \<noteq> None" "stop_step ops a s = Some s'"
  shows "pr_main s' \<noteq> None \<and> stop_rank s' + (if outside a then 0 else 1) \<le> stop_rank s + (if outside a then 5 else 0)"
proof (cases a)
  case (Advance i st)
  then obtain w old where t: "i < length (pr_threads s)" "pr_threads s ! i = (w, old)" "st \<in> set (next_stages w old)"
    "s' = (if w = WStart \<and> st = Left then spawn (WCheckout, Entered) (set_thread i (w, st) s) else set_thread i (w, st) s)"
    using assms(2) by (auto elim: thread_step_cases)
  note r = stage_rank_next [OF t(3)] sum_list_update [OF t(1), of stage_rank "(w, st)"]
  have "main_rank s' = main_rank s" by (rule main_rank_cong) (simp_all add: t(4))
  then show ?thesis using r assms(1) t(2,4) Advance by (auto simp: stop_rank_def outside_def split: if_splits)
next
  case (Request w)
  then show ?thesis using assms by (cases w) (auto simp: stop_rank_def outside_def main_rank_def)
next
  case Return
  then obtain q rest where q: "pr_main s = Some (q # rest)" "\<not> is_shutdown q" "pr_main s' = Some rest" "pr_threads s' = pr_threads s"
    "pr_retention s' = RCleanup \<Longrightarrow> pr_retention s = RCleanup" "pr_listening s' = pr_listening s" "pr_waited s' = pr_waited s"
    using assms(2) by (auto split: option.splits list.splits main_op.splits)
  have "main_rank s' \<le> sum_list (map op_rank rest)" using main_rank_le [of s'] q(3) by simp
  moreover have "main_rank s = 1 + sum_list (map op_rank rest)" using q(1,2) by (cases q) (simp_all add: main_rank_def)
  ultimately show ?thesis using q Return by (auto simp: stop_rank_def outside_def)
next
  case AllServed
  then obtain t rest where q: "pr_main s = Some (Shutdown t # rest)" "\<not> pr_listening s" "s' = s\<lparr>pr_main := Some rest\<rparr>"
    using assms(2) by (auto split: option.splits list.splits main_op.splits)
  have "main_rank s' \<le> sum_list (map op_rank rest)" using main_rank_le [of s'] q(3) by simp
  then show ?thesis using q AllServed by (simp add: stop_rank_def outside_def main_rank_def)
next
  case TimedOut
  then obtain t rest where q: "pr_main s = Some (Shutdown t # rest)" "\<not> pr_listening s" "s' = s\<lparr>pr_main := Some rest, pr_timed_out := True\<rparr>"
    using assms(2) by (auto split: option.splits list.splits main_op.splits)
  have "main_rank s' \<le> sum_list (map op_rank rest)" using main_rank_le [of s'] q(3) by simp
  then show ?thesis using q TimedOut by (simp add: stop_rank_def outside_def main_rank_def)
qed (use assms in \<open>auto simp: stop_rank_def outside_def main_rank_def split: option.splits list.splits main_op.splits\<close>)

lemma stop_rank_run:
  assumes "pr_main s \<noteq> None" "stop_run ops as s = Some s'"
  shows "length (filter (\<lambda>a. \<not> outside a) as) \<le> stop_rank s + 5 * length (filter outside as)"
  using assms
proof (induction as arbitrary: s)
  case (Cons a as)
  then obtain t where t: "stop_step ops a s = Some t" "stop_run ops as t = Some s'" by (auto split: option.splits)
  then show ?case using stop_rank_step [OF Cons.prems(1) t(1)] Cons.IH [OF _ t(2)] by (auto split: if_splits)
qed simp

text \<open>A goroutine that has not ended can go on, so \<open>main\<close> is never stuck.\<close>

lemma thread_goes_on:
  assumes "stop_inv ops s" "running s" "t \<in> set (pr_threads s)" "snd t \<noteq> Ended"
  shows "\<exists>i st s'. stop_step ops (Advance i st) s = Some s'"
proof -
  obtain i where i: "i < length (pr_threads s)" "pr_threads s ! i = t" using assms(3) by (auto simp: in_set_conv_nth)
  obtain w old where t: "t = (w, old)" by (cases t)
  obtain st where "st \<in> set (next_stages w old)"
    using assms(1,3,4) t by (cases "next_stages w old") (auto simp: stop_inv_def legal_def)
  then have "stop_step ops (Advance i st) s \<noteq> None" using i t assms(2) by (simp add: thread_step_def if_running_def)
  then show ?thesis by blast
qed

lemma in_group_not_ended: "in_group t \<Longrightarrow> snd t \<noteq> Ended"
  by (induction t rule: in_group.induct) auto

lemma wait_goes_on:
  assumes "stop_inv ops s" "pr_main s = Some (q # rest)" "q = WaitActive \<or> q = WaitGroup"
  shows "\<exists>a s'. \<not> outside a \<and> stop_step ops a s = Some s'"
proof (cases "stop_step ops Return s")
  case None
  then obtain t where "t \<in> set (pr_threads s)" "snd t \<noteq> Ended"
    using assms in_group_not_ended
    by (auto simp: stop_inv_def counts_def running_def if_running_def filter_empty_conv split: if_splits)
  then show ?thesis using thread_goes_on [OF assms(1)] assms(2) by (fastforce simp: running_def outside_def)
next
  case (Some s')
  then show ?thesis by (auto simp: outside_def)
qed

lemma retention_goes_on:
  assumes "stop_inv ops s" "pr_main s = Some (QuitRetention # rest)"
  shows "\<exists>a s'. \<not> outside a \<and> stop_step ops a s = Some s'"
proof -
  have "pr_retention s = RSelect \<or> pr_retention s = RCleanup"
    using assms by (auto simp: stop_inv_def retention_ok_def remaining_def)
  then have "stop_step ops Return s \<noteq> None \<or> stop_step ops CleanupDone s \<noteq> None"
    using assms(2) by (auto simp: if_running_def running_def)
  then show ?thesis by (auto simp: outside_def)
qed

lemma shutdown_goes_on:
  assumes "pr_main s = Some (Shutdown t # rest)"
  shows "\<exists>a s'. \<not> outside a \<and> stop_step ops a s = Some s'"
proof -
  have "stop_step ops CloseListeners s \<noteq> None \<or> stop_step ops Tick s \<noteq> None \<or> stop_step ops TimedOut s \<noteq> None"
    using assms by (auto simp: if_running_def running_def)
  then show ?thesis by (auto simp: outside_def)
qed

lemma main_goes_on:
  assumes "stop_inv ops s" "pr_main s = Some (q # rest)"
  shows "\<exists>a s'. \<not> outside a \<and> stop_step ops a s = Some s'"
proof (cases q)
  case (Shutdown t)
  then show ?thesis using shutdown_goes_on assms(2) by simp
next
  case QuitRetention
  then show ?thesis using retention_goes_on assms by simp
next
  case ClosePublisher
  then show ?thesis using assms(2) by (intro exI [of _ Return]) (auto simp: outside_def)
next
  case CancelContext
  then show ?thesis using assms(2) by (intro exI [of _ Return]) (auto simp: outside_def)
qed (use wait_goes_on assms in auto)

text \<open>So the process ends, in as many steps of its own as its state and the requests account for.\<close>

lemma stop_completes:
  assumes "stop_inv ops s" "pr_main s \<noteq> None"
  shows "\<exists>as s'. (\<forall>a \<in> set as. \<not> outside a) \<and> stop_run ops as s = Some s' \<and> pr_main s' = Some []"
  using assms
proof (induction "stop_rank s" arbitrary: s rule: less_induct)
  case less
  show ?case
  proof (cases "pr_main s = Some []")
    case True
    then show ?thesis by (intro exI [of _ "[]"]) auto
  next
    case False
    then obtain q rest where "pr_main s = Some (q # rest)" using less.prems(2) by (metis list.exhaust option.exhaust)
    then obtain a t where a: "\<not> outside a" "stop_step ops a s = Some t" using main_goes_on less.prems(1) by blast
    have "stop_rank t < stop_rank s" "pr_main t \<noteq> None" using stop_rank_step [OF less.prems(2) a(2)] a(1) by auto
    from less.hyps [OF this(1) stop_inv_step [OF less.prems(1) a(2)] this(2)]
    obtain as s' where "\<forall>a \<in> set as. \<not> outside a" "stop_run ops as t = Some s'" "pr_main s' = Some []" by blast
    then show ?thesis using a by (intro exI [of _ "a # as"]) auto
  qed
qed

lemma stop_run_append:
  "stop_run ops (as @ bs) s = (case stop_run ops as s of None \<Rightarrow> None | Some t \<Rightarrow> stop_run ops bs t)"
  by (induction as arbitrary: s) (auto split: option.splits)

text \<open>What is left to do is the end of what there was to do.\<close>

lemma remaining_step:
  assumes "ops = pre @ remaining ops s" "stop_step ops a s = Some s'"
  shows "\<exists>pre. ops = pre @ remaining ops s'"
proof (cases a)
  case (Advance i st)
  then have "pr_main s' = pr_main s" using assms(2) by (auto elim!: thread_step_cases)
  then show ?thesis using assms(1) by (auto simp: remaining_def)
next
  case Return
  then obtain q where "remaining ops s = q # remaining ops s'"
    using assms(2) by (auto simp: remaining_def split: option.splits list.splits main_op.splits)
  then show ?thesis using assms(1) by (intro exI [of _ "pre @ [q]"]) simp
next
  case AllServed
  then obtain q where "remaining ops s = q # remaining ops s'"
    using assms(2) by (auto simp: remaining_def split: option.splits list.splits main_op.splits)
  then show ?thesis using assms(1) by (intro exI [of _ "pre @ [q]"]) simp
next
  case TimedOut
  then obtain q where "remaining ops s = q # remaining ops s'"
    using assms(2) by (auto simp: remaining_def split: option.splits list.splits main_op.splits)
  then show ?thesis using assms(1) by (intro exI [of _ "pre @ [q]"]) simp
qed (use assms in \<open>auto simp: remaining_def split: option.splits list.splits main_op.splits\<close>)

lemma remaining_run:
  "stop_run ops as s = Some s' \<Longrightarrow> ops = pre @ remaining ops s \<Longrightarrow> \<exists>pre. ops = pre @ remaining ops s'"
proof (induction as arbitrary: s pre)
  case (Cons a as)
  then obtain t where t: "stop_step ops a s = Some t" "stop_run ops as t = Some s'" by (auto split: option.splits)
  show ?case using remaining_step [OF Cons.prems(2) t(1)] Cons.IH [OF t(2)] by blast
qed auto

text \<open>The signal has not come, or \<open>srv.Close\<close> has not returned.\<close>

fun shutting_down :: "process_state \<Rightarrow> bool" where
  "shutting_down s = (case pr_main s of None \<Rightarrow> True | Some [] \<Rightarrow> False | Some (q # _) \<Rightarrow> is_shutdown q)"

lemma waits_to_come:
  assumes "stop_run (executionspace_stop timeout publisher) as (pr_start RNone) = Some s" "shutting_down s"
  shows "to_come (executionspace_stop timeout publisher) WaitActive s \<and> to_come (executionspace_stop timeout publisher) WaitGroup s"
proof (cases "pr_main s")
  case None
  then show ?thesis by (simp add: to_come_def stops_defs)
next
  case (Some rest)
  obtain pre where "executionspace_stop timeout publisher = pre @ remaining (executionspace_stop timeout publisher) s"
    using remaining_run [OF assms(1), of "[]"] by (auto simp: remaining_def pr_start_def)
  then show ?thesis
    using assms(2) Some
    by (cases pre) (auto simp: remaining_def to_come_def stops_defs Cons_eq_append_conv append_eq_Cons_conv split: list.splits if_splits)
qed

subsection \<open>Properties\<close>

text \<open>
  C16: What the shutdown of the execution space provider waits for.  Take a run of the service to its
  exit, and any moment of it before \<open>srv.Close\<close> returns, as well as later until the wait in question:
  a checkout that is counted as active has ended at exit, and so has a stop request or an executor
  start that has joined the wait group, also when the web server's shutdown ran into its timeout; when
  it did not, every request has been served.
\<close>

theorem executionspace_stop_waits:
  assumes "stop_run (executionspace_stop timeout publisher) as (pr_start RNone) = Some s"
    and "stop_run (executionspace_stop timeout publisher) bs s = Some s'"
    and "pr_main s' = Some []"
  shows "(\<forall>i < length (pr_threads s). pr_threads s ! i = (WCheckout, Active) \<longrightarrow>
            shutting_down s \<or> to_come (executionspace_stop timeout publisher) WaitActive s \<longrightarrow>
            pr_threads s' ! i = (WCheckout, Ended))
       \<and> (\<forall>i < length (pr_threads s). in_group (pr_threads s ! i) \<longrightarrow>
            shutting_down s \<or> to_come (executionspace_stop timeout publisher) WaitGroup s \<longrightarrow>
            snd (pr_threads s' ! i) = Ended)
       \<and> (\<not> pr_timed_out s' \<longrightarrow> filter is_handling (pr_threads s') = [])"
proof (intro conjI allI impI)
  have c: "counts s" using counts_run [OF counts_start assms(1)] .
  fix i assume i: "i < length (pr_threads s)"
  show "pr_threads s' ! i = (WCheckout, Ended)"
    if "pr_threads s ! i = (WCheckout, Active)"
      "shutting_down s \<or> to_come (executionspace_stop timeout publisher) WaitActive s"
  proof -
    have w: "to_come (executionspace_stop timeout publisher) WaitActive s" using that(2) waits_to_come [OF assms(1)] by blast
    show ?thesis
      using waits_for [where P = "\<lambda>t. t = (WCheckout, Active)", OF _ _ assms(2) c w assms(3) i] that(1)
      by (auto simp: prod_eq_iff)
  qed
  show "snd (pr_threads s' ! i) = Ended"
    if "in_group (pr_threads s ! i)" "shutting_down s \<or> to_come (executionspace_stop timeout publisher) WaitGroup s"
  proof -
    have w: "to_come (executionspace_stop timeout publisher) WaitGroup s" using that(2) waits_to_come [OF assms(1)] by blast
    show ?thesis using waits_for [where P = in_group, OF group_end _ assms(2) c w assms(3) i] that(1) by auto
  qed
next
  assume "\<not> pr_timed_out s'"
  moreover have "shut_inv (executionspace_stop timeout publisher) (pr_start RNone)"
    by (simp add: shut_inv_def shutdown_to_come_def has_shutdown_def pr_start_def executionspace_stop_def)
  then have "shut_inv (executionspace_stop timeout publisher) s'"
    using shut_inv_run assms(1,2) by blast
  ultimately show "filter is_handling (pr_threads s') = []"
    using assms(3) by (auto simp: shut_inv_def shutdown_to_come_def has_shutdown_def all_served_def filter_empty_conv)
qed

definition checkout_in_time :: "stop_act list" where
  "checkout_in_time = [Request WStart, Advance 0 Left, Advance 1 Active, Advance 0 Ended, Terminate, CloseListeners, AllServed]"

theorem executionspace_stop_waits_witness:
  "\<exists>s s'. stop_run (executionspace_stop 30 False) checkout_in_time (pr_start RNone) = Some s
     \<and> pr_threads s = [(WStart, Ended), (WCheckout, Active)]
     \<and> stop_run (executionspace_stop 30 False) [Return] s = None
     \<and> stop_run (executionspace_stop 30 False) [Advance 1 Ended, Return, Return] s = Some s'
     \<and> pr_main s' = Some [] \<and> pr_threads s' ! 1 = (WCheckout, Ended) \<and> filter is_handling (pr_threads s') = []"
proof -
  let ?ops = "executionspace_stop 30 False"
  obtain s where s: "stop_run ?ops checkout_in_time (pr_start RNone) = Some s"
    "pr_threads s = [(WStart, Ended), (WCheckout, Active)]" "to_come ?ops WaitActive s"
    "stop_run ?ops [Return] s = None"
    by (simp add: checkout_in_time_def thread_step_def if_running_def running_def pr_start_def spawn_def set_thread_def
      executionspace_stop_def provider_Close_def to_come_def)
  obtain s' where s': "stop_run ?ops [Advance 1 Ended, Return, Return] s = Some s'" "pr_main s' = Some []" "\<not> pr_timed_out s'"
    using s(1) by (auto simp: checkout_in_time_def thread_step_def if_running_def running_def pr_start_def spawn_def
      set_thread_def executionspace_stop_def provider_Close_def)
  show ?thesis using executionspace_stop_waits [OF s(1) s'(1,2)] s s' by auto
qed

text \<open>
  The counter of checkouts is raised by the goroutine that \<open>Start\<close> begins and not by \<open>Start\<close>: with
  the signal in between, the process ends with an accepted checkout that has not begun.
\<close>

lemma checkout_lost:
  "\<exists>s. stop_run (executionspace_stop timeout False)
         [Request WStart, Advance 0 Left, Advance 0 Ended, Terminate, CloseListeners, AllServed, Return, Return]
         (pr_start RNone) = Some s
     \<and> pr_main s = Some [] \<and> \<not> pr_timed_out s \<and> pr_threads s = [(WStart, Ended), (WCheckout, Entered)]"
  by (simp add: thread_step_def if_running_def running_def pr_start_def spawn_def set_thread_def
    executionspace_stop_def provider_Close_def)



end
