(* ===== verification/Spec2Isabelle.thy ===== *)
theory Spec2Isabelle
  imports Sse_Props Service_Conc Keys Iut Retention Sse_Connect Startup File_Lines Sse_Lifecycle Publisher_Conc Service_Stop
begin

text \<open>
  A verification library for the Go services of etos-api: the SSE server, the execution space
  provider, the IUT provider, the log area and the key service.

  \<^bold>\<open>The program and its parts.\<close>  Five commands under \<open>cmd/\<close> each read a configuration
  (\<open>internal/config\<close>), set up logging (\<open>internal/logging\<close>), load the routes of their applications
  (\<open>pkg/application\<close>) and serve HTTP (\<open>internal/server\<close>) until a signal comes.  The SSE server
  streams test run events to clients in three protocols (\<open>pkg/sse\<close>): \<open>v2alpha\<close> from a RabbitMQ or
  file stream (\<open>internal/stream\<close>), the older two by polling the log listener of a suite runner, which
  they find through a cached Kubernetes client (\<open>internal/kubernetes\<close>).  The execution space provider
  (\<open>pkg/executionspace\<close>, \<open>internal/executionspace\<close>) keeps executor specifications in etcd
  (\<open>internal/database\<close>) and starts them as Kubernetes jobs; the IUT provider keeps package URLs there.
  The log area stores uploaded files and deletes old ones; the key service signs tokens that the
  authorization middleware checks.  Log entries may also go to RabbitMQ (\<open>internal/rabbitmq\<close>).

  \<^bold>\<open>Shared theories.\<close>
  \<^item> \<open>Etos_Prelude\<close>: strings as byte lists, decimal integers of 64 bits as \<open>strconv\<close> reads and writes
    them, errors (\<open>gerror\<close>: sentinels, texts, wrapped and joined errors, \<open>errors.Is\<close>), \<open>outcome\<close> (a
    result or a panic), and the collection \<open>etos_inv\<close> of preservation lemmas.
  \<^item> \<open>Json_Codec\<close>, \<open>Go_Map\<close>: \<open>encoding/json\<close> as the sources use it, with a proved round trip; the parser
    runs on fuel that its own consumption bounds (\<open>json_fuel_enough\<close>).  Go maps are sorted association
    lists, a nil map is \<open>None\<close>.
  \<^item> \<open>Go_Http\<close>, \<open>Go_Os\<close>: response writers (locale \<open>response_writer\<close>) and a file tree with the errors the
    operating system may answer.

  \<^bold>\<open>The resumable event stream.\<close>
  \<^item> \<open>Sse_Events\<close> (\<open>pkg/events\<close>): \<open>events_New\<close>, \<open>event_Write\<close> and an abstract client of the event-stream
    format, with the round trip over the wire and over a connection that breaks at any byte.
  \<^item> \<open>Stream_Iface\<close> is the interface \<open>internal/stream/stream.go\<close> as the locale \<open>stream_source\<close>;
    \<open>Stream_Rabbit\<close> and \<open>Stream_File\<close> model the two streams as transition systems and interpret it.
    \<open>File_Lines\<close> is the file consumer on bytes, with the buffer of \<open>bufio.Reader\<close>, with and without a
    channel.
  \<^item> \<open>Sse_V2alpha\<close>, \<open>Sse_Delivery\<close>, \<open>Sse_Handler\<close>, \<open>Sse_Resume\<close>: the subscriber's loop (\<open>sub_step\<close>), a
    connection as a step relation over any stream (\<open>conn_step\<close>) with its invariant, \<open>GetEvents\<close>, and
    reconnecting clients.  \<open>Sse_Metrics\<close>: counters and the response recorder of \<open>internal/metrics\<close>.
  \<^item> \<open>Sse_Lifecycle\<close>: the goroutines of one connection (\<open>lc_step\<close>: handler, subscriber, \<open>notifyClose\<close>, the
    consumer's callback), the contexts that end them and the deferred calls; none outlives the handler.
  \<^item> \<open>Sse_Props\<close>, \<open>Sse_Resume\<close> hold the properties: exactly-once delivery across reconnects, isolation of
    identifiers, what filters select, what a refusal means, well-formed output, closed connections.

  \<^bold>\<open>The older streams.\<close>
  \<^item> \<open>Line_Scanner\<close>: \<open>bufio.Scanner\<close> with its limit of 64 KiB, and query encoding.  \<open>Sse_V1alpha\<close> and
    \<open>Sse_V1\<close>: subscriber and handler goroutines over an unbuffered channel as step relations
    (\<open>va_step\<close>, \<open>v1_step\<close>), with invariants by rule induction; the counter is a Go \<open>int\<close> that wraps
    (\<open>wrap64\<close>).
  \<^item> \<open>Kube_Jobs\<close>, \<open>Kube_Cache\<close> (\<open>internal/kubernetes\<close>): the cached lists, sequentially (\<open>cached_list\<close>) and
    step by step under any interleaving (\<open>cc_step\<close>); \<open>cc_alone\<close> relates both.  \<open>Sse_Connect\<close> joins the
    handlers to the lookups through the locale \<open>runner_lookup\<close>.

  \<^bold>\<open>Execution spaces.\<close>
  \<^item> \<open>Etcd\<close> (locales \<open>byte_store\<close>, \<open>reliable_store\<close>), \<open>Execution_Space\<close>, \<open>Provider_Core\<close>: the database, the
    stored documents, and checkout, status, checkin of \<open>providerCore\<close>; \<open>Provider_Props\<close> has their
    properties.
  \<^item> \<open>Kube_Executor\<close> (locale \<open>job_runner\<close>), \<open>Event_Repository\<close>, \<open>Provider_Service\<close>, \<open>Provider_World\<close> (locale
    \<open>provider_world\<close>): the executor on Kubernetes, the event repository, the HTTP handlers, and both
    interfaces together; \<open>Service_Props\<close> has the properties of whole requests.
  \<^item> \<open>Checkout_Frame\<close>, \<open>Service_Runs\<close>: any sequence of requests that check out, query, start and stop
    executors (\<open>serve_all\<close>); no job is lost track of.  \<open>Service_Conc\<close>: starts, stops and checkouts that
    overlap, as goroutines that take turns after each request to the database or to Kubernetes
    (\<open>conc_step\<close>), with the condition under which the same holds, a run that violates it
    (\<open>stop_orphans_job\<close>), and a bound on the steps of all requests (\<open>requests_end\<close>);
    \<open>stages_sequential\<close> relates both.

  \<^bold>\<open>Contexts, start and stop.\<close>  \<open>Go_Context\<close>: \<open>context.Context\<close> as a tree (\<open>ctxs\<close>), the timeout handlers, and a
  database under a context, which keeps the laws of \<open>byte_store\<close>.  \<open>Config\<close>, \<open>Commands\<close>, \<open>Startup\<close>: settings,
  routes, and how far each \<open>main\<close> comes (\<open>boot\<close>), with the clients of etcd and Kubernetes and the tracer.
  \<open>Commands\<close> also has the shutdown of the SSE server (\<open>sv_step\<close>), \<open>Service_Stop\<close> that of the other services
  (\<open>stop_step\<close>): listeners, wait groups, the retention handler, and what may be cut off.

  \<^bold>\<open>Other services.\<close>  \<open>Scope_Auth\<close> (locale \<open>token_authority\<close>) and \<open>Keys\<close>; \<open>Iut\<close>; \<open>Log_Area\<close> and
  \<open>Retention\<close>; \<open>Publisher\<close> and \<open>Log_Hook\<close> (\<open>internal/rabbitmq\<close>, \<open>internal/logging\<close>);
  \<open>Publisher_Conc\<close> is \<open>Publish\<close> again, called by several goroutines, with each access to the shared
  fields a step (\<open>pub_step\<close>).

  \<^bold>\<open>How code becomes definitions.\<close>  A struct is a record, an enumeration a datatype.  A method is a
  function from its receiver's state to its result and the new state, with each early return a
  branch; fallible calls return \<open>gerror + 'a\<close> and panics are \<open>Panicked\<close>.  A \<open>select\<close> loop is a function
  or a step relation over the inputs it received, so that every order of events is covered; a loop
  that has run out of inputs has not returned (\<open>None\<close>).  Goroutines that share state are step relations
  with one shared access a step.  Times are integers in nanoseconds (token times in seconds).

  \<^bold>\<open>Parameters.\<close>  Code outside of the repository is an argument, with its documented behaviour as a
  hypothesis that the witnesses show to be satisfiable: the etcd client (\<open>etcd_lawful\<close>,
  \<open>etcd_reliable\<close>), Kubernetes (\<open>k8s_lawful\<close>, the truthfulness of given lists), the RabbitMQ broker's log
  (\<open>broker_log_ok\<close>), the JWT library (\<open>jwt_lawful\<close>), UUIDs, package URLs, the event schema, the
  formatting of floats, the log listener of a suite runner, and the router.

  \<^bold>\<open>Bounds.\<close>  IDs and offsets are integers with explicit bounds of 64 bits where they are parsed or
  counted; the cache's time to live is five seconds, a token lives for half an hour, the connection
  to RabbitMQ is tried eleven times, the shutdown takes at most sixty seconds.  Each of these is a
  definition or a number of the step function that the properties quote.

  \<^bold>\<open>Not modelled.\<close>  Python code, which is another program.  Spans of a trace and what the log says of them;
  the rotation of log files; range requests and directory listings of \<open>http.ServeFile\<close>.  The getters of
  the configuration are the fields of its records, and each command's copies of \<open>fileLogging\<close> and
  \<open>vcsRevision\<close> are one definition each.  Status requests, which only read, are left out of \<open>Service_Conc\<close>;
  in \<open>Service_Stop\<close> the goroutines of the execution space service have stages without contents.
\<close>

end
